(* ===== verification/Runtime_Prelude.thy ===== *)
theory Runtime_Prelude
  imports Main "HOL-Library.Word" "HOL-Library.Sublist"
begin

text \<open>
  Shared vocabulary of the development: the fixed-width integers of the Rust sources with their
  saturating and checked arithmetic, Rust text as a list of Unicode scalar values with byte
  lengths, the runtime's error type (\<^verbatim>\<open>crates/protocol/src/error.rs\<close>), big-endian byte
  encodings, and the generic lemmas the component theories use.

  Conventions. A \<open>u64\<close>, \<open>u32\<close>, \<open>u16\<close> or \<open>u8\<close> of the source is a word of that width. A
  \<open>usize\<close> is a \<open>nat\<close>: every one that is modelled is the length of an object in memory. Text is a
  list of code points (\<open>rstring\<close>) whose byte length is \<open>str_len\<close>; the fixed messages of the
  sources are HOL strings.
\<close>

named_theorems rust_arith \<open>unat characterisations of saturating and checked arithmetic\<close>
named_theorems str_simps \<open>byte lengths, trimming and splitting of Rust text\<close>

section \<open>Integers\<close>

type_synonym u8 = "8 word"
type_synonym u16 = "16 word"
type_synonym u32 = "32 word"
type_synonym u64 = "64 word"
type_synonym byte = "8 word"

definition sat_add :: "'a::len word \<Rightarrow> 'a word \<Rightarrow> 'a word" where
  "sat_add a b = (if unat a + unat b < 2 ^ LENGTH('a) then a + b else - 1)"

definition sat_sub :: "'a::len word \<Rightarrow> 'a word \<Rightarrow> 'a word" where
  "sat_sub a b = (if b \<le> a then a - b else 0)"

definition sat_mul :: "'a::len word \<Rightarrow> 'a word \<Rightarrow> 'a word" where
  "sat_mul a b = (if unat a * unat b < 2 ^ LENGTH('a) then a * b else - 1)"

definition checked_add :: "'a::len word \<Rightarrow> 'a word \<Rightarrow> 'a word option" where
  "checked_add a b = (if unat a + unat b < 2 ^ LENGTH('a) then Some (a + b) else None)"

definition checked_sub :: "'a::len word \<Rightarrow> 'a word \<Rightarrow> 'a word option" where
  "checked_sub a b = (if b \<le> a then Some (a - b) else None)"

definition checked_mul :: "'a::len word \<Rightarrow> 'a word \<Rightarrow> 'a word option" where
  "checked_mul a b = (if unat a * unat b < 2 ^ LENGTH('a) then Some (a * b) else None)"

text \<open>\<open>u64::try_from\<close> of a wider non-negative value, as an option.\<close>

definition try_word :: "nat \<Rightarrow> 'a::len word option" where
  "try_word n = (if n < 2 ^ LENGTH('a) then Some (of_nat n) else None)"

text \<open>The largest \<open>usize\<close> of the 64-bit targets, and its checked addition.\<close>

definition usize_max :: nat where
  "usize_max = 2 ^ 64 - 1"

definition checked_add_usize :: "nat \<Rightarrow> nat \<Rightarrow> nat option" where
  "checked_add_usize a b = (if a + b \<le> usize_max then Some (a + b) else None)"

fun show_nat :: "nat \<Rightarrow> string" where
  "show_nat n =
     (if n < 10 then [char_of (48 + n)] else show_nat (n div 10) @ [char_of (48 + n mod 10)])"

declare show_nat.simps [simp del]

definition show_word :: "'a::len word \<Rightarrow> string" where
  "show_word w = show_nat (unat w)"

section \<open>Text\<close>

type_synonym rchar = nat
type_synonym rstring = "rchar list"

definition len_utf8 :: "rchar \<Rightarrow> nat" where
  "len_utf8 c = (if c < 128 then 1 else if c < 2048 then 2 else if c < 65536 then 3 else 4)"

primrec str_len :: "rstring \<Rightarrow> nat" where
  "str_len [] = 0"
| "str_len (c # s) = len_utf8 c + str_len s"

text \<open>\<open>char::is_whitespace\<close>: the code points with the Unicode property White\_Space.\<close>

definition is_whitespace :: "rchar \<Rightarrow> bool" where
  "is_whitespace c \<longleftrightarrow>
     9 \<le> c \<and> c \<le> 13 \<or> c = 32 \<or> c = 133 \<or> c = 160 \<or> c = 5760 \<or> 8192 \<le> c \<and> c \<le> 8202 \<or>
     c = 8232 \<or> c = 8233 \<or> c = 8239 \<or> c = 8287 \<or> c = 12288"

definition trim_start :: "rstring \<Rightarrow> rstring" where
  "trim_start s = dropWhile is_whitespace s"

definition trim_end :: "rstring \<Rightarrow> rstring" where
  "trim_end s = rev (dropWhile is_whitespace (rev s))"

definition trim :: "rstring \<Rightarrow> rstring" where
  "trim s = trim_end (trim_start s)"

text \<open>
  Cutting text at a byte offset. Rust panics when the offset is past the end or inside a
  character; the result \<open>None\<close> is that panic.
\<close>

fun split_at_byte :: "nat \<Rightarrow> rstring \<Rightarrow> (rstring \<times> rstring) option" where
  "split_at_byte n s =
     (if n = 0 then Some ([], s)
      else case s of
        [] \<Rightarrow> None
      | c # t \<Rightarrow>
          if len_utf8 c \<le> n
          then map_option (\<lambda>(a, b). (c # a, b)) (split_at_byte (n - len_utf8 c) t)
          else None)"

declare split_at_byte.simps [simp del]

definition char_boundary :: "rstring \<Rightarrow> nat \<Rightarrow> bool" where
  "char_boundary s n \<longleftrightarrow> split_at_byte n s \<noteq> None"

text \<open>\<open>str::char_indices\<close>: each character with the byte offset it starts at.\<close>

primrec char_indices_from :: "nat \<Rightarrow> rstring \<Rightarrow> (nat \<times> rchar) list" where
  "char_indices_from i [] = []"
| "char_indices_from i (c # s) = (i, c) # char_indices_from (i + len_utf8 c) s"

definition char_indices :: "rstring \<Rightarrow> (nat \<times> rchar) list" where
  "char_indices s = char_indices_from 0 s"

fun str_contains :: "rstring \<Rightarrow> rstring \<Rightarrow> bool" where
  "str_contains [] p = (p = [])"
| "str_contains (c # s) p = (take (length p) (c # s) = p \<or> str_contains s p)"

definition str_of :: "string \<Rightarrow> rstring" where
  "str_of s = map of_char s"

definition trim_matches :: "(rchar \<Rightarrow> bool) \<Rightarrow> rstring \<Rightarrow> rstring" where
  "trim_matches p s = rev (dropWhile p (rev (dropWhile p s)))"

text \<open>\<^verbatim>\<open>str::split\<close> by a character predicate keeps empty pieces; \<^verbatim>\<open>split_whitespace\<close> drops them.\<close>

fun split_on :: "(rchar \<Rightarrow> bool) \<Rightarrow> rstring \<Rightarrow> rstring list" where
  "split_on p [] = [[]]"
| "split_on p (c # s) =
     (if p c then [] # split_on p s
      else (case split_on p s of [] \<Rightarrow> [[c]] | w # ws \<Rightarrow> (c # w) # ws))"

definition split_whitespace :: "rstring \<Rightarrow> rstring list" where
  "split_whitespace s = filter (\<lambda>w. w \<noteq> []) (split_on is_whitespace s)"

text \<open>
  The Unicode tables of the standard library, except white space: the code calls them, their
  contents do not matter to any property, and every definition that uses them takes them as an
  argument.
\<close>

record Unicode =
  uc_to_lowercase :: "rstring \<Rightarrow> rstring"
  uc_is_alphanumeric :: "rchar \<Rightarrow> bool"
  uc_is_numeric :: "rchar \<Rightarrow> bool"

definition ascii_unicode :: Unicode where
  "ascii_unicode = \<lparr>
     uc_to_lowercase = map (\<lambda>c. if 65 \<le> c \<and> c \<le> 90 then c + 32 else c),
     uc_is_alphanumeric = (\<lambda>c. (48 \<le> c \<and> c \<le> 57) \<or> (65 \<le> c \<and> c \<le> 90) \<or> (97 \<le> c \<and> c \<le> 122)),
     uc_is_numeric = (\<lambda>c. 48 \<le> c \<and> c \<le> 57)\<rparr>"

section \<open>Errors of the runtime\<close>

datatype RuntimeStage =
    Stage_Runtime | Stage_PrivacyPolicy | Stage_AudioCapture | Stage_SpeechRecognizer
  | Stage_LanguageModel | Stage_SpeechSynthesizer | Stage_AudioOutput | Stage_VoiceSidecar
  | Stage_ContinuousAudioOutput | Stage_Memory

datatype RuntimeErrorKind = Kind_Adapter | Kind_Configuration | Kind_InvalidState

datatype RuntimeError =
  RuntimeError (err_kind: RuntimeErrorKind) (err_stage: RuntimeStage) (err_message: string)

type_synonym 'a result = "RuntimeError + 'a"

fun RuntimeStage_as_str :: "RuntimeStage \<Rightarrow> string" where
  "RuntimeStage_as_str Stage_Runtime = ''runtime''"
| "RuntimeStage_as_str Stage_PrivacyPolicy = ''privacy_policy''"
| "RuntimeStage_as_str Stage_AudioCapture = ''audio_capture''"
| "RuntimeStage_as_str Stage_SpeechRecognizer = ''speech_recognizer''"
| "RuntimeStage_as_str Stage_LanguageModel = ''language_model''"
| "RuntimeStage_as_str Stage_SpeechSynthesizer = ''speech_synthesizer''"
| "RuntimeStage_as_str Stage_AudioOutput = ''audio_output''"
| "RuntimeStage_as_str Stage_VoiceSidecar = ''voice_sidecar''"
| "RuntimeStage_as_str Stage_ContinuousAudioOutput = ''continuous_audio_output''"
| "RuntimeStage_as_str Stage_Memory = ''memory''"

section \<open>Big-endian bytes\<close>

text \<open>\<open>to_be_bytes\<close> and \<open>from_be_bytes\<close> for an integer of \<open>k\<close> bytes.\<close>

primrec nat_to_be :: "nat \<Rightarrow> nat \<Rightarrow> byte list" where
  "nat_to_be 0 n = []"
| "nat_to_be (Suc k) n = nat_to_be k (n div 256) @ [of_nat (n mod 256)]"

definition nat_from_be :: "byte list \<Rightarrow> nat" where
  "nat_from_be bs = foldl (\<lambda>acc b. acc * 256 + unat b) 0 bs"

definition u64_to_be :: "u64 \<Rightarrow> byte list" where
  "u64_to_be w = nat_to_be 8 (unat w)"

definition u32_to_be :: "u32 \<Rightarrow> byte list" where
  "u32_to_be w = nat_to_be 4 (unat w)"

definition u16_to_be :: "u16 \<Rightarrow> byte list" where
  "u16_to_be w = nat_to_be 2 (unat w)"

definition u64_from_be :: "byte list \<Rightarrow> u64" where
  "u64_from_be bs = of_nat (nat_from_be bs)"

definition u32_from_be :: "byte list \<Rightarrow> u32" where
  "u32_from_be bs = of_nat (nat_from_be bs)"

definition u16_from_be :: "byte list \<Rightarrow> u16" where
  "u16_from_be bs = of_nat (nat_from_be bs)"

section \<open>Lemmas: arithmetic\<close>

lemma unat_sat_add [rust_arith]:
  "unat (sat_add a b :: 'a::len word) = min (unat a + unat b) (2 ^ LENGTH('a) - 1)"
  by (auto simp: sat_add_def unat_word_ariths unsigned_minus_1_eq_mask mask_eq_exp_minus_1)

lemma unat_sat_sub [rust_arith]: "unat (sat_sub a b) = unat a - unat b"
  by (auto simp: sat_sub_def unat_sub word_le_nat_alt)

lemma unat_sat_mul [rust_arith]:
  "unat (sat_mul a b :: 'a::len word) = min (unat a * unat b) (2 ^ LENGTH('a) - 1)"
  by (auto simp: sat_mul_def unat_word_ariths unsigned_minus_1_eq_mask mask_eq_exp_minus_1)

lemma checked_add_Some [rust_arith]:
  "checked_add a b = Some c \<longleftrightarrow> unat a + unat b < 2 ^ LENGTH('a) \<and> c = a + (b :: 'a::len word)"
  by (auto simp: checked_add_def)

lemma unat_checked_add:
  "checked_add a b = Some c \<Longrightarrow> unat c = unat a + unat (b :: 'a::len word)"
  by (auto simp: checked_add_def unat_word_ariths split: if_splits)

lemma checked_add_one:
  assumes "a \<noteq> - 1"
  shows "checked_add a 1 = Some (a + (1 :: 'a::len word))"
proof -
  have "unat a \<noteq> unat (- 1 :: 'a word)" using assms by (metis word_unat_eq_iff)
  then have "unat a \<noteq> 2 ^ LENGTH('a) - 1"
    by (simp add: unsigned_minus_1_eq_mask mask_eq_exp_minus_1)
  moreover have "unat a < 2 ^ LENGTH('a)" by (rule unsigned_less)
  ultimately have "unat a + 1 < 2 ^ LENGTH('a)" by linarith
  then show ?thesis by (simp add: checked_add_def)
qed

lemma checked_sub_Some [rust_arith]:
  "checked_sub a b = Some c \<longleftrightarrow> b \<le> a \<and> c = a - (b :: 'a::len word)"
  by (auto simp: checked_sub_def)

lemma unat_checked_sub: "checked_sub a b = Some c \<Longrightarrow> unat c = unat a - unat b"
  by (auto simp: checked_sub_def unat_sub split: if_splits)

lemma unat_checked_mul:
  "checked_mul a b = Some c \<Longrightarrow> unat c = unat a * unat (b :: 'a::len word)"
  by (auto simp: checked_mul_def unat_word_ariths split: if_splits)

lemma sat_add_eq_checked:
  "sat_add a b = (case checked_add a b of Some c \<Rightarrow> c | None \<Rightarrow> - 1)"
  by (simp add: sat_add_def checked_add_def)

section \<open>Lemmas: text\<close>

lemma len_utf8_bounds [simp]: "0 < len_utf8 c" "len_utf8 c \<le> 4"
  by (auto simp: len_utf8_def)

lemma len_utf8_nonzero [simp]: "len_utf8 c \<noteq> 0"
  by (simp add: len_utf8_def)

lemma str_len_append [simp, str_simps]: "str_len (s @ t) = str_len s + str_len t"
  by (induction s) auto

lemma str_len_rev [simp, str_simps]: "str_len (rev s) = str_len s"
  by (induction s) auto

lemma str_len_0 [simp]: "str_len s = 0 \<longleftrightarrow> s = []"
  by (cases s) auto

lemma str_len_pos [simp]: "0 < str_len s \<longleftrightarrow> s \<noteq> []"
  using str_len_0 [of s] by linarith

lemma length_le_str_len: "length s \<le> str_len s"
proof (induction s)
  case (Cons c s)
  have "1 \<le> len_utf8 c" by (simp add: Suc_le_eq)
  with Cons show ?case by simp
qed simp

lemma str_len_dropWhile: "str_len (dropWhile P s) \<le> str_len s"
  by (induction s) auto

lemma str_len_trim_start: "str_len (trim_start s) \<le> str_len s"
  by (simp add: trim_start_def str_len_dropWhile)

lemma str_len_trim_end: "str_len (trim_end s) \<le> str_len s"
  using str_len_dropWhile [of is_whitespace "rev s"] by (simp add: trim_end_def)

lemma str_len_trim: "str_len (trim s) \<le> str_len s"
  using str_len_trim_end [of "trim_start s"] str_len_trim_start [of s]
  by (simp add: trim_def)

lemma trim_empty_iff: "trim s = [] \<longleftrightarrow> (\<forall>c \<in> set s. is_whitespace c)"
proof
  assume "trim s = []"
  then have "\<forall>c \<in> set (trim_start s). is_whitespace c"
    by (auto simp: trim_def trim_end_def)
  moreover have "\<forall>c \<in> set (takeWhile is_whitespace s). is_whitespace c"
    using set_takeWhileD by fast
  moreover have "set s = set (takeWhile is_whitespace s) \<union> set (trim_start s)"
    by (metis set_append takeWhile_dropWhile_id trim_start_def)
  ultimately show "\<forall>c \<in> set s. is_whitespace c" by blast
next
  assume "\<forall>c \<in> set s. is_whitespace c"
  then have "trim_start s = []" by (simp add: trim_start_def)
  then show "trim s = []" by (simp add: trim_def trim_end_def)
qed

lemma trim_Nil [simp, str_simps]: "trim [] = []"
  by (simp add: trim_def trim_start_def trim_end_def)

text \<open>A trimmed text is a contiguous piece of the text it came from.\<close>

lemma trim_sublist: "sublist (trim s) s"
proof -
  have "suffix (trim_start s) s"
    by (simp add: trim_start_def suffix_dropWhile)
  moreover have "prefix (trim_end t) t" for t
    by (metis rev_rev_ident suffix_dropWhile suffix_to_prefix trim_end_def)
  ultimately show ?thesis
    unfolding trim_def
    by (meson prefix_imp_sublist sublist_order.order.trans suffix_imp_sublist)
qed

lemma split_at_byte_0 [simp]: "split_at_byte 0 s = Some ([], s)"
  by (simp add: split_at_byte.simps)

lemma split_at_byte_Nil: "split_at_byte n [] = (if n = 0 then Some ([], []) else None)"
  by (simp add: split_at_byte.simps)

lemma split_at_byte_append: "split_at_byte (str_len a) (a @ b) = Some (a, b)"
proof (induction a)
  case Nil
  then show ?case by simp
next
  case (Cons c a)
  then show ?case by (subst split_at_byte.simps) simp
qed

lemma split_at_byte_Some: "split_at_byte n s = Some (a, b) \<longleftrightarrow> s = a @ b \<and> str_len a = n"
proof
  show "split_at_byte n s = Some (a, b) \<Longrightarrow> s = a @ b \<and> str_len a = n"
  proof (induction n s arbitrary: a b rule: split_at_byte.induct)
    case (1 n s)
    show ?case
    proof (cases "n = 0 \<or> s = []")
      case True
      with "1.prems" show ?thesis by (auto simp: split_at_byte_Nil split: if_splits)
    next
      case False
      then obtain c t where s: "s = c # t" by (cases s) auto
      from False s "1.prems" obtain a' where le: "len_utf8 c \<le> n" and a: "a = c # a'"
        and rec: "split_at_byte (n - len_utf8 c) t = Some (a', b)"
        by (auto simp: split_at_byte.simps [of n "c # t"] split: if_splits)
      from False s le rec have "t = a' @ b \<and> str_len a' = n - len_utf8 c"
        by (intro "1.IH") auto
      with s a le show ?thesis by simp
    qed
  qed
qed (auto simp: split_at_byte_append)

lemma char_boundary_iff: "char_boundary s n \<longleftrightarrow> (\<exists>a b. s = a @ b \<and> str_len a = n)"
proof -
  have "char_boundary s n \<longleftrightarrow> (\<exists>a b. split_at_byte n s = Some (a, b))"
    by (auto simp: char_boundary_def)
  then show ?thesis by (simp add: split_at_byte_Some)
qed

lemma char_boundary_le: "char_boundary s n \<Longrightarrow> n \<le> str_len s"
  by (auto simp: char_boundary_iff)

lemma char_boundary_len [simp]: "char_boundary s (str_len s)"
  by (auto simp: char_boundary_iff)

lemma char_indices_from_mem:
  "(j, c) \<in> set (char_indices_from i s) \<longleftrightarrow> (\<exists>a b. s = a @ c # b \<and> j = i + str_len a)"
proof (induction s arbitrary: i)
  case Nil
  then show ?case by simp
next
  case (Cons d s)
  show ?case
  proof
    assume "(j, c) \<in> set (char_indices_from i (d # s))"
    then consider "j = i" "c = d" | "(j, c) \<in> set (char_indices_from (i + len_utf8 d) s)" by auto
    then show "\<exists>a b. d # s = a @ c # b \<and> j = i + str_len a"
    proof cases
      case 1
      then show ?thesis by (intro exI [of _ "[]"] exI [of _ s]) auto
    next
      case 2
      then obtain a b where "s = a @ c # b" "j = i + len_utf8 d + str_len a"
        using Cons.IH by blast
      then show ?thesis by (intro exI [of _ "d # a"] exI [of _ b]) auto
    qed
  next
    assume "\<exists>a b. d # s = a @ c # b \<and> j = i + str_len a"
    then obtain a b where ab: "d # s = a @ c # b" "j = i + str_len a" by blast
    show "(j, c) \<in> set (char_indices_from i (d # s))"
    proof (cases a)
      case Nil
      with ab show ?thesis by simp
    next
      case (Cons e a')
      with ab have "s = a' @ c # b" "j = (i + len_utf8 d) + str_len a'" by auto
      then have "(j, c) \<in> set (char_indices_from (i + len_utf8 d) s)" using Cons.IH by blast
      then show ?thesis by simp
    qed
  qed
qed

lemma char_indices_mem: "(j, c) \<in> set (char_indices s) \<longleftrightarrow> (\<exists>a b. s = a @ c # b \<and> j = str_len a)"
  by (simp add: char_indices_def char_indices_from_mem)

lemma char_indices_boundary:
  assumes "(j, c) \<in> set (char_indices s)"
  shows "char_boundary s j" and "char_boundary s (j + len_utf8 c)" and "j + len_utf8 c \<le> str_len s"
proof -
  from assms obtain a b where s: "s = a @ c # b" and j: "j = str_len a"
    by (auto simp: char_indices_mem)
  show "char_boundary s j"
    unfolding char_boundary_iff by (rule exI [of _ a], rule exI [of _ "c # b"]) (simp add: s j)
  show next_b: "char_boundary s (j + len_utf8 c)"
    unfolding char_boundary_iff by (rule exI [of _ "a @ [c]"], rule exI [of _ b]) (simp add: s j)
  show "j + len_utf8 c \<le> str_len s" using next_b by (rule char_boundary_le)
qed

text \<open>Trimming removes white space only.\<close>

abbreviation solid :: "rstring \<Rightarrow> rstring" where
  "solid s \<equiv> filter (\<lambda>c. \<not> is_whitespace c) s"

lemma solid_dropWhile: "solid (dropWhile is_whitespace s) = solid s"
  by (induction s) auto

lemma solid_trim [simp]: "solid (trim s) = solid s"
  unfolding trim_def trim_end_def trim_start_def
  by (metis rev_filter rev_rev_ident solid_dropWhile)

lemma solid_Nil_iff: "solid s = [] \<longleftrightarrow> trim s = []"
  by (simp add: filter_empty_conv trim_empty_iff)

lemma str_contains_iff: "str_contains s p \<longleftrightarrow> sublist p s"
proof (induction s)
  case Nil
  then show ?case by simp
next
  case (Cons c s)
  have "take (length p) (c # s) = p \<longleftrightarrow> prefix p (c # s)"
    by (metis append_eq_conv_conj prefix_def)
  then show ?case using Cons by (simp add: sublist_Cons_right)
qed

section \<open>Lemmas: big-endian bytes\<close>

lemma length_nat_to_be [simp]: "length (nat_to_be k n) = k"
  by (induction k arbitrary: n) auto

lemma nat_from_be_snoc: "nat_from_be (bs @ [b]) = nat_from_be bs * 256 + unat b"
  by (simp add: nat_from_be_def)

lemma nat_from_to_be: "nat_from_be (nat_to_be k n) = n mod 256 ^ k"
proof (induction k arbitrary: n)
  case 0
  then show ?case by (simp add: nat_from_be_def)
next
  case (Suc k)
  have "unat (of_nat (n mod 256) :: byte) = n mod 256"
    by (simp add: unat_of_nat)
  then have "nat_from_be (nat_to_be (Suc k) n) = (n div 256 mod 256 ^ k) * 256 + n mod 256"
    by (simp add: nat_from_be_snoc Suc)
  also have "\<dots> = n mod 256 ^ Suc k"
    using mod_mult2_eq [of n 256 "256 ^ k"] by (simp add: mult.commute)
  finally show ?case .
qed

lemma nat_to_from_be: "nat_to_be (length bs) (nat_from_be bs) = bs"
proof (induction bs rule: rev_induct)
  case Nil
  then show ?case by simp
next
  case (snoc b bs)
  have b: "unat b < 256" using unsigned_less [of b, where 'a = nat] by simp
  then have "(nat_from_be bs * 256 + unat b) div 256 = nat_from_be bs"
    and "(nat_from_be bs * 256 + unat b) mod 256 = unat b" by auto
  with snoc show ?case by (simp add: nat_from_be_snoc)
qed

lemma length_be [simp]:
  "length (u64_to_be a) = 8" "length (u32_to_be b) = 4" "length (u16_to_be c) = 2"
  by (simp_all add: u64_to_be_def u32_to_be_def u16_to_be_def)

lemma be_roundtrip [simp]:
  "u64_from_be (u64_to_be a) = a" "u32_from_be (u32_to_be b) = b" "u16_from_be (u16_to_be c) = c"
proof -
  have "unat a < 256 ^ 8" "unat b < 256 ^ 4" "unat c < 256 ^ 2"
    using unsigned_less [of a, where 'a = nat] unsigned_less [of b, where 'a = nat]
      unsigned_less [of c, where 'a = nat] by simp_all
  then show "u64_from_be (u64_to_be a) = a" "u32_from_be (u32_to_be b) = b"
    "u16_from_be (u16_to_be c) = c"
    by (simp_all add: u64_from_be_def u64_to_be_def u32_from_be_def u32_to_be_def
        u16_from_be_def u16_to_be_def nat_from_to_be)
qed

end
