(* ===== verification/Quality_Protocol.thy ===== *)
theory Quality_Protocol
  imports Runtime_Prelude
begin

text \<open>
  The value types of conversation quality, \<^verbatim>\<open>crates/protocol/src/quality.rs\<close>: persona levels
  and profiles, response controls, conversation messages and quality decisions, each with its
  validating constructor. The lemmas bound the spoken budget a persona buys and show that the
  constructors accept exactly the values the constants allow and that a decision lists each signal
  and each context source once.
\<close>

section \<open>Constants\<close>

definition MAX_HISTORY_MESSAGE_COUNT :: nat where
  "MAX_HISTORY_MESSAGE_COUNT = 32"

definition MAX_HISTORY_BYTES :: nat where
  "MAX_HISTORY_BYTES = 32 * 1024"

definition MAX_CONVERSATION_MESSAGE_BYTES :: nat where
  "MAX_CONVERSATION_MESSAGE_BYTES = 16 * 1024"

definition quality_error :: "string \<Rightarrow> RuntimeError" where
  "quality_error m = RuntimeError Kind_Configuration Stage_Runtime m"

section \<open>Personas\<close>

type_synonym TurnId = u64
type_synonym GenerationId = u64
type_synonym SessionId = u64
type_synonym PersonaLevel = u8

definition PersonaLevel_new :: "u8 \<Rightarrow> PersonaLevel result" where
  "PersonaLevel_new value =
     (if value > 100 then Inl (quality_error ''persona level must be within 0..=100'')
      else Inr value)"

record PersonaProfile =
  pp_warmth :: PersonaLevel
  pp_humor :: PersonaLevel
  pp_teasing :: PersonaLevel
  pp_initiative :: PersonaLevel
  pp_directness :: PersonaLevel
  pp_intimacy :: PersonaLevel
  pp_verbosity :: PersonaLevel
  pp_follow_up_frequency :: PersonaLevel

definition PersonaProfile_default :: PersonaProfile where
  "PersonaProfile_default =
     \<lparr>pp_warmth = 80, pp_humor = 60, pp_teasing = 40, pp_initiative = 35, pp_directness = 80,
      pp_intimacy = 30, pp_verbosity = 20, pp_follow_up_frequency = 25\<rparr>"

text \<open>
  The Rust integer type of the computation is \<open>u16\<close>; the words wrap where a release build would.
\<close>

definition maximum_spoken_seconds :: "PersonaProfile \<Rightarrow> u16" where
  "maximum_spoken_seconds p =
     (let verbosity = (ucast (pp_verbosity p) :: u16);
          expansive_bonus = sat_sub verbosity 60 * 3
      in 10 + verbosity * 7 div 10 + expansive_bonus)"

section \<open>Modes, pace and policies\<close>

datatype ConversationMode = DirectAnswer | Companionship | Brainstorming | Reflective

fun ConversationMode_as_str :: "ConversationMode \<Rightarrow> string" where
  "ConversationMode_as_str DirectAnswer = ''direct_answer''"
| "ConversationMode_as_str Companionship = ''companionship''"
| "ConversationMode_as_str Brainstorming = ''brainstorming''"
| "ConversationMode_as_str Reflective = ''reflective''"

datatype SpeechPace = Measured | Natural | Brisk

fun SpeechPace_as_str :: "SpeechPace \<Rightarrow> string" where
  "SpeechPace_as_str Measured = ''measured''"
| "SpeechPace_as_str Natural = ''natural''"
| "SpeechPace_as_str Brisk = ''brisk''"

datatype VoiceResponseMode = Automatic | ExternalGate

fun VoiceResponseMode_as_str :: "VoiceResponseMode \<Rightarrow> string" where
  "VoiceResponseMode_as_str Automatic = ''automatic''"
| "VoiceResponseMode_as_str ExternalGate = ''external_gate''"

definition VoiceResponseMode_parse :: "string \<Rightarrow> VoiceResponseMode option" where
  "VoiceResponseMode_parse value =
     (if value = ''automatic'' then Some Automatic
      else if value = ''external_gate'' then Some ExternalGate else None)"

datatype FollowUpPolicy = Never | Contextual | Allowed

fun FollowUpPolicy_as_str :: "FollowUpPolicy \<Rightarrow> string" where
  "FollowUpPolicy_as_str Never = ''never''"
| "FollowUpPolicy_as_str Contextual = ''contextual''"
| "FollowUpPolicy_as_str Allowed = ''allowed''"

datatype SilencePolicy = AllowWithoutFiller

fun SilencePolicy_as_str :: "SilencePolicy \<Rightarrow> string" where
  "SilencePolicy_as_str AllowWithoutFiller = ''allow_without_filler''"

section \<open>Response controls\<close>

record ResponseControls =
  rc_maximum_spoken_seconds :: u16
  rc_directness :: PersonaLevel
  rc_pace :: SpeechPace
  rc_follow_up_policy :: FollowUpPolicy
  rc_silence_policy :: SilencePolicy

definition ResponseControls_new ::
  "u16 \<Rightarrow> PersonaLevel \<Rightarrow> SpeechPace \<Rightarrow> FollowUpPolicy \<Rightarrow> SilencePolicy
     \<Rightarrow> ResponseControls result" where
  "ResponseControls_new maximum directness pace follow_up silence =
     (if maximum = 0
      then Inl (quality_error ''maximum spoken seconds must be greater than zero'')
      else Inr \<lparr>rc_maximum_spoken_seconds = maximum, rc_directness = directness, rc_pace = pace,
                rc_follow_up_policy = follow_up, rc_silence_policy = silence\<rparr>)"

definition ResponseControls_default :: ResponseControls where
  "ResponseControls_default =
     \<lparr>rc_maximum_spoken_seconds = 20, rc_directness = 80, rc_pace = Natural,
      rc_follow_up_policy = Contextual, rc_silence_policy = AllowWithoutFiller\<rparr>"

section \<open>Signals, messages and context sources\<close>

datatype ConversationSignal =
    Interrupted | ShorterRequested | StopExplaining | QuestionRejected | Hesitation
  | RapidTopicChange

fun ConversationSignal_as_str :: "ConversationSignal \<Rightarrow> string" where
  "ConversationSignal_as_str Interrupted = ''interrupted''"
| "ConversationSignal_as_str ShorterRequested = ''shorter_requested''"
| "ConversationSignal_as_str StopExplaining = ''stop_explaining''"
| "ConversationSignal_as_str QuestionRejected = ''question_rejected''"
| "ConversationSignal_as_str Hesitation = ''hesitation''"
| "ConversationSignal_as_str RapidTopicChange = ''rapid_topic_change''"

datatype ConversationRole = User | Assistant

fun ConversationRole_as_str :: "ConversationRole \<Rightarrow> string" where
  "ConversationRole_as_str User = ''user''"
| "ConversationRole_as_str Assistant = ''assistant''"

record ConversationMessage =
  cm_role :: ConversationRole
  cm_text :: rstring

definition ConversationMessage_new ::
  "ConversationRole \<Rightarrow> rstring \<Rightarrow> ConversationMessage result" where
  "ConversationMessage_new role text =
     (if trim text = [] then Inl (quality_error ''conversation message must not be empty'')
      else if str_len text > MAX_CONVERSATION_MESSAGE_BYTES
      then Inl (quality_error ''conversation message exceeds 16 KiB'')
      else Inr \<lparr>cm_role = role, cm_text = text\<rparr>)"

datatype ContextSource =
  SavedPersona | RecentHistory | CurrentTurn | BargeIn | TemporaryCorrection

fun ContextSource_as_str :: "ContextSource \<Rightarrow> string" where
  "ContextSource_as_str SavedPersona = ''saved_persona''"
| "ContextSource_as_str RecentHistory = ''recent_history''"
| "ContextSource_as_str CurrentTurn = ''current_turn''"
| "ContextSource_as_str BargeIn = ''barge_in''"
| "ContextSource_as_str TemporaryCorrection = ''temporary_correction''"

section \<open>Quality decisions\<close>

text \<open>\<open>unique\<close> keeps the first occurrence of each value; \<open>seen\<close> is the vector being built.\<close>

fun unique_from :: "'a list \<Rightarrow> 'a list \<Rightarrow> 'a list" where
  "unique_from seen [] = seen"
| "unique_from seen (x # xs) =
     (if x \<in> set seen then unique_from seen xs else unique_from (seen @ [x]) xs)"

definition unique :: "'a list \<Rightarrow> 'a list" where
  "unique xs = unique_from [] xs"

record QualityDecision =
  qd_turn_id :: TurnId
  qd_mode :: ConversationMode
  qd_controls :: ResponseControls
  qd_signals :: "ConversationSignal list"
  qd_history_message_count :: nat
  qd_context_sources :: "ContextSource list"

definition QualityDecision_new ::
  "TurnId \<Rightarrow> ConversationMode \<Rightarrow> ResponseControls \<Rightarrow> ConversationSignal list \<Rightarrow> nat
     \<Rightarrow> ContextSource list \<Rightarrow> QualityDecision result" where
  "QualityDecision_new turn_id mode controls signals count sources =
     (if count > MAX_HISTORY_MESSAGE_COUNT
      then Inl (quality_error ''quality history exceeds sixteen exchanges'')
      else Inr \<lparr>qd_turn_id = turn_id, qd_mode = mode, qd_controls = controls,
                qd_signals = unique signals, qd_history_message_count = count,
                qd_context_sources = unique sources\<rparr>)"

fun join_comma :: "string list \<Rightarrow> string" where
  "join_comma [] = []"
| "join_comma [x] = x"
| "join_comma (x # xs) = x @ '','' @ join_comma xs"

definition json_names :: "string list \<Rightarrow> string" where
  "json_names names = join_comma (map (\<lambda>n. [CHR 0x22] @ n @ [CHR 0x22]) names)"

definition json_quoted :: "string \<Rightarrow> string" where
  "json_quoted s = [CHR 0x22] @ s @ [CHR 0x22]"

definition metric_json :: "QualityDecision \<Rightarrow> string" where
  "metric_json d =
     ''{'' @ json_quoted ''turn_id'' @ '':'' @ show_word (qd_turn_id d) @ '','' @
     json_quoted ''mode'' @ '':'' @ json_quoted (ConversationMode_as_str (qd_mode d)) @ '','' @
     json_quoted ''controls'' @ '':{'' @
       json_quoted ''maximum_spoken_seconds'' @ '':'' @
         show_word (rc_maximum_spoken_seconds (qd_controls d)) @ '','' @
       json_quoted ''directness'' @ '':'' @ show_word (rc_directness (qd_controls d)) @ '','' @
       json_quoted ''pace'' @ '':'' @ json_quoted (SpeechPace_as_str (rc_pace (qd_controls d))) @
         '','' @
       json_quoted ''follow_up_policy'' @ '':'' @
         json_quoted (FollowUpPolicy_as_str (rc_follow_up_policy (qd_controls d))) @ '','' @
       json_quoted ''silence_policy'' @ '':'' @
         json_quoted (SilencePolicy_as_str (rc_silence_policy (qd_controls d))) @ ''},'' @
     json_quoted ''signals'' @ '':['' @
       json_names (map ConversationSignal_as_str (qd_signals d)) @ ''],'' @
     json_quoted ''history_message_count'' @ '':'' @ show_nat (qd_history_message_count d) @ '','' @
     json_quoted ''context_sources'' @ '':['' @
       json_names (map ContextSource_as_str (qd_context_sources d)) @ '']}''"

section \<open>Lemmas\<close>

definition persona_ok :: "PersonaProfile \<Rightarrow> bool" where
  "persona_ok p \<longleftrightarrow> (\<forall>l \<in> {pp_warmth p, pp_humor p, pp_teasing p, pp_initiative p,
     pp_directness p, pp_intimacy p, pp_verbosity p, pp_follow_up_frequency p}. l \<le> 100)"

definition message_ok :: "ConversationMessage \<Rightarrow> bool" where
  "message_ok m \<longleftrightarrow>
     trim (cm_text m) \<noteq> [] \<and> str_len (cm_text m) \<le> MAX_CONVERSATION_MESSAGE_BYTES"

lemma PersonaLevel_new_iff: "PersonaLevel_new v = Inr l \<longleftrightarrow> v \<le> 100 \<and> l = v"
  by (auto simp: PersonaLevel_new_def not_less)

lemma persona_ok_default: "persona_ok PersonaProfile_default"
  by (simp add: persona_ok_def PersonaProfile_default_def)

lemma ConversationMessage_new_iff:
  "ConversationMessage_new r t = Inr m \<longleftrightarrow> m = \<lparr>cm_role = r, cm_text = t\<rparr> \<and> message_ok m"
  by (auto simp: ConversationMessage_new_def message_ok_def)

lemma ResponseControls_new_iff:
  "ResponseControls_new n d p f s = Inr c \<longleftrightarrow> n \<noteq> 0 \<and>
     c = \<lparr>rc_maximum_spoken_seconds = n, rc_directness = d, rc_pace = p,
          rc_follow_up_policy = f, rc_silence_policy = s\<rparr>"
  by (auto simp: ResponseControls_new_def)

lemma ResponseControls_default_new:
  "ResponseControls_new 20 80 Natural Contextual AllowWithoutFiller = Inr ResponseControls_default"
  by (simp add: ResponseControls_new_def ResponseControls_default_def)

lemma VoiceResponseMode_parse_as_str:
  "VoiceResponseMode_parse (VoiceResponseMode_as_str m) = Some m"
  by (cases m) (simp_all add: VoiceResponseMode_parse_def)

lemma unat_maximum_spoken_seconds:
  "unat (maximum_spoken_seconds p) =
     10 + unat (pp_verbosity p) * 7 div 10 + (unat (pp_verbosity p) - 60) * 3"
proof -
  let ?v = "unat (pp_verbosity p)"
  have v: "?v \<le> 255" using unsigned_less [of "pp_verbosity p", where 'a = nat] by simp
  have u: "unat (ucast (pp_verbosity p) :: u16) = ?v"
    using v by (simp add: unsigned_ucast_eq take_bit_nat_eq_self)
  have bonus: "unat (sat_sub (ucast (pp_verbosity p) :: u16) 60 * 3) = (?v - 60) * 3"
    using v u by (simp add: unat_word_ariths rust_arith)
  have product: "unat ((ucast (pp_verbosity p) :: u16) * 7) = ?v * 7"
    using v u by (simp add: unat_word_ariths)
  have quotient: "unat ((ucast (pp_verbosity p) :: u16) * 7 div 10) = ?v * 7 div 10"
    using product by (simp add: unat_div)
  have head: "unat (10 + (ucast (pp_verbosity p) :: u16) * 7 div 10) = 10 + ?v * 7 div 10"
    using quotient v by (simp add: unat_word_ariths)
  have "unat (10 + (ucast (pp_verbosity p) :: u16) * 7 div 10
              + sat_sub (ucast (pp_verbosity p)) 60 * 3) = 10 + ?v * 7 div 10 + (?v - 60) * 3"
    unfolding unat_word_ariths(1) [of "10 + (ucast (pp_verbosity p) :: u16) * 7 div 10"]
      head bonus using v by simp
  then show ?thesis by (simp add: maximum_spoken_seconds_def Let_def)
qed

lemma maximum_spoken_seconds_nonzero: "maximum_spoken_seconds p \<noteq> 0"
proof
  assume "maximum_spoken_seconds p = 0"
  then have "unat (maximum_spoken_seconds p) = 0" by simp
  then show False by (simp add: unat_maximum_spoken_seconds)
qed

lemma unique_from_spec:
  "distinct seen \<Longrightarrow> distinct (unique_from seen xs) \<and> set (unique_from seen xs) = set seen \<union> set xs"
  by (induction seen xs rule: unique_from.induct) auto

lemma distinct_unique [simp]: "distinct (unique xs)"
  and set_unique [simp]: "set (unique xs) = set xs"
  using unique_from_spec [of "[]" xs] by (simp_all add: unique_def)

lemma unique_distinct: "distinct (seen @ xs) \<Longrightarrow> unique_from seen xs = seen @ xs"
  by (induction seen xs rule: unique_from.induct) auto

lemma unique_id [simp]: "distinct xs \<Longrightarrow> unique xs = xs"
  by (simp add: unique_def unique_distinct)

end
