(* ===== verification/Conversation_Quality.thy ===== *)
theory Conversation_Quality
  imports Quality_Protocol
begin

text \<open>
  The conversation quality controller, \<^verbatim>\<open>crates/runtime/src/conversation_quality.rs\<close>: signals read
  off the transcript, the controls resolved from them, and the bounded in-session history. The
  history is a list, oldest first. \<open>complete_turn\<close> returns \<open>None\<close> where the Rust code would panic
  (an empty history that is still over its bounds, or a byte counter that would underflow); under
  the invariant it never does.
\<close>

section \<open>State\<close>

definition MAX_HISTORY_EXCHANGES :: nat where
  "MAX_HISTORY_EXCHANGES = MAX_HISTORY_MESSAGE_COUNT div 2"

definition SHORT_PROMPT_CHARACTERS :: nat where "SHORT_PROMPT_CHARACTERS = 24"
definition SHORT_PROMPT_WORDS :: nat where "SHORT_PROMPT_WORDS = 6"
definition SHORT_RESPONSE_SECONDS :: u16 where "SHORT_RESPONSE_SECONDS = 8"
definition EXPANSIVE_VERBOSITY_THRESHOLD :: u8 where "EXPANSIVE_VERBOSITY_THRESHOLD = 60"

definition state_error :: "string \<Rightarrow> RuntimeError" where
  "state_error m = RuntimeError Kind_InvalidState Stage_Runtime m"

record ConversationContextExchange =
  cx_user :: rstring
  cx_assistant :: rstring

record CompletedExchange =
  ce_user :: ConversationMessage
  ce_assistant :: ConversationMessage
  ce_bytes :: nat

record PendingTurn =
  pt_turn_id :: TurnId
  pt_user :: ConversationMessage

record ResolvedConversationQuality =
  rq_saved_persona :: PersonaProfile
  rq_decision :: QualityDecision
  rq_history_messages :: "ConversationMessage list"
  rq_system_guidance :: string
  rq_relationship_guidance :: string

record QualityController =
  q_saved_persona :: PersonaProfile
  q_default_controls :: ResponseControls
  q_default_mode :: ConversationMode
  q_history :: "CompletedExchange list"
  q_history_bytes :: nat
  q_pending_turn :: "PendingTurn option"
  q_interruption_pending :: bool
  q_last_decision :: "QualityDecision option"

definition Quality_new ::
  "PersonaProfile \<Rightarrow> ResponseControls \<Rightarrow> ConversationMode \<Rightarrow> QualityController" where
  "Quality_new persona controls mode =
     \<lparr>q_saved_persona = persona, q_default_controls = controls, q_default_mode = mode,
      q_history = [], q_history_bytes = 0, q_pending_turn = None,
      q_interruption_pending = False, q_last_decision = None\<rparr>"

section \<open>Signals\<close>

definition shorter_phrases :: "rstring list" where
  "shorter_phrases =
     [str_of ''shorter'',
      str_of ''briefly'',
      str_of ''keep it short'',
      [31616, 30701, 19968, 28857],
      [35828, 30701, 28857]]"

definition stop_explaining_phrases :: "rstring list" where
  "stop_explaining_phrases =
     [str_of ''stop explaining'',
      str_of ''don't explain'',
      str_of ''do not explain'',
      str_of ''no more explanation'',
      [21035, 35299, 37322, 20102],
      [19981, 35201, 35299, 37322]]"

definition hesitation_tokens :: "rstring list" where
  "hesitation_tokens =
     [str_of ''um'',
      str_of ''uh'',
      str_of ''hmm'',
      [21571],
      [21999]]"

definition topic_change_phrases :: "rstring list" where
  "topic_change_phrases =
     [str_of ''different topic'',
      str_of ''change the subject'',
      str_of ''switch topics'',
      str_of ''new topic'',
      str_of ''talk about something else'',
      str_of ''let's move on'',
      [25442, 20010, 35805, 39064],
      [25442, 19968, 20010, 35805, 39064],
      [19981, 32842, 36825, 20010],
      [20808, 19981, 35828, 36825, 20010],
      [35828, 28857, 21035, 30340],
      [32842, 28857, 21035, 30340]]"

definition question_rejections :: "rstring list" where
  "question_rejections =
     [str_of ''no'',
      str_of ''no thanks'',
      str_of ''i'd rather not'',
      str_of ''i would rather not'',
      str_of ''don't ask me that'',
      str_of ''do not ask me that'',
      str_of ''not answering that'',
      [19981, 24819, 22238, 31572],
      [21035, 38382, 20102]]"

definition normalize_punctuation :: "rchar list" where
  "normalize_punctuation = [46, 44, 33, 63, 59, 58, 12290, 65292, 65281, 65311, 65307, 65306]"

definition normalize :: "Unicode \<Rightarrow> rstring \<Rightarrow> rstring" where
  "normalize u input =
     uc_to_lowercase u (trim_matches (\<lambda>c. c \<in> set normalize_punctuation) (trim input))"

definition contains_any :: "rstring \<Rightarrow> rstring list \<Rightarrow> bool" where
  "contains_any input phrases = list_ex (\<lambda>p. str_contains input p) phrases"

definition contains_token :: "Unicode \<Rightarrow> rstring \<Rightarrow> rstring list \<Rightarrow> bool" where
  "contains_token u input tokens =
     list_ex (\<lambda>w. w \<in> set tokens) (split_on (\<lambda>c. \<not> uc_is_alphanumeric u c) input)"

definition is_explicit_question_rejection :: "rstring \<Rightarrow> bool" where
  "is_explicit_question_rejection input = (input \<in> set question_rejections)"

definition is_short_prompt :: "rstring \<Rightarrow> bool" where
  "is_short_prompt input =
     (let word_count = length (split_whitespace input)
      in length input \<le> SHORT_PROMPT_CHARACTERS
         \<or> (word_count > 1 \<and> word_count \<le> SHORT_PROMPT_WORDS))"

definition detect_signals :: "Unicode \<Rightarrow> rstring \<Rightarrow> bool \<Rightarrow> ConversationSignal list" where
  "detect_signals u transcript previous_assistant_asked_question =
     (let n = normalize u transcript
      in (if contains_any n shorter_phrases then [ShorterRequested] else [])
       @ (if contains_any n stop_explaining_phrases then [StopExplaining] else [])
       @ (if previous_assistant_asked_question \<and> is_explicit_question_rejection n
          then [QuestionRejected] else [])
       @ (if str_contains n (str_of ''...'') \<or> str_contains n [8230]
             \<or> contains_token u n hesitation_tokens then [Hesitation] else [])
       @ (if contains_any n topic_change_phrases then [RapidTopicChange] else []))"

definition context_sources :: "ConversationSignal list \<Rightarrow> bool \<Rightarrow> ContextSource list" where
  "context_sources signals history_is_empty =
     [SavedPersona]
     @ (if history_is_empty then [] else [RecentHistory])
     @ [CurrentTurn]
     @ (if Interrupted \<in> set signals then [BargeIn] else [])
     @ (if list_ex (\<lambda>s. s \<in> {ShorterRequested, StopExplaining, QuestionRejected,
                              RapidTopicChange}) signals
        then [TemporaryCorrection] else [])"

section \<open>Guidance\<close>

definition relationship_guidance :: "bool \<Rightarrow> string" where
  "relationship_guidance history_is_empty =
     (if history_is_empty
      then ''Use only the current turn to establish tone; do not imply shared history or earned familiarity.''
      else ''Let warmth and familiarity reflect only the supplied shared context, user reciprocity, pacing, and rapport; do not manufacture closeness.'')"

definition system_guidance :: "PersonaProfile \<Rightarrow> QualityDecision \<Rightarrow> string \<Rightarrow> string" where
  "system_guidance persona decision relationship =
     (let controls = qd_controls decision; signals = set (qd_signals decision)
      in ''Saved persona levels (0-100): warmth='' @ show_word (pp_warmth persona) @
         '', humor='' @ show_word (pp_humor persona) @
         '', teasing='' @ show_word (pp_teasing persona) @
         '', initiative='' @ show_word (pp_initiative persona) @
         '', directness='' @ show_word (pp_directness persona) @
         '', intimacy='' @ show_word (pp_intimacy persona) @
         '', verbosity='' @ show_word (pp_verbosity persona) @
         '', follow_up_frequency='' @ show_word (pp_follow_up_frequency persona) @
         ''. Intimacy may shape tone only when supported by shared context and reciprocity; '' @
         ''intimacy never authorizes affection by itself. Use '' @
         ConversationMode_as_str (qd_mode decision) @
         '' mode. Keep spoken output within '' @ show_word (rc_maximum_spoken_seconds controls) @
         '' seconds. Use '' @ SpeechPace_as_str (rc_pace controls) @ '' pace and '' @
         show_word (rc_directness controls) @ '' directness. Follow-up policy is '' @
         FollowUpPolicy_as_str (rc_follow_up_policy controls) @
         ''. Silence may remain without filler. '' @ relationship @
         (if QuestionRejected \<in> signals
          then '' Do not repeat or rephrase the rejected question.'' else []) @
         (if RapidTopicChange \<in> signals
          then '' Follow the new topic without returning to the previous one.'' else []) @
         (if Hesitation \<in> signals
          then '' Leave the user room to continue without pressure.'' else []) @
         (if Interrupted \<in> signals
          then '' Resume only what the user currently requests.'' else []))"

section \<open>Operations\<close>

definition history_messages :: "QualityController \<Rightarrow> ConversationMessage list" where
  "history_messages q = concat (map (\<lambda>e. [ce_user e, ce_assistant e]) (q_history q))"

definition clear_history :: "QualityController \<Rightarrow> QualityController" where
  "clear_history q = q\<lparr>q_history := [], q_history_bytes := 0\<rparr>"

text \<open>The loop of \<^verbatim>\<open>replace_completed_history\<close> with the replacement and its byte count so far.\<close>

fun replacement_from ::
  "ConversationContextExchange list \<Rightarrow> CompletedExchange list \<Rightarrow> nat
     \<Rightarrow> (CompletedExchange list \<times> nat) result" where
  "replacement_from [] replacement bytes_total = Inr (replacement, bytes_total)"
| "replacement_from (x # xs) replacement bytes_total =
     (case ConversationMessage_new User (cx_user x) of
        Inl e \<Rightarrow> Inl e
      | Inr user \<Rightarrow>
     (case ConversationMessage_new Assistant (cx_assistant x) of
        Inl e \<Rightarrow> Inl e
      | Inr assistant \<Rightarrow>
     (case checked_add_usize (str_len (cm_text user)) (str_len (cm_text assistant)) of
        None \<Rightarrow> Inl (state_error ''completed history byte count overflowed'')
      | Some bytes \<Rightarrow>
     (case checked_add_usize bytes_total bytes of
        None \<Rightarrow> Inl (state_error ''completed history byte count overflowed'')
      | Some bytes_total' \<Rightarrow>
        if bytes_total' > MAX_HISTORY_BYTES
        then Inl (state_error ''completed history exceeded 32768 UTF-8 bytes'')
        else replacement_from xs
               (replacement @ [\<lparr>ce_user = user, ce_assistant = assistant, ce_bytes = bytes\<rparr>])
               bytes_total'))))"

definition replace_completed_history ::
  "QualityController \<Rightarrow> ConversationContextExchange list \<Rightarrow> QualityController \<times> unit result" where
  "replace_completed_history q exchanges =
     (if q_pending_turn q \<noteq> None
      then (q, Inl (state_error ''a quality-controlled turn is still pending''))
      else if exchanges = [] \<or> length exchanges > MAX_HISTORY_EXCHANGES
      then (q, Inl (state_error (''completed history must contain between one and '' @
              show_nat MAX_HISTORY_EXCHANGES @ '' exchanges'')))
      else (case replacement_from exchanges [] 0 of
              Inl e \<Rightarrow> (q, Inl e)
            | Inr (replacement, bytes_total) \<Rightarrow>
                (q\<lparr>q_history := replacement, q_history_bytes := bytes_total\<rparr>, Inr ())))"

definition set_persona ::
  "QualityController \<Rightarrow> PersonaProfile \<Rightarrow> ConversationMode \<Rightarrow> QualityController \<times> unit result" where
  "set_persona q persona mode =
     (if q_pending_turn q \<noteq> None
      then (q, Inl (state_error ''a quality-controlled turn is still pending''))
      else (case ResponseControls_new (maximum_spoken_seconds persona) (pp_directness persona)
                   Natural Contextual AllowWithoutFiller of
              Inl e \<Rightarrow> (q, Inl e)
            | Inr controls \<Rightarrow>
                let changed = (q_saved_persona q \<noteq> persona \<or> q_default_mode q \<noteq> mode);
                    q' = q\<lparr>q_saved_persona := persona, q_default_mode := mode,
                           q_default_controls := controls\<rparr>
                in (if changed then clear_history q' else q', Inr ())))"

definition previous_assistant_ended_with_question :: "QualityController \<Rightarrow> bool" where
  "previous_assistant_ended_with_question q =
     (q_history q \<noteq> [] \<and>
      (let t = trim_end (cm_text (ce_assistant (last (q_history q))))
       in t \<noteq> [] \<and> last t \<in> {63, 65311}))"

definition resolve_controls ::
  "QualityController \<Rightarrow> rstring \<Rightarrow> ConversationSignal list \<Rightarrow> ResponseControls result" where
  "resolve_controls q transcript signals =
     (let d = q_default_controls q;
          default = rc_maximum_spoken_seconds d;
          expansive = (pp_verbosity (q_saved_persona q) \<ge> EXPANSIVE_VERBOSITY_THRESHOLD);
          reduced_budget =
            (if expansive then max (default div 2) SHORT_RESPONSE_SECONDS
             else SHORT_RESPONSE_SECONDS);
          m1 = (if is_short_prompt transcript then min default reduced_budget else default);
          explicit_brevity = list_ex (\<lambda>s. s \<in> {ShorterRequested, StopExplaining}) signals;
          m2 = (if explicit_brevity
                then min (min m1 SHORT_RESPONSE_SECONDS) (max (default div 2) 1)
                else if Interrupted \<in> set signals
                then min (min m1 reduced_budget) (max (default div 2) 1)
                else m1);
          hesitant = (Hesitation \<in> set signals);
          rejected = (QuestionRejected \<in> set signals)
      in ResponseControls_new m2 (rc_directness d)
           (if hesitant then Measured else rc_pace d)
           (if hesitant \<or> rejected then Never else rc_follow_up_policy d)
           (rc_silence_policy d))"

definition resolve_turn ::
  "Unicode \<Rightarrow> QualityController \<Rightarrow> TurnId \<Rightarrow> rstring \<Rightarrow> ConversationMode option
     \<Rightarrow> QualityController \<times> ResolvedConversationQuality option result" where
  "resolve_turn u q turn_id transcript mode =
     (if q_pending_turn q \<noteq> None
      then (q, Inl (state_error ''a quality-controlled turn is still pending''))
      else if trim transcript = [] then (q, Inr None)
      else (case ConversationMessage_new User transcript of
        Inl e \<Rightarrow> (q, Inl e)
      | Inr user \<Rightarrow>
          let detected = detect_signals u (cm_text user) (previous_assistant_ended_with_question q);
              signals = (if q_interruption_pending q then Interrupted # detected else detected);
              q1 = q\<lparr>q_interruption_pending := False\<rparr>;
              q2 = (if RapidTopicChange \<in> set signals then clear_history q1 else q1)
          in (case resolve_controls q2 (cm_text user) signals of
                Inl e \<Rightarrow> (q2, Inl e)
              | Inr controls \<Rightarrow>
                  let mode' = (case mode of None \<Rightarrow> q_default_mode q2 | Some m \<Rightarrow> m);
                      messages = history_messages q2;
                      sources = context_sources signals (messages = [])
                  in (case QualityDecision_new turn_id mode' controls signals (length messages)
                             sources of
                        Inl e \<Rightarrow> (q2, Inl e)
                      | Inr decision \<Rightarrow>
                          let relationship = relationship_guidance (messages = []);
                              guidance = system_guidance (q_saved_persona q2) decision relationship
                          in (q2\<lparr>q_pending_turn := Some \<lparr>pt_turn_id = turn_id, pt_user = user\<rparr>,
                                 q_last_decision := Some decision\<rparr>,
                              Inr (Some \<lparr>rq_saved_persona = q_saved_persona q2,
                                         rq_decision = decision,
                                         rq_history_messages = messages,
                                         rq_system_guidance = guidance,
                                         rq_relationship_guidance = relationship\<rparr>))))))"

definition take_pending ::
  "QualityController \<Rightarrow> TurnId \<Rightarrow> QualityController \<times> PendingTurn result" where
  "take_pending q turn_id =
     (case q_pending_turn q of
        Some pending \<Rightarrow>
          if pt_turn_id pending = turn_id then (q\<lparr>q_pending_turn := None\<rparr>, Inr pending)
          else (q, Inl (state_error (''quality turn '' @ show_word (pt_turn_id pending) @
                  '' is pending, not turn '' @ show_word turn_id)))
      | None \<Rightarrow> (q, Inl (state_error ''there is no pending quality-controlled turn'')))"

fun enforce_history_bounds ::
  "CompletedExchange list \<Rightarrow> nat \<Rightarrow> (CompletedExchange list \<times> nat) option" where
  "enforce_history_bounds [] bytes_total =
     (if bytes_total > MAX_HISTORY_BYTES then None else Some ([], bytes_total))"
| "enforce_history_bounds (e # es) bytes_total =
     (if length (e # es) > MAX_HISTORY_EXCHANGES \<or> bytes_total > MAX_HISTORY_BYTES
      then if bytes_total < ce_bytes e then None else enforce_history_bounds es (bytes_total - ce_bytes e)
      else Some (e # es, bytes_total))"

definition complete_turn ::
  "QualityController \<Rightarrow> TurnId \<Rightarrow> rstring \<Rightarrow> (QualityController \<times> unit result) option" where
  "complete_turn q turn_id assistant_output =
     (case take_pending q turn_id of
        (q1, Inl e) \<Rightarrow> Some (q1, Inl e)
      | (q1, Inr pending) \<Rightarrow>
          if str_len assistant_output > MAX_HISTORY_BYTES then Some (q1, Inr ())
          else (case ConversationMessage_new Assistant assistant_output of
                  Inl e \<Rightarrow> Some (q1, Inl e)
                | Inr assistant \<Rightarrow>
                    let bytes = str_len (cm_text (pt_user pending)) + str_len (cm_text assistant)
                    in if bytes > MAX_HISTORY_BYTES then Some (q1, Inr ())
                       else (case enforce_history_bounds
                                    (q_history q1 @ [\<lparr>ce_user = pt_user pending,
                                       ce_assistant = assistant, ce_bytes = bytes\<rparr>])
                                    (q_history_bytes q1 + bytes) of
                               None \<Rightarrow> None
                             | Some (h, b) \<Rightarrow>
                                 Some (q1\<lparr>q_history := h, q_history_bytes := b\<rparr>, Inr ()))))"

definition discard_turn ::
  "QualityController \<Rightarrow> TurnId \<Rightarrow> QualityController \<times> unit result" where
  "discard_turn q turn_id =
     (case take_pending q turn_id of
        (q1, Inl e) \<Rightarrow> (q1, Inl e)
      | (q1, Inr pending) \<Rightarrow> (q1, Inr ()))"

definition interrupt_turn ::
  "QualityController \<Rightarrow> TurnId \<Rightarrow> QualityController \<times> unit result" where
  "interrupt_turn q turn_id =
     (case take_pending q turn_id of
        (q1, Inl e) \<Rightarrow> (q1, Inl e)
      | (q1, Inr pending) \<Rightarrow> (q1\<lparr>q_interruption_pending := True\<rparr>, Inr ()))"

section \<open>Invariant\<close>

definition exchange_ok :: "CompletedExchange \<Rightarrow> bool" where
  "exchange_ok e \<longleftrightarrow> cm_role (ce_user e) = User \<and> cm_role (ce_assistant e) = Assistant
     \<and> message_ok (ce_user e) \<and> message_ok (ce_assistant e)
     \<and> ce_bytes e = str_len (cm_text (ce_user e)) + str_len (cm_text (ce_assistant e))"

definition history_size :: "CompletedExchange list \<Rightarrow> nat" where
  "history_size h = sum_list (map ce_bytes h)"

definition history_fits :: "CompletedExchange list \<Rightarrow> bool" where
  "history_fits h \<longleftrightarrow> length h \<le> MAX_HISTORY_EXCHANGES \<and> history_size h \<le> MAX_HISTORY_BYTES"

definition quality_ok :: "QualityController \<Rightarrow> bool" where
  "quality_ok q \<longleftrightarrow>
     history_fits (q_history q) \<and> q_history_bytes q = history_size (q_history q)
     \<and> list_all exchange_ok (q_history q)
     \<and> (case q_pending_turn q of None \<Rightarrow> True
        | Some p \<Rightarrow> cm_role (pt_user p) = User \<and> message_ok (pt_user p))
     \<and> rc_maximum_spoken_seconds (q_default_controls q) \<noteq> 0"

lemmas quality_consts = MAX_HISTORY_EXCHANGES_def MAX_HISTORY_MESSAGE_COUNT_def
  MAX_HISTORY_BYTES_def MAX_CONVERSATION_MESSAGE_BYTES_def

lemma history_size_simps [simp]:
  "history_size [] = 0" "history_size (e # h) = ce_bytes e + history_size h"
  "history_size (g @ h) = history_size g + history_size h"
  by (simp_all add: history_size_def)

lemma history_fits_Nil [simp]: "history_fits []"
  by (simp add: history_fits_def)

lemma length_history_messages: "length (history_messages q) = 2 * length (q_history q)"
proof -
  have "length (concat (map (\<lambda>e. [ce_user e, ce_assistant e]) h)) = 2 * length h" for h
    by (induction h) auto
  then show ?thesis by (simp add: history_messages_def)
qed

lemma history_messages_Nil_iff [simp]: "history_messages q = [] \<longleftrightarrow> q_history q = []"
  using length_history_messages [of q] by (metis length_0_conv mult_eq_0_iff zero_neq_numeral)

text \<open>The bounds loop: it never panics on a consistent counter, and drops the least it can.\<close>

lemma enforce_history_bounds_spec:
  "enforce_history_bounds h (history_size h) =
     Some (dropWhile_history h, history_size (dropWhile_history h))"
  if "dropWhile_history = (\<lambda>h. drop (LEAST n. history_fits (drop n h)) h)" for dropWhile_history
proof (induction h)
  case Nil
  show ?case by (simp add: that)
next
  case (Cons e es)
  show ?case
  proof (cases "history_fits (e # es)")
    case True
    then have "(LEAST n. history_fits (drop n (e # es))) = 0"
      by (intro Least_eq_0) simp
    with True show ?thesis by (simp add: that history_fits_def)
  next
    case False
    have "history_fits (drop (length (e # es)) (e # es))" by simp
    then have "(LEAST n. history_fits (drop n (e # es)))
             = Suc (LEAST n. history_fits (drop (Suc n) (e # es)))"
      by (rule Least_Suc) (simp add: False)
    then have "dropWhile_history (e # es) = dropWhile_history es" by (simp add: that)
    moreover have "enforce_history_bounds (e # es) (history_size (e # es))
                 = enforce_history_bounds es (history_size es)"
      using False by (auto simp: history_fits_def not_le)
    ultimately show ?thesis using Cons by simp
  qed
qed

definition retained_history :: "CompletedExchange list \<Rightarrow> CompletedExchange list" where
  "retained_history h = drop (LEAST n. history_fits (drop n h)) h"

lemma enforce_retains:
  "enforce_history_bounds h (history_size h) =
     Some (retained_history h, history_size (retained_history h))"
  using enforce_history_bounds_spec [of retained_history h] retained_history_def by blast

lemma retained_history_fits: "history_fits (retained_history h)"
  unfolding retained_history_def
  by (rule LeastI [of _ "length h"]) simp

lemma retained_history_suffix: "suffix (retained_history h) h"
  by (simp add: retained_history_def suffix_drop)

lemma retained_history_maximal:
  assumes "suffix g h" "history_fits g"
  shows "suffix g (retained_history h)"
proof -
  obtain m where g: "g = drop m h" using assms(1) by (metis append_eq_conv_conj suffix_def)
  with assms(2) have "(LEAST n. history_fits (drop n h)) \<le> m" by (simp add: Least_le)
  then show ?thesis
    unfolding g retained_history_def
    by (metis add.commute drop_drop le_add_diff_inverse suffix_drop)
qed

lemma retained_history_id: "history_fits h \<Longrightarrow> retained_history h = h"
  using retained_history_maximal [of h h] retained_history_suffix [of h]
  by (simp add: suffix_order.antisym)

lemma retained_history_list_all: "list_all P h \<Longrightarrow> list_all P (retained_history h)"
  using set_mono_suffix [OF retained_history_suffix] by (auto simp: list_all_iff)

section \<open>Every operation keeps the invariant\<close>

lemma quality_ok_new:
  "rc_maximum_spoken_seconds c \<noteq> 0 \<Longrightarrow> quality_ok (Quality_new p c m)"
  by (simp add: quality_ok_def Quality_new_def)

lemma quality_ok_clear: "quality_ok q \<Longrightarrow> quality_ok (clear_history q)"
  by (simp add: quality_ok_def clear_history_def split: option.splits)

lemma replacement_from_spec:
  assumes "replacement_from xs r t = Inr (r', t')"
    and "t = history_size r" "list_all exchange_ok r" "t \<le> MAX_HISTORY_BYTES"
  shows "t' = history_size r' \<and> list_all exchange_ok r' \<and> t' \<le> MAX_HISTORY_BYTES
       \<and> length r' = length r + length xs
       \<and> map (\<lambda>e. (cm_text (ce_user e), cm_text (ce_assistant e))) r' =
           map (\<lambda>e. (cm_text (ce_user e), cm_text (ce_assistant e))) r
           @ map (\<lambda>x. (cx_user x, cx_assistant x)) xs"
  using assms
proof (induction xs r t rule: replacement_from.induct)
  case (1 r t)
  then show ?case by auto
next
  case (2 x xs r t)
  from 2 show ?case
    by (auto simp: ConversationMessage_new_iff exchange_ok_def checked_add_usize_def
        split: sum.splits option.splits if_splits)
qed

lemma quality_ok_replace:
  "quality_ok q \<Longrightarrow> quality_ok (fst (replace_completed_history q xs))"
  by (auto simp: replace_completed_history_def quality_ok_def history_fits_def
      dest!: replacement_from_spec split: sum.splits)

lemma set_persona_Inr:
  assumes "q_pending_turn q = None"
  obtains c where "ResponseControls_new (maximum_spoken_seconds p) (pp_directness p)
                     Natural Contextual AllowWithoutFiller = Inr c"
    and "set_persona q p m =
      (let q' = q\<lparr>q_saved_persona := p, q_default_mode := m, q_default_controls := c\<rparr>
       in (if q_saved_persona q \<noteq> p \<or> q_default_mode q \<noteq> m then clear_history q' else q',
           Inr ()))"
    and "rc_maximum_spoken_seconds c = maximum_spoken_seconds p"
  using assms maximum_spoken_seconds_nonzero [of p]
  by (simp add: set_persona_def ResponseControls_new_def Let_def)

lemma quality_ok_set_persona: "quality_ok q \<Longrightarrow> quality_ok (fst (set_persona q p m))"
proof (cases "q_pending_turn q = None")
  case True
  assume ok: "quality_ok q"
  obtain c where "set_persona q p m =
      (let q' = q\<lparr>q_saved_persona := p, q_default_mode := m, q_default_controls := c\<rparr>
       in (if q_saved_persona q \<noteq> p \<or> q_default_mode q \<noteq> m then clear_history q' else q', Inr ()))"
    and "rc_maximum_spoken_seconds c = maximum_spoken_seconds p"
    using True by (rule set_persona_Inr)
  then show ?thesis
    using ok maximum_spoken_seconds_nonzero [of p] True
    by (simp add: quality_ok_def clear_history_def Let_def)
next
  case False
  then show "quality_ok q \<Longrightarrow> ?thesis" by (simp add: set_persona_def)
qed

lemma quality_ok_take_pending: "quality_ok q \<Longrightarrow> quality_ok (fst (take_pending q t))"
  by (auto simp: take_pending_def quality_ok_def split: option.splits)

lemma quality_ok_discard: "quality_ok q \<Longrightarrow> quality_ok (fst (discard_turn q t))"
  using quality_ok_take_pending [of q t]
  by (auto simp: discard_turn_def split: prod.splits sum.splits)

lemma quality_ok_interrupt: "quality_ok q \<Longrightarrow> quality_ok (fst (interrupt_turn q t))"
  using quality_ok_take_pending [of q t]
  by (auto simp: interrupt_turn_def quality_ok_def split: prod.splits sum.splits)

section \<open>Resolving a turn\<close>

text \<open>The signals a turn is resolved with, and the controller they leave before it is pending.\<close>

definition turn_signals ::
  "Unicode \<Rightarrow> QualityController \<Rightarrow> rstring \<Rightarrow> ConversationSignal list" where
  "turn_signals u q transcript =
     (if q_interruption_pending q then [Interrupted] else [])
     @ detect_signals u transcript (previous_assistant_ended_with_question q)"

definition turn_context ::
  "Unicode \<Rightarrow> QualityController \<Rightarrow> rstring \<Rightarrow> QualityController" where
  "turn_context u q transcript =
     (let q1 = q\<lparr>q_interruption_pending := False\<rparr>
      in if RapidTopicChange \<in> set (turn_signals u q transcript) then clear_history q1 else q1)"

lemma detect_signals_not_interrupted: "Interrupted \<notin> set (detect_signals u t b)"
  by (simp add: detect_signals_def Let_def)

lemma distinct_detect_signals: "distinct (detect_signals u t b)"
  by (simp add: detect_signals_def Let_def)

lemma distinct_turn_signals: "distinct (turn_signals u q t)"
  by (simp add: turn_signals_def distinct_detect_signals detect_signals_not_interrupted)

lemma distinct_context_sources: "distinct (context_sources s b)"
  by (simp add: context_sources_def)

lemma turn_context_fields [simp]:
  "q_pending_turn (turn_context u q t) = q_pending_turn q"
  "q_interruption_pending (turn_context u q t) = False"
  "q_saved_persona (turn_context u q t) = q_saved_persona q"
  "q_default_controls (turn_context u q t) = q_default_controls q"
  "q_default_mode (turn_context u q t) = q_default_mode q"
  "q_history (turn_context u q t) =
     (if RapidTopicChange \<in> set (turn_signals u q t) then [] else q_history q)"
  by (simp_all add: turn_context_def clear_history_def Let_def)

lemma quality_ok_turn_context: "quality_ok q \<Longrightarrow> quality_ok (turn_context u q t)"
proof -
  assume "quality_ok q"
  then have "quality_ok (q\<lparr>q_interruption_pending := False\<rparr>)" by (simp add: quality_ok_def)
  then show ?thesis by (simp add: turn_context_def Let_def quality_ok_clear)
qed

lemma resolve_controls_spec:
  assumes nonzero: "rc_maximum_spoken_seconds (q_default_controls q) \<noteq> 0"
  obtains c where "resolve_controls q t s = Inr c"
    and "0 < rc_maximum_spoken_seconds c"
    and "rc_maximum_spoken_seconds c \<le> rc_maximum_spoken_seconds (q_default_controls q)"
    and "ShorterRequested \<in> set s \<or> StopExplaining \<in> set s \<Longrightarrow>
           rc_maximum_spoken_seconds c \<le> SHORT_RESPONSE_SECONDS"
    and "ShorterRequested \<in> set s \<or> StopExplaining \<in> set s \<or> Interrupted \<in> set s \<Longrightarrow>
           rc_maximum_spoken_seconds c
             \<le> max (rc_maximum_spoken_seconds (q_default_controls q) div 2) 1"
    and "Hesitation \<in> set s \<or> QuestionRejected \<in> set s \<Longrightarrow> rc_follow_up_policy c = Never"
    and "Hesitation \<in> set s \<Longrightarrow> rc_pace c = Measured"
    and "rc_directness c = rc_directness (q_default_controls q)"
proof -
  let ?d = "rc_maximum_spoken_seconds (q_default_controls q)"
  have pos: "0 < ?d" "0 < max (?d div 2) 1" "0 < SHORT_RESPONSE_SECONDS"
    using nonzero by (simp_all add: word_neq_0_conv SHORT_RESPONSE_SECONDS_def less_max_iff_disj)
  have red: "0 < max (?d div 2) SHORT_RESPONSE_SECONDS"
    by (simp add: SHORT_RESPONSE_SECONDS_def less_max_iff_disj)
  define r where "r = (if pp_verbosity (q_saved_persona q) \<ge> EXPANSIVE_VERBOSITY_THRESHOLD
                       then max (?d div 2) SHORT_RESPONSE_SECONDS else SHORT_RESPONSE_SECONDS)"
  define m1 where "m1 = (if is_short_prompt t then min ?d r else ?d)"
  define b where "b = list_ex (\<lambda>x. x \<in> {ShorterRequested, StopExplaining}) s"
  define m2 where "m2 = (if b then min (min m1 SHORT_RESPONSE_SECONDS) (max (?d div 2) 1)
     else if Interrupted \<in> set s then min (min m1 r) (max (?d div 2) 1) else m1)"
  have b_iff: "b \<longleftrightarrow> ShorterRequested \<in> set s \<or> StopExplaining \<in> set s"
    by (auto simp: b_def list_ex_iff)
  have "0 < r" using pos red by (simp add: r_def)
  then have "0 < m1" "m1 \<le> ?d" using pos by (simp_all add: m1_def)
  moreover have "m2 \<le> m1" by (simp add: m2_def min_le_iff_disj)
  ultimately have m2: "0 < m2" "m2 \<le> ?d" using pos \<open>0 < r\<close> by (simp_all add: m2_def)
  have brief: "b \<Longrightarrow> m2 \<le> SHORT_RESPONSE_SECONDS"
    and half: "b \<or> Interrupted \<in> set s \<Longrightarrow> m2 \<le> max (?d div 2) 1"
    by (auto simp: m2_def min_le_iff_disj)
  have "resolve_controls q t s = Inr \<lparr>rc_maximum_spoken_seconds = m2,
      rc_directness = rc_directness (q_default_controls q),
      rc_pace = (if Hesitation \<in> set s then Measured else rc_pace (q_default_controls q)),
      rc_follow_up_policy = (if Hesitation \<in> set s \<or> QuestionRejected \<in> set s then Never
                             else rc_follow_up_policy (q_default_controls q)),
      rc_silence_policy = rc_silence_policy (q_default_controls q)\<rparr>"
    unfolding resolve_controls_def Let_def r_def [symmetric] m1_def [symmetric] b_def [symmetric]
      m2_def [symmetric] ResponseControls_new_def using m2 by auto
  from this show thesis by (rule that) (use m2 brief half in \<open>auto simp: b_iff\<close>)
qed

definition turn_decision ::
  "Unicode \<Rightarrow> QualityController \<Rightarrow> TurnId \<Rightarrow> rstring \<Rightarrow> ConversationMode option
     \<Rightarrow> ResponseControls \<Rightarrow> QualityDecision" where
  "turn_decision u q turn_id t mode c =
     (let q' = turn_context u q t
      in \<lparr>qd_turn_id = turn_id,
          qd_mode = (case mode of None \<Rightarrow> q_default_mode q | Some m \<Rightarrow> m), qd_controls = c,
          qd_signals = turn_signals u q t,
          qd_history_message_count = 2 * length (q_history q'),
          qd_context_sources = context_sources (turn_signals u q t) (q_history q' = [])\<rparr>)"

lemma turn_signals_fold:
  "(if q_interruption_pending q then Interrupted # detect_signals u t (previous_assistant_ended_with_question q)
    else detect_signals u t (previous_assistant_ended_with_question q)) = turn_signals u q t"
  by (simp add: turn_signals_def)

lemma turn_context_fold:
  "(if RapidTopicChange \<in> set (turn_signals u q t)
    then clear_history (q\<lparr>q_interruption_pending := False\<rparr>)
    else q\<lparr>q_interruption_pending := False\<rparr>) = turn_context u q t"
  by (simp add: turn_context_def Let_def)

lemma turn_decision_new:
  assumes "quality_ok q"
  shows "QualityDecision_new turn_id (case mode of None \<Rightarrow> q_default_mode q | Some m \<Rightarrow> m) c
           (turn_signals u q t) (length (history_messages (turn_context u q t)))
           (context_sources (turn_signals u q t) (history_messages (turn_context u q t) = []))
         = Inr (turn_decision u q turn_id t mode c)"
proof -
  have "history_fits (q_history (turn_context u q t))"
    using quality_ok_turn_context [OF assms] by (simp add: quality_ok_def)
  then show ?thesis
    by (simp add: QualityDecision_new_def turn_decision_def length_history_messages Let_def
        distinct_turn_signals distinct_context_sources history_fits_def quality_consts)
qed

lemma resolve_turn_resolves:
  assumes ok: "quality_ok q" and idle: "q_pending_turn q = None"
    and body: "trim t \<noteq> []" "str_len t \<le> MAX_CONVERSATION_MESSAGE_BYTES"
  obtains c d r where
    "resolve_controls (turn_context u q t) t (turn_signals u q t) = Inr c"
    and "d = turn_decision u q turn_id t mode c"
    and "resolve_turn u q turn_id t mode =
           ((turn_context u q t)\<lparr>
              q_pending_turn := Some \<lparr>pt_turn_id = turn_id, pt_user = \<lparr>cm_role = User, cm_text = t\<rparr>\<rparr>,
              q_last_decision := Some d\<rparr>, Inr (Some r))"
    and "rq_decision r = d" "rq_saved_persona r = q_saved_persona q"
    and "rq_history_messages r = history_messages (turn_context u q t)"
proof -
  have "rc_maximum_spoken_seconds (q_default_controls (turn_context u q t)) \<noteq> 0"
    using quality_ok_turn_context [OF ok] by (simp add: quality_ok_def)
  then obtain c where c: "resolve_controls (turn_context u q t) t (turn_signals u q t) = Inr c"
    by (rule resolve_controls_spec)
  have msg: "ConversationMessage_new User t = Inr \<lparr>cm_role = User, cm_text = t\<rparr>"
    using body by (simp add: ConversationMessage_new_def)
  have mode: "(case mode of None \<Rightarrow> q_default_mode (turn_context u q t) | Some m \<Rightarrow> m)
            = (case mode of None \<Rightarrow> q_default_mode q | Some m \<Rightarrow> m)"
    by (simp split: option.splits)
  have "resolve_turn u q turn_id t mode =
     ((turn_context u q t)\<lparr>
        q_pending_turn := Some \<lparr>pt_turn_id = turn_id, pt_user = \<lparr>cm_role = User, cm_text = t\<rparr>\<rparr>,
        q_last_decision := Some (turn_decision u q turn_id t mode c)\<rparr>,
      Inr (Some \<lparr>rq_saved_persona = q_saved_persona q,
                 rq_decision = turn_decision u q turn_id t mode c,
                 rq_history_messages = history_messages (turn_context u q t),
                 rq_system_guidance = system_guidance (q_saved_persona q)
                   (turn_decision u q turn_id t mode c)
                   (relationship_guidance (history_messages (turn_context u q t) = [])),
                 rq_relationship_guidance =
                   relationship_guidance (history_messages (turn_context u q t) = [])\<rparr>))"
    unfolding resolve_turn_def Let_def msg sum.case ConversationMessage.select_convs
      turn_signals_fold turn_context_fold c mode turn_decision_new [OF ok]
    using idle body by (simp del: history_messages_Nil_iff)
  from this show thesis by (rule that [OF c refl]) simp_all
qed

lemma resolve_turn_cases:
  assumes "quality_ok q"
  shows "(\<exists>e. resolve_turn u q i t mode = (q, Inl e)) \<or> resolve_turn u q i t mode = (q, Inr None)
    \<or> (q_pending_turn q = None \<and> trim t \<noteq> [] \<and> str_len t \<le> MAX_CONVERSATION_MESSAGE_BYTES)"
proof (cases "q_pending_turn q = None \<and> trim t \<noteq> []")
  case True
  then show ?thesis
    by (cases "str_len t \<le> MAX_CONVERSATION_MESSAGE_BYTES")
      (auto simp: resolve_turn_def ConversationMessage_new_def)
qed (auto simp: resolve_turn_def)

lemma quality_ok_resolve:
  assumes ok: "quality_ok q"
  shows "quality_ok (fst (resolve_turn u q i t mode))"
  using resolve_turn_cases [OF ok, of u i t mode]
proof (elim disjE exE conjE)
  assume a: "q_pending_turn q = None" "trim t \<noteq> []" "str_len t \<le> MAX_CONVERSATION_MESSAGE_BYTES"
  obtain d r where "resolve_turn u q i t mode =
       ((turn_context u q t)\<lparr>
          q_pending_turn := Some \<lparr>pt_turn_id = i, pt_user = \<lparr>cm_role = User, cm_text = t\<rparr>\<rparr>,
          q_last_decision := Some d\<rparr>, Inr (Some r))"
    using resolve_turn_resolves [OF ok a] by metis
  then show ?thesis
    using quality_ok_turn_context [OF ok, of u t] a
    by (simp add: quality_ok_def message_ok_def split: if_splits)
qed (use ok in simp_all)

section \<open>Completing a turn\<close>

text \<open>
  With a pending turn of the right id the result is explicit: the oversized answer is dropped, the
  invalid one reported, and a valid one appended with the longest recent history that fits.
\<close>

lemma complete_turn_eq:
  assumes ok: "quality_ok q" and pending: "q_pending_turn q = Some p" "pt_turn_id p = t"
  shows "complete_turn q t out =
    (let q1 = q\<lparr>q_pending_turn := None\<rparr>
     in if str_len out > MAX_HISTORY_BYTES then Some (q1, Inr ())
        else (case ConversationMessage_new Assistant out of
                Inl e \<Rightarrow> Some (q1, Inl e)
              | Inr a \<Rightarrow>
                  let h = retained_history (q_history q @ [\<lparr>ce_user = pt_user p, ce_assistant = a,
                            ce_bytes = str_len (cm_text (pt_user p)) + str_len (cm_text a)\<rparr>])
                  in Some (q1\<lparr>q_history := h, q_history_bytes := history_size h\<rparr>, Inr ())))"
proof -
  have take: "take_pending q t = (q\<lparr>q_pending_turn := None\<rparr>, Inr p)"
    using pending by (simp add: take_pending_def)
  have bytes: "str_len (cm_text (pt_user p)) + str_len (cm_text a) \<le> MAX_HISTORY_BYTES"
    if "ConversationMessage_new Assistant out = Inr a" for a
    using that ok pending
    by (auto simp: ConversationMessage_new_iff quality_ok_def message_ok_def quality_consts)
  have "enforce_history_bounds (q_history q @ [e]) (q_history_bytes q + ce_bytes e) =
          Some (retained_history (q_history q @ [e]),
                history_size (retained_history (q_history q @ [e])))" for e
    using enforce_retains [of "q_history q @ [e]"] ok by (simp add: quality_ok_def)
  from this [of "\<lparr>ce_user = pt_user p, ce_assistant = a, ce_bytes = b\<rparr>" for a b]
  show ?thesis
    using bytes by (auto simp: complete_turn_def take Let_def split: sum.splits)
qed

lemma complete_turn_mismatch:
  assumes "\<nexists>p. q_pending_turn q = Some p \<and> pt_turn_id p = t"
  shows "\<exists>e. complete_turn q t out = Some (q, Inl e)"
  using assms by (auto simp: complete_turn_def take_pending_def split: option.splits)

lemma quality_ok_complete:
  assumes ok: "quality_ok q"
  shows "\<exists>q' r. complete_turn q t out = Some (q', r) \<and> quality_ok q'"
proof (cases "\<exists>p. q_pending_turn q = Some p \<and> pt_turn_id p = t")
  case True
  then obtain p where p: "q_pending_turn q = Some p" "pt_turn_id p = t" by blast
  have ok1: "quality_ok (q\<lparr>q_pending_turn := None\<rparr>)" using ok by (simp add: quality_ok_def)
  have "list_all exchange_ok (q_history q @ [\<lparr>ce_user = pt_user p, ce_assistant = a,
          ce_bytes = str_len (cm_text (pt_user p)) + str_len (cm_text a)\<rparr>])"
    if "ConversationMessage_new Assistant out = Inr a" for a
    using that ok p by (auto simp: quality_ok_def exchange_ok_def ConversationMessage_new_iff)
  then show ?thesis
    unfolding complete_turn_eq [OF ok p] using ok1
    by (auto simp: Let_def quality_ok_def retained_history_fits retained_history_list_all
        simp del: list_all_append split: sum.splits)
next
  case False
  then show ?thesis using ok complete_turn_mismatch [OF False, of out] by auto
qed

section \<open>The turn ledger\<close>

text \<open>
  What the users of the controller rely on: a ledger with at most one open turn. A turn is opened
  only when none is open, and closing it under its own id is the only way it goes away. The lemmas
  of the locale read off a whole run of operations which of them took effect.
\<close>

datatype 'i ledger_op = Open TurnId 'i | Close TurnId 'i

text \<open>A run, with the ids of the turns it opened (\<open>True\<close>) and closed (\<open>False\<close>) in order.\<close>

fun run_ledger ::
  "('s \<Rightarrow> TurnId \<Rightarrow> 'i \<Rightarrow> 's \<times> bool) \<Rightarrow> ('s \<Rightarrow> TurnId \<Rightarrow> 'i \<Rightarrow> 's \<times> bool) \<Rightarrow> 's
     \<Rightarrow> 'i ledger_op list \<Rightarrow> 's \<times> (bool \<times> TurnId) list" where
  "run_ledger resolve settle s [] = (s, [])"
| "run_ledger resolve settle s (Open t i # ops) =
     (case resolve s t i of (s', done) \<Rightarrow>
        case run_ledger resolve settle s' ops of (s'', log) \<Rightarrow> (s'', (if done then [(True, t)] else []) @ log))"
| "run_ledger resolve settle s (Close t i # ops) =
     (case settle s t i of (s', done) \<Rightarrow>
        case run_ledger resolve settle s' ops of (s'', log) \<Rightarrow> (s'', (if done then [(False, t)] else []) @ log))"

fun bracketed :: "TurnId option \<Rightarrow> (bool \<times> TurnId) list \<Rightarrow> TurnId option \<Rightarrow> bool" where
  "bracketed o1 [] o2 = (o1 = o2)"
| "bracketed o1 ((True, t) # log) o2 = (o1 = None \<and> bracketed (Some t) log o2)"
| "bracketed o1 ((False, t) # log) o2 = (o1 = Some t \<and> bracketed None log o2)"

locale turn_ledger =
  fixes inv :: "'s \<Rightarrow> bool"
    and open_turn :: "'s \<Rightarrow> TurnId option"
    and resolve :: "'s \<Rightarrow> TurnId \<Rightarrow> 'i \<Rightarrow> 's \<times> bool"
    and settle :: "'s \<Rightarrow> TurnId \<Rightarrow> 'i \<Rightarrow> 's \<times> bool"
  assumes resolve_inv: "inv s \<Longrightarrow> inv (fst (resolve s t i))"
    and settle_inv: "inv s \<Longrightarrow> inv (fst (settle s t i))"
    and resolve_opens: "inv s \<Longrightarrow> resolve s t i = (s', True) \<Longrightarrow>
          open_turn s = None \<and> open_turn s' = Some t"
    and resolve_refused: "inv s \<Longrightarrow> resolve s t i = (s', False) \<Longrightarrow> open_turn s' = open_turn s"
    and settle_closes: "inv s \<Longrightarrow> open_turn s = Some t \<Longrightarrow>
          open_turn (fst (settle s t i)) = None \<and> snd (settle s t i)"
    and settle_other: "inv s \<Longrightarrow> open_turn s \<noteq> Some t \<Longrightarrow> settle s t i = (s, False)"
begin

lemma run_inv: "inv s \<Longrightarrow> inv (fst (run_ledger resolve settle s ops))"
proof (induction ops arbitrary: s)
  case (Cons op ops)
  show ?case
  proof (cases op)
    case (Open t i)
    with Cons(1) [OF resolve_inv [OF Cons(2), of t i]] show ?thesis by (simp add: case_prod_beta)
  next
    case (Close t i)
    with Cons(1) [OF settle_inv [OF Cons(2), of t i]] show ?thesis by (simp add: case_prod_beta)
  qed
qed simp

lemma run_bracketed:
  "inv s \<Longrightarrow> bracketed (open_turn s) (snd (run_ledger resolve settle s ops))
              (open_turn (fst (run_ledger resolve settle s ops)))"
proof (induction ops arbitrary: s)
  case (Cons op ops)
  show ?case
  proof (cases op)
    case (Open t i)
    obtain s' d where r: "resolve s t i = (s', d)" by force
    with resolve_inv [OF \<open>inv s\<close>, of t i] have "inv s'" by simp
    from Cons(1) [OF this] show ?thesis
      using r Open resolve_opens [OF \<open>inv s\<close>, of t i s'] resolve_refused [OF \<open>inv s\<close>, of t i s']
      by (cases d) (auto split: prod.splits)
  next
    case (Close t i)
    obtain s' d where r: "settle s t i = (s', d)" by force
    with settle_inv [OF \<open>inv s\<close>, of t i] have "inv s'" by simp
    from Cons(1) [OF this] show ?thesis
      using r Close settle_closes [OF \<open>inv s\<close>, of t i] settle_other [OF \<open>inv s\<close>, of t i]
      by (cases "open_turn s = Some t") (auto split: prod.splits)
  qed
qed simp

end

text \<open>The controller as a ledger: a turn is closed by completing, discarding or interrupting it.\<close>

datatype quality_input =
  Transcript rstring "ConversationMode option" | Completed rstring | Discarded | Interruption

definition quality_open :: "QualityController \<Rightarrow> TurnId option" where
  "quality_open q = map_option pt_turn_id (q_pending_turn q)"

lemma quality_open_None: "quality_open q = None \<longleftrightarrow> q_pending_turn q = None"
  by (simp add: quality_open_def)

fun quality_resolve ::
  "Unicode \<Rightarrow> QualityController \<Rightarrow> TurnId \<Rightarrow> quality_input \<Rightarrow> QualityController \<times> bool" where
  "quality_resolve u q t (Transcript x mode) =
     (case resolve_turn u q t x mode of
        (q', Inr (Some r)) \<Rightarrow> (q', True) | (q', _) \<Rightarrow> (q', False))"
| "quality_resolve u q t _ = (q, False)"

fun quality_settle ::
  "QualityController \<Rightarrow> TurnId \<Rightarrow> quality_input \<Rightarrow> QualityController \<times> bool" where
  "quality_settle q t (Completed out) =
     (case complete_turn q t out of
        None \<Rightarrow> (q, False)
      | Some (q', r) \<Rightarrow> (q', \<not> isl (snd (take_pending q t))))"
| "quality_settle q t Interruption =
     (fst (interrupt_turn q t), \<not> isl (snd (take_pending q t)))"
| "quality_settle q t _ = (fst (discard_turn q t), \<not> isl (snd (take_pending q t)))"

lemma complete_turn_closes:
  assumes "quality_ok q" "quality_open q = Some t"
  shows "\<exists>q' r. complete_turn q t out = Some (q', r) \<and> q_pending_turn q' = None"
proof -
  obtain p where "q_pending_turn q = Some p" "pt_turn_id p = t"
    using assms(2) by (auto simp: quality_open_def)
  from complete_turn_eq [OF assms(1) this, of out] show ?thesis
    by (auto simp: Let_def split: sum.splits)
qed

lemma quality_settle_other:
  assumes "quality_open q \<noteq> Some t"
  shows "quality_settle q t i = (q, False)"
proof -
  have "\<exists>e. take_pending q t = (q, Inl e)"
    using assms by (auto simp: quality_open_def take_pending_def split: option.splits)
  then show ?thesis
    by (cases i) (auto simp: complete_turn_def discard_turn_def interrupt_turn_def)
qed

lemma quality_settle_closes:
  assumes "quality_ok q" "quality_open q = Some t"
  shows "quality_open (fst (quality_settle q t i)) = None \<and> snd (quality_settle q t i)"
proof -
  obtain p where take: "take_pending q t = (q\<lparr>q_pending_turn := None\<rparr>, Inr p)"
    using assms(2) by (auto simp: quality_open_def take_pending_def)
  show ?thesis
  proof (cases i)
    case (Completed out)
    with complete_turn_closes [OF assms, of out] take show ?thesis
      by (auto simp: quality_open_def)
  qed (simp_all add: take quality_open_def discard_turn_def interrupt_turn_def)
qed

lemma quality_ok_settle: "quality_ok q \<Longrightarrow> quality_ok (fst (quality_settle q t i))"
proof (cases i)
  case (Completed out)
  assume "quality_ok q"
  from quality_ok_complete [OF this, of t out] Completed show ?thesis by auto
qed (simp_all add: quality_ok_discard quality_ok_interrupt)

lemma quality_resolve_step:
  assumes "quality_ok q"
  shows "quality_ok (fst (quality_resolve u q t i))"
    and "quality_resolve u q t i = (q', True) \<Longrightarrow> quality_open q = None \<and> quality_open q' = Some t"
    and "quality_resolve u q t i = (q', False) \<Longrightarrow> quality_open q' = quality_open q"
proof -
  have *: "quality_ok (fst (quality_resolve u q t i)) \<and>
     (case quality_resolve u q t i of (q', d) \<Rightarrow>
        if d then quality_open q = None \<and> quality_open q' = Some t
        else quality_open q' = quality_open q)"
  proof (cases i)
    case (Transcript x mode)
    show ?thesis
      using resolve_turn_cases [OF assms, of u t x mode]
    proof (elim disjE exE conjE)
      assume a: "q_pending_turn q = None" "trim x \<noteq> []" "str_len x \<le> MAX_CONVERSATION_MESSAGE_BYTES"
      obtain d r where "resolve_turn u q t x mode =
           ((turn_context u q x)\<lparr>
              q_pending_turn := Some \<lparr>pt_turn_id = t, pt_user = \<lparr>cm_role = User, cm_text = x\<rparr>\<rparr>,
              q_last_decision := Some d\<rparr>, Inr (Some r))"
        using resolve_turn_resolves [OF assms a] by metis
      then show ?thesis
        using quality_ok_resolve [OF assms, of u t x mode] a Transcript
        by (simp add: quality_open_def)
    qed (use assms Transcript in simp_all)
  qed (use assms in simp_all)
  show "quality_ok (fst (quality_resolve u q t i))" using * by simp
  show "quality_resolve u q t i = (q', True) \<Longrightarrow> quality_open q = None \<and> quality_open q' = Some t"
    using * by simp
  show "quality_resolve u q t i = (q', False) \<Longrightarrow> quality_open q' = quality_open q"
    using * by simp
qed

interpretation quality: turn_ledger quality_ok quality_open "quality_resolve u" quality_settle
  for u
  by unfold_locales
    (blast intro: quality_resolve_step quality_ok_settle quality_settle_other
      dest: quality_settle_closes quality_resolve_step(2,3))+

section \<open>Properties\<close>

definition demo_quality :: QualityController where
  "demo_quality = Quality_new PersonaProfile_default ResponseControls_default Companionship"

lemma demo_quality_ok: "quality_ok demo_quality"
  by (simp add: demo_quality_def quality_ok_new ResponseControls_default_def)

definition demo_pending :: QualityController where
  "demo_pending = demo_quality\<lparr>q_pending_turn := Some \<lparr>pt_turn_id = 4,
     pt_user = \<lparr>cm_role = User, cm_text = [104]\<rparr>\<rparr>\<rparr>"

lemma demo_texts:
  "trim [104] \<noteq> []" "trim [105] \<noteq> []" "trim [104, 105] \<noteq> []"
  "str_len [104] \<le> MAX_CONVERSATION_MESSAGE_BYTES" "str_len [105] \<le> MAX_CONVERSATION_MESSAGE_BYTES"
  "str_len [104, 105] \<le> MAX_CONVERSATION_MESSAGE_BYTES"
  by (simp_all add: trim_empty_iff is_whitespace_def len_utf8_def quality_consts)

lemma demo_pending_ok: "quality_ok demo_pending" "quality_open demo_pending = Some 4"
  using demo_quality_ok demo_texts
  by (simp_all add: demo_pending_def quality_ok_def message_ok_def quality_open_def)

text \<open>
  C2: Over any sequence of resolve, complete, discard and interrupt calls, whatever their ids and
  texts, the turns the controller opens and closes are bracketed: a turn opens only when none is
  open and closes only under its own id. The history bounds (at most sixteen exchanges and 32 KiB,
  with an exact byte counter) hold in every state, so the bounds loop of \<open>complete_turn\<close> never
  panics.
\<close>

theorem quality_turns_bracketed:
  assumes "quality_ok q"
  shows "bracketed (quality_open q) (snd (run_ledger (quality_resolve u) quality_settle q ops))
           (quality_open (fst (run_ledger (quality_resolve u) quality_settle q ops)))
       \<and> quality_ok (fst (run_ledger (quality_resolve u) quality_settle q ops))
       \<and> complete_turn (fst (run_ledger (quality_resolve u) quality_settle q ops)) t out \<noteq> None"
  using quality.run_bracketed [OF assms, of u ops] quality.run_inv [OF assms, of u ops]
    quality_ok_complete [OF quality.run_inv [OF assms, of u ops], of t out] by auto

theorem quality_turns_bracketed_witness:
  "let final = run_ledger (quality_resolve ascii_unicode) quality_settle demo_quality
                 [Open 1 (Transcript [104, 105] None), Close 1 (Completed [104])]
   in bracketed None (snd final) (quality_open (fst final)) \<and> quality_ok (fst final)
      \<and> complete_turn (fst final) 2 [104] \<noteq> None"
proof -
  have "quality_open demo_quality = None"
    by (simp add: quality_open_def demo_quality_def Quality_new_def)
  then show ?thesis
    using quality_turns_bracketed [OF demo_quality_ok, of ascii_unicode
        "[Open 1 (Transcript [104, 105] None), Close 1 (Completed [104])]"]
    unfolding Let_def by metis
qed

lemma complete_turn_recent:
  assumes ok: "quality_ok q" and pending: "q_pending_turn q = Some p" "pt_turn_id p = t"
    and answer: "trim out \<noteq> []" "str_len out \<le> MAX_CONVERSATION_MESSAGE_BYTES"
  shows "\<exists>q' e. complete_turn q t out = Some (q', Inr ()) \<and> q_pending_turn q' = None
     \<and> ce_user e = pt_user p \<and> cm_text (ce_assistant e) = out \<and> exchange_ok e
     \<and> history_fits (q_history q') \<and> suffix (q_history q') (q_history q @ [e])
     \<and> (\<forall>g. suffix g (q_history q @ [e]) \<and> history_fits g \<longrightarrow> suffix g (q_history q'))
     \<and> q_history q' \<noteq> []"
proof -
  let ?a = "\<lparr>cm_role = Assistant, cm_text = out\<rparr>"
  let ?e = "\<lparr>ce_user = pt_user p, ce_assistant = ?a,
              ce_bytes = str_len (cm_text (pt_user p)) + str_len out\<rparr>"
  have a: "ConversationMessage_new Assistant out = Inr ?a"
    using answer by (simp add: ConversationMessage_new_def)
  have "\<not> str_len out > MAX_HISTORY_BYTES" using answer by (simp add: quality_consts)
  define h where "h = retained_history (q_history q @ [?e])"
  have eq: "complete_turn q t out = Some (q\<lparr>q_pending_turn := None, q_history := h,
      q_history_bytes := history_size h\<rparr>, Inr ())"
    using \<open>\<not> str_len out > MAX_HISTORY_BYTES\<close>
    unfolding complete_turn_eq [OF ok pending] a h_def by (simp add: Let_def)
  have e: "exchange_ok ?e"
    using ok pending answer by (auto simp: exchange_ok_def quality_ok_def message_ok_def)
  have h: "history_fits h" "suffix h (q_history q @ [?e])"
    "\<forall>g. suffix g (q_history q @ [?e]) \<and> history_fits g \<longrightarrow> suffix g h"
    unfolding h_def
    by (blast intro: retained_history_fits retained_history_suffix retained_history_maximal)+
  have "history_fits [?e]"
    using e by (auto simp: history_fits_def exchange_ok_def message_ok_def quality_consts)
  moreover have "suffix [?e] (q_history q @ [?e])" by (simp add: suffix_def)
  ultimately have "suffix [?e] h" using h(3) by blast
  then have "h \<noteq> []" by (auto simp: suffix_def)
  with eq e h show ?thesis
    by (intro exI [of _ "q\<lparr>q_pending_turn := None, q_history := h,
          q_history_bytes := history_size h\<rparr>"] exI [of _ ?e]) (simp del: suffix_snoc)
qed

text \<open>
  C32: Completing the pending turn with a non-blank answer of at most 16 KiB appends the exchange
  and keeps the longest run of most recent exchanges that is within both history bounds: the new
  history fits, ends the old one extended by the exchange, and contains every other such suffix.
\<close>

theorem complete_turn_keeps_recent:
  assumes ok: "quality_ok q" and pending: "q_pending_turn q = Some p" "pt_turn_id p = t"
    and answer: "trim out \<noteq> []" "str_len out \<le> MAX_CONVERSATION_MESSAGE_BYTES"
  shows "\<exists>q' e. complete_turn q t out = Some (q', Inr ()) \<and> q_pending_turn q' = None
     \<and> ce_user e = pt_user p \<and> cm_text (ce_assistant e) = out \<and> exchange_ok e
     \<and> history_fits (q_history q') \<and> suffix (q_history q') (q_history q @ [e])
     \<and> (\<forall>g. suffix g (q_history q @ [e]) \<and> history_fits g \<longrightarrow> suffix g (q_history q'))
     \<and> q_history q' \<noteq> []"
  using complete_turn_recent [OF assms] .

theorem complete_turn_keeps_recent_witness:
  "\<exists>q' e. complete_turn demo_pending 4 [105] = Some (q', Inr ())
     \<and> cm_text (ce_assistant e) = [105] \<and> suffix (q_history q') [e] \<and> q_history q' \<noteq> []"
proof -
  have "q_history demo_pending = []"
    by (simp add: demo_pending_def demo_quality_def Quality_new_def)
  then show ?thesis
    using complete_turn_keeps_recent [OF demo_pending_ok(1) _ _ demo_texts(2,5), of _ 4]
    by (simp add: demo_pending_def) (metis append_Nil)
qed

text \<open>
  C33: An idle controller resolves every non-blank transcript of at most 16 KiB. The decision
  carries the turn's signals once each and a message count of at most 32; the spoken budget is
  positive and never above the persona's default, at most eight seconds after a request for
  brevity and at most half the default (but a second) after an interruption; a hesitation or a
  rejected question turns follow-ups off; and a change of topic empties the history that is sent.
\<close>

theorem resolve_turn_decides:
  assumes ok: "quality_ok q" and idle: "q_pending_turn q = None"
    and body: "trim t \<noteq> []" "str_len t \<le> MAX_CONVERSATION_MESSAGE_BYTES"
  shows "\<exists>q' r. resolve_turn u q i t mode = (q', Inr (Some r)) \<and>
     (let d = rq_decision r; c = qd_controls d; default = q_default_controls q
      in qd_turn_id d = i \<and> q_last_decision q' = Some d \<and> quality_open q' = Some i
       \<and> set (qd_signals d) = set (turn_signals u q t) \<and> distinct (qd_signals d)
       \<and> qd_history_message_count d = length (rq_history_messages r)
       \<and> length (rq_history_messages r) \<le> MAX_HISTORY_MESSAGE_COUNT
       \<and> 0 < rc_maximum_spoken_seconds c
       \<and> rc_maximum_spoken_seconds c \<le> rc_maximum_spoken_seconds default
       \<and> (ShorterRequested \<in> set (qd_signals d) \<or> StopExplaining \<in> set (qd_signals d)
            \<longrightarrow> rc_maximum_spoken_seconds c \<le> 8)
       \<and> (Interrupted \<in> set (qd_signals d)
            \<longrightarrow> rc_maximum_spoken_seconds c \<le> max (rc_maximum_spoken_seconds default div 2) 1)
       \<and> (Hesitation \<in> set (qd_signals d) \<or> QuestionRejected \<in> set (qd_signals d)
            \<longrightarrow> rc_follow_up_policy c = Never)
       \<and> (if RapidTopicChange \<in> set (qd_signals d) then rq_history_messages r = []
          else rq_history_messages r = history_messages q))"
proof -
  obtain c d r where c: "resolve_controls (turn_context u q t) t (turn_signals u q t) = Inr c"
    and d: "d = turn_decision u q i t mode c"
    and eq: "resolve_turn u q i t mode = ((turn_context u q t)\<lparr>
        q_pending_turn := Some \<lparr>pt_turn_id = i, pt_user = \<lparr>cm_role = User, cm_text = t\<rparr>\<rparr>,
        q_last_decision := Some d\<rparr>, Inr (Some r))"
    and r: "rq_decision r = d" "rq_history_messages r = history_messages (turn_context u q t)"
    using resolve_turn_resolves [OF ok idle body] by metis
  have fits: "length (q_history (turn_context u q t)) \<le> MAX_HISTORY_EXCHANGES"
    using quality_ok_turn_context [OF ok] by (simp add: quality_ok_def history_fits_def)
  have "rc_maximum_spoken_seconds (q_default_controls (turn_context u q t)) \<noteq> 0"
    using ok by (simp add: quality_ok_def)
  from resolve_controls_spec [OF this, of t "turn_signals u q t"] c
  have bounds: "0 < rc_maximum_spoken_seconds c"
    "rc_maximum_spoken_seconds c \<le> rc_maximum_spoken_seconds (q_default_controls q)"
    "ShorterRequested \<in> set (turn_signals u q t) \<or> StopExplaining \<in> set (turn_signals u q t) \<Longrightarrow>
       rc_maximum_spoken_seconds c \<le> 8"
    "Interrupted \<in> set (turn_signals u q t) \<Longrightarrow> rc_maximum_spoken_seconds c
       \<le> max (rc_maximum_spoken_seconds (q_default_controls q) div 2) 1"
    "Hesitation \<in> set (turn_signals u q t) \<or> QuestionRejected \<in> set (turn_signals u q t) \<Longrightarrow>
       rc_follow_up_policy c = Never"
    by (force simp: SHORT_RESPONSE_SECONDS_def)+
  have messages: "history_messages (turn_context u q t) =
      (if RapidTopicChange \<in> set (turn_signals u q t) then [] else history_messages q)"
    by (simp add: history_messages_def)
  have len: "length (history_messages (turn_context u q t)) \<le> MAX_HISTORY_MESSAGE_COUNT"
    using fits by (simp add: length_history_messages quality_consts)
  show ?thesis
    unfolding eq using bounds len
    by (auto simp: r d turn_decision_def Let_def quality_open_def distinct_turn_signals
        messages length_history_messages)
qed

theorem resolve_turn_decides_witness:
  "\<exists>q' r. resolve_turn ascii_unicode demo_quality 1 [104, 105] None = (q', Inr (Some r))
     \<and> rc_maximum_spoken_seconds (qd_controls (rq_decision r)) \<le> 20
     \<and> quality_open q' = Some 1"
proof -
  have "q_pending_turn demo_quality = None"
    "rc_maximum_spoken_seconds (q_default_controls demo_quality) = 20"
    by (simp_all add: demo_quality_def Quality_new_def ResponseControls_default_def)
  from resolve_turn_decides [OF demo_quality_ok this(1) demo_texts(3,6), of ascii_unicode 1 None]
    this(2)
  show ?thesis unfolding Let_def by metis
qed

text \<open>
  C35: An interruption is reported exactly once. Interrupting the pending turn makes the next
  resolved turn carry the \<open>Interrupted\<close> signal and the barge-in source, and the turn resolved
  after that one is closed in any way other than by another interruption carries neither.
\<close>

theorem interruption_reported_once:
  assumes ok: "quality_ok q" and pending: "quality_open q = Some i"
    and body: "trim t \<noteq> []" "str_len t \<le> MAX_CONVERSATION_MESSAGE_BYTES"
      "trim t2 \<noteq> []" "str_len t2 \<le> MAX_CONVERSATION_MESSAGE_BYTES"
    and first: "resolve_turn u (fst (interrupt_turn q i)) j t mode = (q1, Inr (Some r1))"
    and close: "quality_settle q1 j how = (q2, True)" "how \<noteq> Interruption"
    and second: "resolve_turn u q2 k t2 mode2 = (q3, Inr (Some r2))"
  shows "Interrupted \<in> set (qd_signals (rq_decision r1)) \<and>
         BargeIn \<in> set (qd_context_sources (rq_decision r1)) \<and>
         Interrupted \<notin> set (qd_signals (rq_decision r2)) \<and>
         BargeIn \<notin> set (qd_context_sources (rq_decision r2))"
proof -
  let ?q = "fst (interrupt_turn q i)"
  have ok0: "quality_ok ?q" by (rule quality_ok_interrupt [OF ok])
  have flag: "q_interruption_pending ?q" "q_pending_turn ?q = None"
    using pending by (auto simp: interrupt_turn_def take_pending_def quality_open_def)
  obtain c d r where "d = turn_decision u ?q j t mode c" "rq_decision r = d"
    and "resolve_turn u ?q j t mode = ((turn_context u ?q t)\<lparr>q_pending_turn :=
        Some \<lparr>pt_turn_id = j, pt_user = \<lparr>cm_role = User, cm_text = t\<rparr>\<rparr>,
        q_last_decision := Some d\<rparr>, Inr (Some r))"
    using resolve_turn_resolves [OF ok0 flag(2) body(1,2)] by metis
  then have r1: "Interrupted \<in> set (qd_signals (rq_decision r1))"
    "BargeIn \<in> set (qd_context_sources (rq_decision r1))"
    and q1: "q_interruption_pending q1 = False" "quality_open q1 = Some j"
    using first flag(1)
    by (auto simp: turn_decision_def turn_signals_def context_sources_def Let_def quality_open_def)
  have ok1: "quality_ok q1" using quality_ok_resolve [OF ok0, of u j t mode] first by simp
  have q2: "quality_ok q2" "q_pending_turn q2 = None"
    using quality_ok_settle [OF ok1, of j how] quality_settle_closes [OF ok1 q1(2), of how] close
    by (simp_all add: quality_open_def)
  obtain p where p: "q_pending_turn q1 = Some p" "pt_turn_id p = j"
    using q1(2) by (auto simp: quality_open_def)
  have noflag: "q_interruption_pending q2 = False"
    using close q1(1) p
    by (cases how) (auto simp: complete_turn_eq [OF ok1 p] discard_turn_def take_pending_def Let_def
        split: sum.splits if_splits)
  obtain c' d' r' where "d' = turn_decision u q2 k t2 mode2 c'" "rq_decision r' = d'"
    and "resolve_turn u q2 k t2 mode2 = ((turn_context u q2 t2)\<lparr>q_pending_turn :=
        Some \<lparr>pt_turn_id = k, pt_user = \<lparr>cm_role = User, cm_text = t2\<rparr>\<rparr>,
        q_last_decision := Some d'\<rparr>, Inr (Some r'))"
    using resolve_turn_resolves [OF q2 body(3,4)] by metis
  then have "Interrupted \<notin> set (qd_signals (rq_decision r2))"
    "BargeIn \<notin> set (qd_context_sources (rq_decision r2))"
    using second noflag
    by (auto simp: turn_decision_def turn_signals_def context_sources_def Let_def
        detect_signals_not_interrupted)
  with r1 show ?thesis by simp
qed

theorem interruption_reported_once_witness:
  "\<exists>q1 r1 q2 q3 r2.
     resolve_turn ascii_unicode (fst (interrupt_turn demo_pending 4)) 5 [104] None
       = (q1, Inr (Some r1))
     \<and> quality_settle q1 5 Discarded = (q2, True)
     \<and> resolve_turn ascii_unicode q2 6 [105] None = (q3, Inr (Some r2))
     \<and> Interrupted \<in> set (qd_signals (rq_decision r1))
     \<and> Interrupted \<notin> set (qd_signals (rq_decision r2))"
proof -
  let ?q = "fst (interrupt_turn demo_pending 4)"
  have ok: "quality_ok ?q" "q_pending_turn ?q = None"
    by (rule quality_ok_interrupt [OF demo_pending_ok(1)])
      (simp add: interrupt_turn_def take_pending_def demo_pending_def)
  obtain d r1 where first0: "resolve_turn ascii_unicode ?q 5 [104] None =
      ((turn_context ascii_unicode ?q [104])\<lparr>q_pending_turn := Some \<lparr>pt_turn_id = 5,
         pt_user = \<lparr>cm_role = User, cm_text = [104]\<rparr>\<rparr>, q_last_decision := Some d\<rparr>, Inr (Some r1))"
    by (rule resolve_turn_resolves [OF ok demo_texts(1,4)])
  then obtain q1 where first: "resolve_turn ascii_unicode ?q 5 [104] None = (q1, Inr (Some r1))"
    and open1: "quality_open q1 = Some 5" by (simp add: quality_open_def)
  have ok1: "quality_ok q1" using quality_ok_resolve [OF ok(1), of ascii_unicode 5 "[104]" None] first by simp
  obtain q2 where close: "quality_settle q1 5 Discarded = (q2, True)"
    and ok2: "quality_ok q2" "q_pending_turn q2 = None"
    using quality_settle_closes [OF ok1 open1, of Discarded] quality_ok_settle [OF ok1, of 5 Discarded]
    by (cases "quality_settle q1 5 Discarded") (simp add: quality_open_def)
  obtain q3 r2 where second: "resolve_turn ascii_unicode q2 6 [105] None = (q3, Inr (Some r2))"
    by (rule resolve_turn_resolves [OF ok2 demo_texts(2,5)])
  show ?thesis
    using interruption_reported_once [OF demo_pending_ok demo_texts(1,4,2,5) first close _ second]
      first close second by blast
qed


definition seed_ok :: "ConversationContextExchange list \<Rightarrow> bool" where
  "seed_ok xs \<longleftrightarrow> xs \<noteq> [] \<and> length xs \<le> 16
     \<and> list_all (\<lambda>x. trim (cx_user x) \<noteq> [] \<and> str_len (cx_user x) \<le> 16384
                    \<and> trim (cx_assistant x) \<noteq> [] \<and> str_len (cx_assistant x) \<le> 16384) xs
     \<and> sum_list (map (\<lambda>x. str_len (cx_user x) + str_len (cx_assistant x)) xs) \<le> 32768"

definition exchange_texts :: "CompletedExchange \<Rightarrow> rstring \<times> rstring" where
  "exchange_texts e = (cm_text (ce_user e), cm_text (ce_assistant e))"

lemma replacement_from_succeeds:
  "t \<le> MAX_HISTORY_BYTES \<Longrightarrow>
     isl (replacement_from xs r t) \<longleftrightarrow>
       \<not> (list_all (\<lambda>x. message_ok \<lparr>cm_role = User, cm_text = cx_user x\<rparr>
                      \<and> message_ok \<lparr>cm_role = Assistant, cm_text = cx_assistant x\<rparr>) xs
          \<and> t + sum_list (map (\<lambda>x. str_len (cx_user x) + str_len (cx_assistant x)) xs)
              \<le> MAX_HISTORY_BYTES)"
proof (induction xs r t rule: replacement_from.induct)
  case (2 x xs r t)
  let ?u = "\<lparr>cm_role = User, cm_text = cx_user x\<rparr>"
  let ?a = "\<lparr>cm_role = Assistant, cm_text = cx_assistant x\<rparr>"
  let ?b = "str_len (cx_user x) + str_len (cx_assistant x)"
  show ?case
  proof (cases "message_ok ?u \<and> message_ok ?a")
    case True
    then have new: "ConversationMessage_new User (cx_user x) = Inr ?u"
      "ConversationMessage_new Assistant (cx_assistant x) = Inr ?a"
      by (simp_all add: ConversationMessage_new_iff)
    have "?b \<le> 32768" using True by (simp add: message_ok_def quality_consts)
    then have add: "checked_add_usize (str_len (cx_user x)) (str_len (cx_assistant x)) = Some ?b"
      "checked_add_usize t ?b = Some (t + ?b)"
      using 2(2) by (simp_all add: checked_add_usize_def usize_max_def quality_consts)
    show ?thesis
    proof (cases "t + ?b \<le> MAX_HISTORY_BYTES")
      case le: True
      show ?thesis
        using 2(1) [OF new, of ?b "t + ?b"] le True by (simp add: new add add.assoc)
    next
      case False
      then show ?thesis by (simp add: new add)
    qed
  next
    case False
    then show ?thesis
      by (auto simp: ConversationMessage_new_def message_ok_def split: sum.splits)
  qed
qed simp

text \<open>
  C37: Seeding the history either installs the given exchanges in order as user and assistant
  messages, or changes nothing; it succeeds exactly for one to sixteen exchanges of valid messages
  that total at most 32 KiB while no turn is pending.
\<close>

theorem seed_all_or_nothing:
  "if q_pending_turn q = None \<and> seed_ok xs
   then \<exists>q'. replace_completed_history q xs = (q', Inr ())
          \<and> map exchange_texts (q_history q') = map (\<lambda>x. (cx_user x, cx_assistant x)) xs
          \<and> list_all exchange_ok (q_history q') \<and> history_fits (q_history q')
          \<and> q_history_bytes q' = history_size (q_history q')
   else \<exists>e. replace_completed_history q xs = (q, Inl e)"
proof -
  have seed: "seed_ok xs \<longleftrightarrow> xs \<noteq> [] \<and> length xs \<le> MAX_HISTORY_EXCHANGES
                              \<and> \<not> isl (replacement_from xs [] 0)"
    by (simp add: seed_ok_def replacement_from_succeeds message_ok_def quality_consts)
  show ?thesis
  proof (cases "q_pending_turn q = None \<and> seed_ok xs")
    case True
    then obtain r t where r: "replacement_from xs [] 0 = Inr (r, t)"
      using seed by (metis isl_def old.prod.exhaust sum.exhaust_sel)
    have "replace_completed_history q xs
        = (q\<lparr>q_history := r, q_history_bytes := t\<rparr>, Inr ())"
      using True r seed by (simp add: replace_completed_history_def)
    moreover have "length r \<le> MAX_HISTORY_EXCHANGES"
      using replacement_from_spec [OF r] True seed by simp
    ultimately show ?thesis
      using True replacement_from_spec [OF r]
      by (simp add: exchange_texts_def [abs_def] history_fits_def)
  next
    case False
    then show ?thesis
      using seed by (auto simp: replace_completed_history_def split: sum.splits)
  qed
qed

text \<open>
  Two details of the code that its documents do not mention. The punctuation at the ends of a
  transcript is trimmed before the ellipsis is looked for, so a trailing one is not a hesitation; and
  an answer longer than a message is an error, unless it is longer than the whole history.
\<close>

lemma trailing_ellipsis_not_hesitation: "Hesitation \<notin> set (detect_signals ascii_unicode (str_of ''well...'') asked)"
proof -
  have "normalize ascii_unicode (str_of ''well...'') = str_of ''well''"
    by (simp add: normalize_def normalize_punctuation_def str_of_def trim_def trim_start_def trim_end_def trim_matches_def
        is_whitespace_def ascii_unicode_def)
  then show ?thesis
    by (simp add: detect_signals_def Let_def str_of_def contains_token_def hesitation_tokens_def ascii_unicode_def)
qed

lemma long_answers_differ:
  assumes "quality_ok q" "q_pending_turn q = Some p" "pt_turn_id p = t"
  shows "MAX_CONVERSATION_MESSAGE_BYTES < str_len out \<Longrightarrow> str_len out \<le> MAX_HISTORY_BYTES \<Longrightarrow>
      \<exists>e. complete_turn q t out = Some (q\<lparr>q_pending_turn := None\<rparr>, Inl e)"
    and "MAX_HISTORY_BYTES < str_len out \<Longrightarrow> complete_turn q t out = Some (q\<lparr>q_pending_turn := None\<rparr>, Inr ())"
  by (auto simp: complete_turn_eq [OF assms] ConversationMessage_new_def Let_def)

end
