(* ===== verification/Voice_Privacy.thy ===== *)
theory Voice_Privacy
  imports Quality_Protocol "HOL-Library.Multiset"
begin

text \<open>
  Privacy modes and the voice session policy, \<^verbatim>\<open>crates/protocol/src/privacy.rs\<close>, and the check the
  runtime makes before a voice session starts, \<^verbatim>\<open>crates/runtime/src/voice_privacy.rs\<close>. The
  validation, which counts descriptors, is shown equivalent to a policy stated with quantifiers.
\<close>

section \<open>Data\<close>

datatype RuntimeProfile = Offline | Online

fun RuntimeProfile_as_str :: "RuntimeProfile \<Rightarrow> string" where
  "RuntimeProfile_as_str Offline = ''offline''"
| "RuntimeProfile_as_str Online = ''online''"

definition RuntimeProfile_parse :: "string \<Rightarrow> RuntimeProfile option" where
  "RuntimeProfile_parse value =
     (if value = ''offline'' then Some Offline
      else if value = ''online'' then Some Online else None)"

datatype PrivacyMode = LocalOnly | Hybrid | Cloud

definition PrivacyMode_parse :: "string \<Rightarrow> PrivacyMode option" where
  "PrivacyMode_parse value =
     (if value = ''local_only'' then Some LocalOnly
      else if value = ''hybrid'' then Some Hybrid
      else if value = ''cloud'' then Some Cloud else None)"

datatype ExecutionLocation = Local | Remote

definition ExecutionLocation_parse :: "string \<Rightarrow> ExecutionLocation option" where
  "ExecutionLocation_parse value =
     (if value = ''local'' then Some Local
      else if value = ''remote'' then Some Remote else None)"

datatype ComponentKind =
    SpeechRecognition | LanguageModel | SpeechSynthesis | AudioIo | Tool | Memory | Telemetry
  | Diarization

record ComponentDescriptor =
  cd_kind :: ComponentKind
  cd_provider :: rstring
  cd_execution :: ExecutionLocation

record VoiceSessionPolicy =
  vp_session_id :: SessionId
  vp_privacy_mode :: PrivacyMode
  vp_speech_start_ms :: u64
  vp_final_silence_ms :: u64
  vp_components :: "ComponentDescriptor list"

record PrivacySummary =
  ps_privacy_mode :: PrivacyMode
  ps_components :: "ComponentDescriptor list"

definition policy_error :: "string \<Rightarrow> RuntimeError" where
  "policy_error m = RuntimeError Kind_Configuration Stage_PrivacyPolicy m"

definition VoiceSessionPolicy_new ::
  "SessionId \<Rightarrow> PrivacyMode \<Rightarrow> u64 \<Rightarrow> u64 \<Rightarrow> ComponentDescriptor list
     \<Rightarrow> VoiceSessionPolicy result" where
  "VoiceSessionPolicy_new session_id mode speech_start_ms final_silence_ms components =
     (if session_id = 0 then Inl (policy_error ''voice session identity must not be zero'')
      else if components = []
      then Inl (policy_error ''voice session policy requires a component'')
      else if \<not> (100 \<le> speech_start_ms \<and> speech_start_ms \<le> 1000)
      then Inl (policy_error ''speech start threshold is outside the supported range'')
      else if \<not> (200 \<le> final_silence_ms \<and> final_silence_ms \<le> 3000)
      then Inl (policy_error ''final silence threshold is outside the supported range'')
      else if list_ex (\<lambda>c. trim (cd_provider c) = []) components
      then Inl (policy_error ''component provider must not be empty'')
      else Inr \<lparr>vp_session_id = session_id, vp_privacy_mode = mode,
                vp_speech_start_ms = speech_start_ms, vp_final_silence_ms = final_silence_ms,
                vp_components = components\<rparr>)"

section \<open>Validation\<close>

definition PRIMARY_KINDS :: "ComponentKind list" where
  "PRIMARY_KINDS = [SpeechRecognition, LanguageModel, SpeechSynthesis]"

definition component_count :: "ComponentDescriptor list \<Rightarrow> ComponentKind \<Rightarrow> nat" where
  "component_count components kind = length (filter (\<lambda>c. cd_kind c = kind) components)"

fun component_kind_order :: "ComponentKind \<Rightarrow> u8" where
  "component_kind_order SpeechRecognition = 0"
| "component_kind_order LanguageModel = 1"
| "component_kind_order SpeechSynthesis = 2"
| "component_kind_order AudioIo = 3"
| "component_kind_order Tool = 4"
| "component_kind_order Memory = 5"
| "component_kind_order Telemetry = 6"
| "component_kind_order Diarization = 7"

text \<open>\<^verbatim>\<open>sort_by_key\<close> is a stable sort, as \<open>sort_key\<close> is.\<close>

definition validate_voice_policy :: "VoiceSessionPolicy \<Rightarrow> PrivacySummary result" where
  "validate_voice_policy policy =
     (let components = vp_components policy;
          primary = filter (\<lambda>c. cd_kind c \<in> set PRIMARY_KINDS) components;
          local_primary_count = length (filter (\<lambda>c. cd_execution c = Local) primary);
          remote_primary_count = length (filter (\<lambda>c. cd_execution c = Remote) primary);
          summary = \<lparr>ps_privacy_mode = vp_privacy_mode policy,
                     ps_components = sort_key (\<lambda>c. component_kind_order (cd_kind c)) components\<rparr>
      in if list_ex (\<lambda>c. trim (cd_provider c) = []) components
         then Inl (policy_error ''voice policy contains an empty provider identifier'')
         else if list_ex (\<lambda>k. component_count components k \<noteq> 1) (PRIMARY_KINDS @ [AudioIo])
         then Inl (policy_error ''voice policy requires exactly one descriptor for each required component kind'')
         else (case vp_privacy_mode policy of
             LocalOnly \<Rightarrow>
               if list_ex (\<lambda>c. cd_execution c \<noteq> Local) components
               then Inl (policy_error ''local-only voice policy requires local execution'')
               else Inr summary
           | Hybrid \<Rightarrow>
               if local_primary_count = 0 \<or> remote_primary_count = 0
               then Inl (policy_error ''hybrid voice policy requires local and remote primary components'')
               else Inr summary
           | Cloud \<Rightarrow>
               if remote_primary_count \<noteq> length PRIMARY_KINDS
               then Inl (policy_error ''cloud voice policy requires remote primary components'')
               else Inr summary))"

section \<open>The policy as a specification\<close>

definition primary :: "ComponentDescriptor \<Rightarrow> bool" where
  "primary c \<longleftrightarrow> cd_kind c \<in> {SpeechRecognition, LanguageModel, SpeechSynthesis}"

definition one_of :: "VoiceSessionPolicy \<Rightarrow> ComponentKind \<Rightarrow> bool" where
  "one_of p k \<longleftrightarrow> size (filter_mset (\<lambda>c. cd_kind c = k) (mset (vp_components p))) = 1"

definition admissible :: "VoiceSessionPolicy \<Rightarrow> bool" where
  "admissible p \<longleftrightarrow>
     (\<forall>c \<in> set (vp_components p). trim (cd_provider c) \<noteq> [])
     \<and> (\<forall>k \<in> {SpeechRecognition, LanguageModel, SpeechSynthesis, AudioIo}. one_of p k)
     \<and> (case vp_privacy_mode p of
          LocalOnly \<Rightarrow> \<forall>c \<in> set (vp_components p). cd_execution c = Local
        | Hybrid \<Rightarrow> (\<exists>c \<in> set (vp_components p). primary c \<and> cd_execution c = Local)
                    \<and> (\<exists>c \<in> set (vp_components p). primary c \<and> cd_execution c = Remote)
        | Cloud \<Rightarrow> \<forall>c \<in> set (vp_components p). primary c \<longrightarrow> cd_execution c = Remote)"

lemma component_count_mset:
  "component_count cs k = size (filter_mset (\<lambda>c. cd_kind c = k) (mset cs))"
  by (simp add: component_count_def flip: mset_filter)

lemma primary_split:
  "length (filter primary cs) = component_count cs SpeechRecognition
     + component_count cs LanguageModel + component_count cs SpeechSynthesis"
  by (induction cs) (auto simp: component_count_def primary_def)

lemma primary_remote_count:
  assumes "length (filter primary cs) = 3"
  shows "length (filter (\<lambda>c. cd_execution c = Remote) (filter primary cs)) = 3 \<longleftrightarrow>
           (\<forall>c \<in> set cs. primary c \<longrightarrow> cd_execution c = Remote)"
proof
  assume "length (filter (\<lambda>c. cd_execution c = Remote) (filter primary cs)) = 3"
  then have "length (filter (\<lambda>c. cd_execution c = Remote) (filter primary cs))
           = length (filter primary cs)" using assms by simp
  then have "\<forall>c \<in> set (filter primary cs). cd_execution c = Remote"
    using length_filter_less [of _ "filter primary cs" "\<lambda>c. cd_execution c = Remote"] by force
  then show "\<forall>c \<in> set cs. primary c \<longrightarrow> cd_execution c = Remote" by simp
next
  assume "\<forall>c \<in> set cs. primary c \<longrightarrow> cd_execution c = Remote"
  then have "filter (\<lambda>c. cd_execution c = Remote) (filter primary cs) = filter primary cs"
    by (intro filter_True) simp
  then show "length (filter (\<lambda>c. cd_execution c = Remote) (filter primary cs)) = 3"
    using assms by simp
qed

section \<open>Properties\<close>

text \<open>
  C34: The validation accepts a policy exactly when it is admissible: no blank provider, one
  descriptor for each of recognition, language, synthesis and audio, and execution locations that
  match the mode. A local-only policy is accepted only if every component is local, tools and
  telemetry included; a cloud one only if all three primary components are remote. The summary
  then lists the policy's own descriptors in the fixed kind order.
\<close>

theorem validate_voice_policy_iff:
  "validate_voice_policy p = Inr s \<longleftrightarrow>
     admissible p \<and> s = \<lparr>ps_privacy_mode = vp_privacy_mode p,
       ps_components = sort_key (\<lambda>c. component_kind_order (cd_kind c)) (vp_components p)\<rparr>"
proof -
  let ?cs = "vp_components p"
  have prim: "filter (\<lambda>c. cd_kind c \<in> set PRIMARY_KINDS) ?cs = filter primary ?cs"
    by (rule filter_cong) (simp_all add: PRIMARY_KINDS_def primary_def)
  have blank: "list_ex (\<lambda>c. trim (cd_provider c) = []) ?cs
             \<longleftrightarrow> \<not> (\<forall>c \<in> set ?cs. trim (cd_provider c) \<noteq> [])"
    by (auto simp: list_ex_iff)
  have kinds: "list_ex (\<lambda>k. component_count ?cs k \<noteq> 1) (PRIMARY_KINDS @ [AudioIo]) \<longleftrightarrow>
      \<not> (\<forall>k \<in> {SpeechRecognition, LanguageModel, SpeechSynthesis, AudioIo}. one_of p k)"
    by (auto simp: PRIMARY_KINDS_def one_of_def component_count_mset)
  have three: "length (filter primary ?cs) = 3"
    if "\<forall>k \<in> {SpeechRecognition, LanguageModel, SpeechSynthesis, AudioIo}. one_of p k"
    using that by (simp add: primary_split component_count_mset one_of_def)
  have some: "length (filter (\<lambda>c. cd_execution c = e) (filter primary ?cs)) = 0 \<longleftrightarrow>
      \<not> (\<exists>c \<in> set ?cs. primary c \<and> cd_execution c = e)" for e
    by (auto simp: filter_empty_conv)
  have len: "length PRIMARY_KINDS = 3" by (simp add: PRIMARY_KINDS_def)
  show ?thesis
  proof (cases "(\<forall>c \<in> set ?cs. trim (cd_provider c) \<noteq> []) \<and>
      (\<forall>k \<in> {SpeechRecognition, LanguageModel, SpeechSynthesis, AudioIo}. one_of p k)")
    case True
    with three have remote: "length (filter (\<lambda>c. cd_execution c = Remote) (filter primary ?cs)) = 3
        \<longleftrightarrow> (\<forall>c \<in> set ?cs. primary c \<longrightarrow> cd_execution c = Remote)"
      by (intro primary_remote_count) blast
    from True show ?thesis
      unfolding validate_voice_policy_def Let_def prim blank kinds some len remote admissible_def
      by (cases "vp_privacy_mode p") (auto simp: list_ex_iff simp del: filter_filter)
  next
    case False
    then show ?thesis
      unfolding validate_voice_policy_def Let_def blank kinds admissible_def by auto
  qed
qed

end
