(* ===== verification/Conversation_Context.thy ===== *)
theory Conversation_Context
  imports Conversation_Quality Voice_Privacy
begin

text \<open>
  The conversation context, \<^verbatim>\<open>crates/runtime/src/conversation_context.rs\<close>, and the generation guard,
  \<^verbatim>\<open>crates/runtime/src/generation.rs\<close>. Each critical section of the Rust code (the scope of one held
  lock) is one definition; the public operations compose them in the order of the code. A second
  group of definitions interleaves the critical sections of any number of concurrent calls, each of
  which may be aborted between two of them, and the invariant is proved for every interleaving.
\<close>

section \<open>State\<close>

datatype ConversationTurnSource = Source_Text | Source_Voice SessionId

record ConversationTurnIdentity =
  ti_turn_id :: TurnId
  ti_generation_id :: GenerationId

record PreparedConversationTurn =
  pr_identity :: ConversationTurnIdentity
  pr_transcript :: rstring
  pr_resolved :: ResolvedConversationQuality

record AppliedContextSeed =
  as_operation_id :: rstring
  as_exchanges :: "ConversationContextExchange list"

record ActiveConversationTurn =
  at_identity :: ConversationTurnIdentity
  at_source :: ConversationTurnSource
  at_finalizing :: bool

record ConversationLifecycle =
  lc_sequence :: u64
  lc_active :: "ActiveConversationTurn option"
  lc_last_seed :: "AppliedContextSeed option"

record 'm ConversationContext =
  cc_lifecycle :: ConversationLifecycle
  cc_quality :: QualityController
  cc_memory :: "'m option"

definition runtime_error :: "string \<Rightarrow> RuntimeError" where
  "runtime_error m = RuntimeError Kind_InvalidState Stage_Runtime m"

definition Context_new :: "QualityController \<Rightarrow> 'm ConversationContext" where
  "Context_new quality =
     \<lparr>cc_lifecycle = \<lparr>lc_sequence = 0, lc_active = None, lc_last_seed = None\<rparr>,
      cc_quality = quality, cc_memory = None\<rparr>"

text \<open>The memory provider is an adapter; only the location it reports is consulted.\<close>

definition with_memory_provider ::
  "('m \<Rightarrow> ExecutionLocation) \<Rightarrow> 'm ConversationContext \<Rightarrow> 'm \<Rightarrow> ExecutionLocation
     \<Rightarrow> 'm ConversationContext result" where
  "with_memory_provider execution_location c provider language_execution =
     (if execution_location provider \<noteq> Local \<or> language_execution \<noteq> Local
      then Inl (RuntimeError Kind_Configuration Stage_Memory
                  ''memory context requires local memory and language execution'')
      else Inr (c\<lparr>cc_memory := Some provider\<rparr>))"

section \<open>Critical sections\<close>

definition apply_persona ::
  "'m ConversationContext \<Rightarrow> PersonaProfile \<Rightarrow> ConversationMode
     \<Rightarrow> 'm ConversationContext \<times> unit result" where
  "apply_persona c persona mode =
     (case set_persona (cc_quality c) persona mode of
        (q, r) \<Rightarrow> (c\<lparr>cc_quality := q\<rparr>, r))"

definition persona_snapshot :: "'m ConversationContext \<Rightarrow> PersonaProfile \<times> ConversationMode" where
  "persona_snapshot c = (q_saved_persona (cc_quality c), q_default_mode (cc_quality c))"

definition active_turn :: "'m ConversationContext \<Rightarrow> ConversationTurnIdentity option" where
  "active_turn c = map_option at_identity (lc_active (cc_lifecycle c))"

definition seed_completed_history ::
  "'m ConversationContext \<Rightarrow> rstring \<Rightarrow> ConversationContextExchange list
     \<Rightarrow> 'm ConversationContext \<times> unit result" where
  "seed_completed_history c operation_id exchanges =
     (let apply_seed =
        (case replace_completed_history (cc_quality c) exchanges of
           (q, Inl e) \<Rightarrow> (c\<lparr>cc_quality := q\<rparr>, Inl e)
         | (q, Inr _) \<Rightarrow>
             (c\<lparr>cc_quality := q,
                cc_lifecycle := (cc_lifecycle c)\<lparr>lc_last_seed :=
                  Some \<lparr>as_operation_id = operation_id, as_exchanges = exchanges\<rparr>\<rparr>\<rparr>, Inr ()))
      in if lc_active (cc_lifecycle c) \<noteq> None
      then (c, Inl (runtime_error ''conversation history cannot be seeded while a turn is active''))
      else if operation_id = [] \<or> str_len operation_id > 64
      then (c, Inl (runtime_error ''context seed operation identifier must contain between 1 and 64 UTF-8 bytes''))
      else (case lc_last_seed (cc_lifecycle c) of
              Some last_seed \<Rightarrow>
                if as_operation_id last_seed = operation_id
                then if as_exchanges last_seed = exchanges then (c, Inr ())
                     else (c, Inl (runtime_error ''context seed operation identifier was reused with different content''))
                else apply_seed
            | None \<Rightarrow> apply_seed))"

definition reserve_turn ::
  "'m ConversationContext \<Rightarrow> ConversationTurnSource
     \<Rightarrow> 'm ConversationContext \<times> ConversationTurnIdentity result" where
  "reserve_turn c source =
     (case lc_active (cc_lifecycle c) of
        Some active \<Rightarrow>
          (c, Inl (runtime_error (''turn '' @ show_word (ti_turn_id (at_identity active)) @
                     '' generation '' @ show_word (ti_generation_id (at_identity active)) @
                     '' is still active'')))
      | None \<Rightarrow>
          (case checked_add (lc_sequence (cc_lifecycle c)) 1 of
             None \<Rightarrow> (c, Inl (runtime_error ''conversation turn sequence overflow''))
           | Some sequence \<Rightarrow>
               let identity = \<lparr>ti_turn_id = sequence, ti_generation_id = sequence\<rparr>
               in (c\<lparr>cc_lifecycle := (cc_lifecycle c)\<lparr>lc_sequence := sequence,
                       lc_active := Some \<lparr>at_identity = identity, at_source = source,
                                          at_finalizing = False\<rparr>\<rparr>\<rparr>,
                   Inr identity)))"

definition release_turn ::
  "'m ConversationContext \<Rightarrow> ConversationTurnIdentity \<Rightarrow> 'm ConversationContext" where
  "release_turn c identity =
     (if active_turn c = Some identity
      then c\<lparr>cc_lifecycle := (cc_lifecycle c)\<lparr>lc_active := None\<rparr>\<rparr> else c)"

definition begin_outcome ::
  "'m ConversationContext \<Rightarrow> ConversationTurnIdentity \<Rightarrow> bool
     \<Rightarrow> 'm ConversationContext \<times> bool result" where
  "begin_outcome c identity reclaim_interrupted =
     (case lc_active (cc_lifecycle c) of
        Some active \<Rightarrow>
          if at_identity active = identity \<and> \<not> at_finalizing active
          then (c\<lparr>cc_lifecycle := (cc_lifecycle c)\<lparr>
                    lc_active := Some (active\<lparr>at_finalizing := True\<rparr>)\<rparr>\<rparr>, Inr False)
          else if at_identity active = identity \<and> reclaim_interrupted then (c, Inr True)
          else if at_identity active = identity
          then (c, Inl (runtime_error ''conversation turn outcome is already being finalized''))
          else (c, Inl (runtime_error (''turn '' @ show_word (ti_turn_id (at_identity active)) @
                  '' generation '' @ show_word (ti_generation_id (at_identity active)) @
                  '' is active, not turn '' @ show_word (ti_turn_id identity) @
                  '' generation '' @ show_word (ti_generation_id identity))))
      | None \<Rightarrow> (c, Inl (runtime_error ''there is no active conversation turn'')))"

definition finish_outcome ::
  "'m ConversationContext \<Rightarrow> ConversationTurnIdentity \<Rightarrow> unit result
     \<Rightarrow> 'm ConversationContext \<times> unit result" where
  "finish_outcome c identity res =
     (let cleared = c\<lparr>cc_lifecycle := (cc_lifecycle c)\<lparr>lc_active := None\<rparr>\<rparr>
      in case res of
        Inr _ \<Rightarrow>
          (case lc_active (cc_lifecycle c) of
             Some active \<Rightarrow>
               if at_identity active = identity \<and> at_finalizing active then (cleared, Inr ())
               else (c, Inl (runtime_error ''conversation turn ownership changed during finalization''))
           | None \<Rightarrow>
               (c, Inl (runtime_error ''conversation turn ownership changed during finalization'')))
      | Inl error \<Rightarrow>
          (if active_turn c = Some identity then cleared else c, Inl error))"

text \<open>The locked sections of the quality controller in \<open>begin_turn\<close>, \<open>complete_turn\<close> and \<open>discard_turn\<close>.\<close>

definition resolve_section ::
  "Unicode \<Rightarrow> 'm ConversationContext \<Rightarrow> ConversationTurnIdentity \<Rightarrow> rstring
     \<Rightarrow> 'm ConversationContext \<times> ResolvedConversationQuality option result" where
  "resolve_section u c identity transcript =
     (case resolve_turn u (cc_quality c) (ti_turn_id identity) transcript None of
        (q, r) \<Rightarrow> (c\<lparr>cc_quality := q\<rparr>, r))"

definition complete_section ::
  "'m ConversationContext \<Rightarrow> ConversationTurnIdentity \<Rightarrow> rstring
     \<Rightarrow> ('m ConversationContext \<times> unit result) option" where
  "complete_section c identity assistant =
     map_option (\<lambda>(q, r). (c\<lparr>cc_quality := q\<rparr>, r))
       (complete_turn (cc_quality c) (ti_turn_id identity) assistant)"

definition discard_section ::
  "'m ConversationContext \<Rightarrow> ConversationTurnIdentity \<Rightarrow> bool \<Rightarrow> bool
     \<Rightarrow> 'm ConversationContext \<times> unit result" where
  "discard_section c identity interrupted reclaimed =
     (case (if interrupted then interrupt_turn (cc_quality c) (ti_turn_id identity)
            else discard_turn (cc_quality c) (ti_turn_id identity)) of
        (q, r) \<Rightarrow> (c\<lparr>cc_quality := q\<rparr>, if reclaimed then Inr () else r))"

section \<open>The operations, uninterrupted\<close>

definition begin_turn ::
  "Unicode \<Rightarrow> 'm ConversationContext \<Rightarrow> ConversationTurnSource \<Rightarrow> rstring
     \<Rightarrow> 'm ConversationContext \<times> PreparedConversationTurn result" where
  "begin_turn u c source transcript =
     (case reserve_turn c source of
        (c1, Inl e) \<Rightarrow> (c1, Inl e)
      | (c1, Inr identity) \<Rightarrow>
          (case resolve_section u c1 identity transcript of
             (c2, Inr (Some resolved)) \<Rightarrow>
               (c2, Inr \<lparr>pr_identity = identity, pr_transcript = transcript,
                         pr_resolved = resolved\<rparr>)
           | (c2, Inr None) \<Rightarrow>
               (release_turn c2 identity,
                Inl (runtime_error ''a conversation turn transcript cannot be empty''))
           | (c2, Inl error) \<Rightarrow> (release_turn c2 identity, Inl error)))"

definition context_complete_turn ::
  "'m ConversationContext \<Rightarrow> ConversationTurnIdentity \<Rightarrow> rstring
     \<Rightarrow> ('m ConversationContext \<times> unit result) option" where
  "context_complete_turn c identity assistant =
     (case begin_outcome c identity False of
        (c1, Inl e) \<Rightarrow> Some (c1, Inl e)
      | (c1, Inr _) \<Rightarrow>
          (case complete_section c1 identity assistant of
             None \<Rightarrow> None
           | Some (c2, res) \<Rightarrow> Some (finish_outcome c2 identity res)))"

definition context_discard_turn ::
  "'m ConversationContext \<Rightarrow> ConversationTurnIdentity \<Rightarrow> bool
     \<Rightarrow> 'm ConversationContext \<times> unit result" where
  "context_discard_turn c identity interrupted =
     (case begin_outcome c identity True of
        (c1, Inl e) \<Rightarrow> (c1, Inl e)
      | (c1, Inr reclaimed) \<Rightarrow>
          (case discard_section c1 identity interrupted reclaimed of
             (c2, res) \<Rightarrow> finish_outcome c2 identity res))"

section \<open>The operations, interleaved\<close>

text \<open>A call in progress is the critical section it runs next, with what it has computed so far.\<close>

datatype context_task =
    Begin_Reserve ConversationTurnSource rstring
  | Begin_Resolve ConversationTurnIdentity rstring
  | Begin_Release ConversationTurnIdentity RuntimeError
  | Complete_Begin ConversationTurnIdentity rstring
  | Complete_Quality ConversationTurnIdentity rstring
  | Discard_Begin ConversationTurnIdentity bool
  | Discard_Quality ConversationTurnIdentity bool bool
  | Finish ConversationTurnIdentity "unit result"
  | Apply_Persona PersonaProfile ConversationMode
  | Seed_History rstring "ConversationContextExchange list"

datatype task_result =
    Continue context_task
  | Prepared ConversationTurnIdentity
  | Returned "unit result"

text \<open>One critical section of a call; \<open>None\<close> is a panic.\<close>

fun task_step ::
  "Unicode \<Rightarrow> 'm ConversationContext \<Rightarrow> context_task
     \<Rightarrow> ('m ConversationContext \<times> task_result) option" where
  "task_step u c (Begin_Reserve source transcript) =
     (case reserve_turn c source of
        (c1, Inl e) \<Rightarrow> Some (c1, Returned (Inl e))
      | (c1, Inr identity) \<Rightarrow> Some (c1, Continue (Begin_Resolve identity transcript)))"
| "task_step u c (Begin_Resolve identity transcript) =
     (case resolve_section u c identity transcript of
        (c1, Inr (Some resolved)) \<Rightarrow> Some (c1, Prepared identity)
      | (c1, Inr None) \<Rightarrow>
          Some (c1, Continue (Begin_Release identity
                  (runtime_error ''a conversation turn transcript cannot be empty'')))
      | (c1, Inl e) \<Rightarrow> Some (c1, Continue (Begin_Release identity e)))"
| "task_step u c (Begin_Release identity e) = Some (release_turn c identity, Returned (Inl e))"
| "task_step u c (Complete_Begin identity assistant) =
     (case begin_outcome c identity False of
        (c1, Inl e) \<Rightarrow> Some (c1, Returned (Inl e))
      | (c1, Inr _) \<Rightarrow> Some (c1, Continue (Complete_Quality identity assistant)))"
| "task_step u c (Complete_Quality identity assistant) =
     (case complete_section c identity assistant of
        None \<Rightarrow> None
      | Some (c1, res) \<Rightarrow> Some (c1, Continue (Finish identity res)))"
| "task_step u c (Discard_Begin identity interrupted) =
     (case begin_outcome c identity True of
        (c1, Inl e) \<Rightarrow> Some (c1, Returned (Inl e))
      | (c1, Inr reclaimed) \<Rightarrow> Some (c1, Continue (Discard_Quality identity interrupted reclaimed)))"
| "task_step u c (Discard_Quality identity interrupted reclaimed) =
     (case discard_section c identity interrupted reclaimed of
        (c1, res) \<Rightarrow> Some (c1, Continue (Finish identity res)))"
| "task_step u c (Finish identity res) =
     (case finish_outcome c identity res of (c1, r) \<Rightarrow> Some (c1, Returned r))"
| "task_step u c (Apply_Persona p m) =
     (case apply_persona c p m of (c1, r) \<Rightarrow> Some (c1, Returned r))"
| "task_step u c (Seed_History i xs) =
     (case seed_completed_history c i xs of (c1, r) \<Rightarrow> Some (c1, Returned r))"

record 'm context_system =
  sy_context :: "'m ConversationContext"
  sy_tasks :: "context_task multiset"
  sy_prepared :: "ConversationTurnIdentity set"

text \<open>
  Calls start and are aborted at any time. \<open>complete_turn\<close> and \<open>discard_turn\<close> are called with
  identities that \<open>begin_turn\<close> returned, any number of times and concurrently.
\<close>

fun may_start :: "ConversationTurnIdentity set \<Rightarrow> context_task \<Rightarrow> bool" where
  "may_start prepared (Begin_Reserve s t) = True"
| "may_start prepared (Complete_Begin i a) = (i \<in> prepared)"
| "may_start prepared (Discard_Begin i b) = (i \<in> prepared)"
| "may_start prepared (Apply_Persona p m) = True"
| "may_start prepared (Seed_History i xs) = True"
| "may_start prepared _ = False"

inductive context_step ::
  "Unicode \<Rightarrow> 'm context_system \<Rightarrow> 'm context_system \<Rightarrow> bool" for u where
  start: "may_start (sy_prepared s) t \<Longrightarrow>
     context_step u s (s\<lparr>sy_tasks := add_mset t (sy_tasks s)\<rparr>)"
| continue: "t \<in># sy_tasks s \<Longrightarrow> task_step u (sy_context s) t = Some (c, Continue t') \<Longrightarrow>
     context_step u s (s\<lparr>sy_context := c, sy_tasks := add_mset t' (sy_tasks s - {#t#})\<rparr>)"
| prepared: "t \<in># sy_tasks s \<Longrightarrow> task_step u (sy_context s) t = Some (c, Prepared i) \<Longrightarrow>
     context_step u s (s\<lparr>sy_context := c, sy_tasks := sy_tasks s - {#t#},
                         sy_prepared := insert i (sy_prepared s)\<rparr>)"
| returned: "t \<in># sy_tasks s \<Longrightarrow> task_step u (sy_context s) t = Some (c, Returned r) \<Longrightarrow>
     context_step u s (s\<lparr>sy_context := c, sy_tasks := sy_tasks s - {#t#}\<rparr>)"
| abort: "t \<in># sy_tasks s \<Longrightarrow>
     context_step u s (s\<lparr>sy_tasks := sy_tasks s - {#t#}\<rparr>)"

inductive context_reachable ::
  "Unicode \<Rightarrow> QualityController \<Rightarrow> 'm context_system \<Rightarrow> bool" for u q where
  init: "context_reachable u q \<lparr>sy_context = Context_new q, sy_tasks = {#}, sy_prepared = {}\<rparr>"
| step: "context_reachable u q s \<Longrightarrow> context_step u s s' \<Longrightarrow> context_reachable u q s'"

section \<open>Generation guard\<close>

record GenerationIdentity =
  gi_turn_id :: TurnId
  gi_generation_id :: GenerationId

type_synonym GenerationGuard = "GenerationIdentity option"

definition activate ::
  "GenerationGuard \<Rightarrow> TurnId \<Rightarrow> GenerationId \<Rightarrow> GenerationGuard \<times> bool" where
  "activate active turn_id generation_id =
     (if active \<noteq> None then (active, False)
      else (Some \<lparr>gi_turn_id = turn_id, gi_generation_id = generation_id\<rparr>, True))"

text \<open>A permit holds the lock; whether one is granted is the value.\<close>

definition permit :: "GenerationGuard \<Rightarrow> TurnId \<Rightarrow> GenerationId \<Rightarrow> bool" where
  "permit active turn_id generation_id =
     (active = Some \<lparr>gi_turn_id = turn_id, gi_generation_id = generation_id\<rparr>)"

definition deactivate :: "GenerationGuard \<Rightarrow> TurnId \<Rightarrow> GenerationId \<Rightarrow> GenerationGuard" where
  "deactivate active turn_id generation_id =
     (if active = Some \<lparr>gi_turn_id = turn_id, gi_generation_id = generation_id\<rparr> then None
      else active)"

section \<open>The invariant of the interleavings\<close>

definition identity_ok :: "'m ConversationContext \<Rightarrow> ConversationTurnIdentity \<Rightarrow> bool" where
  "identity_ok c i \<longleftrightarrow>
     ti_generation_id i = ti_turn_id i \<and> ti_turn_id i \<le> lc_sequence (cc_lifecycle c)"

text \<open>Calls of \<open>begin_turn\<close> that have reserved a turn and not yet returned.\<close>

fun beginning :: "context_task \<Rightarrow> bool" where
  "beginning (Begin_Resolve i x) = True"
| "beginning (Begin_Release i e) = True"
| "beginning _ = False"

fun task_ok ::
  "'m ConversationContext \<Rightarrow> ConversationTurnIdentity set \<Rightarrow> context_task \<Rightarrow> bool" where
  "task_ok c P (Begin_Resolve i x) = (active_turn c = Some i \<and> i \<notin> P)"
| "task_ok c P (Begin_Release i e) = (active_turn c = Some i \<and> i \<notin> P)"
| "task_ok c P (Complete_Begin i a) = (i \<in> P)"
| "task_ok c P (Complete_Quality i a) = (i \<in> P)"
| "task_ok c P (Discard_Begin i b) = (i \<in> P)"
| "task_ok c P (Discard_Quality i b r) = (i \<in> P)"
| "task_ok c P (Finish i r) = (i \<in> P \<and> quality_open (cc_quality c) \<noteq> Some (ti_turn_id i))"
| "task_ok c P _ = True"

definition context_ok :: "'m ConversationContext \<Rightarrow> ConversationTurnIdentity set \<Rightarrow> bool" where
  "context_ok c P \<longleftrightarrow> quality_ok (cc_quality c)
     \<and> (\<forall>i. active_turn c = Some i \<longrightarrow> identity_ok c i) \<and> (\<forall>i \<in> P. identity_ok c i)
     \<and> (\<forall>p. quality_open (cc_quality c) = Some p \<longrightarrow>
          (\<exists>i \<in> P. active_turn c = Some i \<and> ti_turn_id i = p))"

definition system_ok :: "'m context_system \<Rightarrow> bool" where
  "system_ok s \<longleftrightarrow> context_ok (sy_context s) (sy_prepared s)
     \<and> (\<forall>t \<in># sy_tasks s. task_ok (sy_context s) (sy_prepared s) t)
     \<and> size (filter_mset beginning (sy_tasks s)) \<le> 1"

text \<open>What each critical section does to the active turn, the sequence and the pending turn.\<close>

lemma reserve_turn_spec:
  "(\<exists>e. reserve_turn c src = (c, Inl e)) \<or>
   (\<exists>c' i. reserve_turn c src = (c', Inr i) \<and> active_turn c = None \<and> active_turn c' = Some i
      \<and> cc_quality c' = cc_quality c \<and> ti_generation_id i = ti_turn_id i
      \<and> lc_sequence (cc_lifecycle c') = ti_turn_id i
      \<and> lc_sequence (cc_lifecycle c) < ti_turn_id i
      \<and> ti_turn_id i = lc_sequence (cc_lifecycle c) + 1)"
proof (cases "lc_active (cc_lifecycle c)")
  case None
  show ?thesis
  proof (cases "checked_add (lc_sequence (cc_lifecycle c)) 1")
    case (Some n)
    have "lc_sequence (cc_lifecycle c) < n" and "n = lc_sequence (cc_lifecycle c) + 1"
      using Some unat_checked_add [OF Some]
      by (simp_all add: word_less_nat_alt checked_add_def split: if_splits)
    then show ?thesis
      using None Some by (simp add: reserve_turn_def active_turn_def Let_def)
  qed (use None in \<open>simp add: reserve_turn_def\<close>)
qed (simp add: reserve_turn_def)

lemma resolve_section_spec:
  assumes "quality_ok (cc_quality c)" "resolve_section u c i x = (c', r)"
  shows "quality_ok (cc_quality c') \<and> active_turn c' = active_turn c
    \<and> lc_sequence (cc_lifecycle c') = lc_sequence (cc_lifecycle c)
    \<and> (case r of Inr (Some y) \<Rightarrow> quality_open (cc_quality c) = None
                                \<and> quality_open (cc_quality c') = Some (ti_turn_id i)
       | _ \<Rightarrow> quality_open (cc_quality c') = quality_open (cc_quality c))"
proof -
  obtain q where q: "resolve_turn u (cc_quality c) (ti_turn_id i) x None = (q, r)"
    and c': "c' = c\<lparr>cc_quality := q\<rparr>"
    using assms(2) by (auto simp: resolve_section_def split: prod.splits)
  have "quality_resolve u (cc_quality c) (ti_turn_id i) (Transcript x None) =
          (q, case r of Inr (Some y) \<Rightarrow> True | _ \<Rightarrow> False)"
    using q by (simp split: sum.splits option.splits)
  then show ?thesis
    using quality_resolve_step [OF assms(1), of u "ti_turn_id i" "Transcript x None"] c'
    by (auto simp: active_turn_def split: sum.splits option.splits)
qed

lemma complete_section_spec:
  assumes "quality_ok (cc_quality c)"
  shows "\<exists>c' r. complete_section c i a = Some (c', r) \<and> quality_ok (cc_quality c')
    \<and> active_turn c' = active_turn c
    \<and> lc_sequence (cc_lifecycle c') = lc_sequence (cc_lifecycle c)
    \<and> quality_open (cc_quality c') =
        (if quality_open (cc_quality c) = Some (ti_turn_id i) then None
         else quality_open (cc_quality c))"
proof -
  obtain q r where q: "complete_turn (cc_quality c) (ti_turn_id i) a = Some (q, r)" "quality_ok q"
    using quality_ok_complete [OF assms, of "ti_turn_id i" a] by blast
  then have "fst (quality_settle (cc_quality c) (ti_turn_id i) (Completed a)) = q" by simp
  then have "quality_open q = (if quality_open (cc_quality c) = Some (ti_turn_id i) then None
         else quality_open (cc_quality c))"
    using quality_settle_closes [OF assms, of "ti_turn_id i" "Completed a"]
      quality_settle_other [of "cc_quality c" "ti_turn_id i" "Completed a"] by auto
  then show ?thesis using q by (simp add: complete_section_def active_turn_def)
qed

lemma discard_section_spec:
  assumes "quality_ok (cc_quality c)" "discard_section c i b rec = (c', r)"
  shows "quality_ok (cc_quality c') \<and> active_turn c' = active_turn c
    \<and> lc_sequence (cc_lifecycle c') = lc_sequence (cc_lifecycle c)
    \<and> quality_open (cc_quality c') =
        (if quality_open (cc_quality c) = Some (ti_turn_id i) then None
         else quality_open (cc_quality c))"
proof -
  let ?how = "if b then Interruption else Discarded"
  have c': "c' = c\<lparr>cc_quality := fst (quality_settle (cc_quality c) (ti_turn_id i) ?how)\<rparr>"
    using assms(2) by (auto simp: discard_section_def split: prod.splits if_splits)
  show ?thesis
    using quality_ok_settle [OF assms(1)] quality_settle_closes [OF assms(1), of "ti_turn_id i" ?how]
      quality_settle_other [of "cc_quality c" "ti_turn_id i" ?how]
    by (simp add: c' active_turn_def del: quality_settle.simps)
qed

lemma begin_outcome_spec:
  assumes "begin_outcome c i b = (c', r)"
  shows "cc_quality c' = cc_quality c \<and> active_turn c' = active_turn c
    \<and> lc_sequence (cc_lifecycle c') = lc_sequence (cc_lifecycle c)"
  using assms by (auto simp: begin_outcome_def active_turn_def split: option.splits if_splits)

lemma finish_outcome_spec:
  assumes "finish_outcome c i res = (c', r)"
  shows "cc_quality c' = cc_quality c
    \<and> lc_sequence (cc_lifecycle c') = lc_sequence (cc_lifecycle c)
    \<and> (active_turn c' = active_turn c \<or> active_turn c = Some i \<and> active_turn c' = None)"
  using assms
  by (auto simp: finish_outcome_def active_turn_def Let_def split: sum.splits option.splits if_splits)

lemma release_turn_spec:
  "cc_quality (release_turn c i) = cc_quality c
    \<and> lc_sequence (cc_lifecycle (release_turn c i)) = lc_sequence (cc_lifecycle c)
    \<and> active_turn (release_turn c i) =
        (if active_turn c = Some i then None else active_turn c)"
  by (auto simp: release_turn_def active_turn_def)

lemma apply_persona_spec:
  assumes "quality_ok (cc_quality c)" "apply_persona c p m = (c', r)"
  shows "quality_ok (cc_quality c') \<and> quality_open (cc_quality c') = quality_open (cc_quality c)
    \<and> cc_lifecycle c' = cc_lifecycle c \<and> active_turn c' = active_turn c"
proof -
  have "quality_ok (fst (set_persona (cc_quality c) p m))"
    by (rule quality_ok_set_persona [OF assms(1)])
  moreover have "quality_open (fst (set_persona (cc_quality c) p m)) = quality_open (cc_quality c)"
    by (simp add: set_persona_def ResponseControls_new_def Let_def quality_open_def clear_history_def)
  ultimately show ?thesis
    using assms(2) by (auto simp: apply_persona_def active_turn_def split: prod.splits)
qed

lemma seed_completed_history_spec:
  assumes "quality_ok (cc_quality c)" "seed_completed_history c op xs = (c', r)"
  shows "quality_ok (cc_quality c') \<and> quality_open (cc_quality c') = quality_open (cc_quality c)
    \<and> lc_sequence (cc_lifecycle c') = lc_sequence (cc_lifecycle c)
    \<and> active_turn c' = active_turn c"
proof -
  obtain q res where q: "replace_completed_history (cc_quality c) xs = (q, res)" by force
  then have "quality_ok q" using quality_ok_replace [OF assms(1), of xs] by simp
  moreover have "quality_open q = quality_open (cc_quality c)"
    using q by (auto simp: replace_completed_history_def quality_open_def
        split: if_splits sum.splits)
  ultimately show ?thesis
    using assms q
    by (auto simp: seed_completed_history_def active_turn_def Let_def
        split: if_splits option.splits sum.splits)
qed

section \<open>Every interleaving keeps the invariant\<close>

lemma no_beginning_size:
  "size (filter_mset beginning M) = 0 \<longleftrightarrow> (\<forall>t' \<in># M. \<not> beginning t')"
  by auto

lemma task_ok_frame:
  assumes "task_ok c P t" "P \<subseteq> P'"
    and "beginning t \<Longrightarrow> active_turn c' = active_turn c
           \<and> (\<forall>i. active_turn c = Some i \<and> i \<notin> P \<longrightarrow> i \<notin> P')"
    and "\<And>i. i \<in> P \<Longrightarrow> quality_open (cc_quality c') = Some (ti_turn_id i) \<Longrightarrow>
           quality_open (cc_quality c) = Some (ti_turn_id i)"
  shows "task_ok c' P' t"
  using assms by (cases t) auto

lemma system_ok_update:
  assumes ok: "system_ok s" and M: "sy_tasks s = add_mset t M"
    and c': "context_ok c' P'" and new: "\<forall>t' \<in># T'. task_ok c' P' t'"
    and frame: "\<And>t'. t' \<in># M \<Longrightarrow> task_ok (sy_context s) (sy_prepared s) t' \<Longrightarrow> task_ok c' P' t'"
    and count: "size (filter_mset beginning T') = 0
                \<or> size T' \<le> 1 \<and> size (filter_mset beginning M) = 0"
  shows "system_ok (s\<lparr>sy_context := c', sy_tasks := T' + M, sy_prepared := P'\<rparr>)"
proof -
  have "size (filter_mset beginning M) \<le> size (filter_mset beginning (sy_tasks s))"
    unfolding M by (intro size_mset_mono multiset_filter_mono) simp
  with ok have "size (filter_mset beginning M) \<le> 1" unfolding system_ok_def by linarith
  moreover have "size (filter_mset beginning T') \<le> size T'"
    by (rule size_filter_mset_lesseq)
  ultimately have "size (filter_mset beginning (T' + M)) \<le> 1"
    unfolding filter_union_mset size_union using count by linarith
  moreover have "task_ok c' P' t'" if "t' \<in># T' + M" for t'
    using that new frame ok M by (auto simp: system_ok_def)
  ultimately show ?thesis using c' by (simp add: system_ok_def)
qed

lemma identity_eqI:
  "identity_ok c i \<Longrightarrow> identity_ok d j \<Longrightarrow> ti_turn_id i = ti_turn_id j \<Longrightarrow> i = j"
  by (cases i; cases j) (simp add: identity_ok_def)

text \<open>
  A critical section that changes neither the active turn nor the prepared identities and opens no
  turn keeps the invariant of everything else.
\<close>

lemma system_ok_quiet:
  assumes ok: "system_ok s" and M: "sy_tasks s = add_mset t M"
    and quality: "quality_ok (cc_quality c')"
    and active: "active_turn c' = active_turn (sy_context s)"
    and sequence: "lc_sequence (cc_lifecycle c') = lc_sequence (cc_lifecycle (sy_context s))"
    and opened: "quality_open (cc_quality c') = None
              \<or> quality_open (cc_quality c') = quality_open (cc_quality (sy_context s))"
    and new: "\<forall>t' \<in># T'. task_ok c' (sy_prepared s) t'"
    and count: "size (filter_mset beginning T') = 0
                \<or> size T' \<le> 1 \<and> size (filter_mset beginning M) = 0"
  shows "system_ok (s\<lparr>sy_context := c', sy_tasks := T' + M\<rparr>)"
proof -
  have "context_ok (sy_context s) (sy_prepared s)" using ok by (simp add: system_ok_def)
  then have "context_ok c' (sy_prepared s)"
    using quality active sequence opened by (auto simp: context_ok_def identity_ok_def)
  moreover have "task_ok c' (sy_prepared s) t'"
    if "task_ok (sy_context s) (sy_prepared s) t'" for t'
    using that by (rule task_ok_frame) (use active opened in auto)
  ultimately have "system_ok (s\<lparr>sy_context := c', sy_tasks := T' + M, sy_prepared := sy_prepared s\<rparr>)"
    using ok M new count by (intro system_ok_update) auto
  then show ?thesis by simp
qed

lemma system_ok_begin_resolve:
  assumes ok: "system_ok s" and M: "sy_tasks s = add_mset (Begin_Resolve i x) M"
    and r: "resolve_section u (sy_context s) i x = (c', r)"
  shows "case r of
      Inr (Some y) \<Rightarrow> system_ok (s\<lparr>sy_context := c', sy_tasks := M,
                                   sy_prepared := insert i (sy_prepared s)\<rparr>)
    | _ \<Rightarrow> system_ok (s\<lparr>sy_context := c', sy_tasks := add_mset (Begin_Release i e) M\<rparr>)"
proof -
  let ?c = "sy_context s" and ?P = "sy_prepared s"
  have ctx: "context_ok ?c ?P" and act: "active_turn ?c = Some i" "i \<notin> ?P"
    and none: "size (filter_mset beginning M) = 0"
    using ok M by (auto simp: system_ok_def)
  note spec = resolve_section_spec [OF _ r]
  have qok: "quality_ok (cc_quality ?c)" using ctx by (simp add: context_ok_def)
  have closed: "quality_open (cc_quality ?c) = None"
    using ctx act by (cases "quality_open (cc_quality ?c)") (auto simp: context_ok_def)
  show ?thesis
  proof (cases "\<exists>y. r = Inr (Some y)")
    case True
    then obtain y where y: "r = Inr (Some y)" by blast
    have now: "quality_open (cc_quality c') = Some (ti_turn_id i)" "active_turn c' = Some i"
      "quality_ok (cc_quality c')"
      "lc_sequence (cc_lifecycle c') = lc_sequence (cc_lifecycle ?c)"
      using spec [OF qok] y act by auto
    have ids: "\<forall>j \<in> insert i ?P. identity_ok ?c j" using ctx act by (auto simp: context_ok_def)
    then have "context_ok c' (insert i ?P)"
      using now by (auto simp: context_ok_def identity_ok_def)
    moreover have "task_ok c' (insert i ?P) t'" if "t' \<in># M" "task_ok ?c ?P t'" for t'
      using that(2)
    proof (rule task_ok_frame)
      show "?P \<subseteq> insert i ?P" by blast
      show "active_turn c' = active_turn ?c \<and>
          (\<forall>j. active_turn ?c = Some j \<and> j \<notin> ?P \<longrightarrow> j \<notin> insert i ?P)" if "beginning t'"
        using that \<open>t' \<in># M\<close> none no_beginning_size by blast
      show "quality_open (cc_quality ?c) = Some (ti_turn_id j)"
        if "j \<in> ?P" "quality_open (cc_quality c') = Some (ti_turn_id j)" for j
        using that now(1) ids act(2) identity_eqI [of ?c i ?c j] by auto
    qed
    ultimately have "system_ok (s\<lparr>sy_context := c', sy_tasks := {#} + M,
        sy_prepared := insert i ?P\<rparr>)"
      using ok M by (intro system_ok_update) auto
    then show ?thesis using y by simp
  next
    case False
    then have now: "quality_open (cc_quality c') = None" "active_turn c' = Some i"
      "quality_ok (cc_quality c')"
      "lc_sequence (cc_lifecycle c') = lc_sequence (cc_lifecycle ?c)"
      using spec [OF qok] closed act by (auto split: sum.splits option.splits)
    have "system_ok (s\<lparr>sy_context := c', sy_tasks := {#Begin_Release i e#} + M\<rparr>)"
      using ok M none now act by (intro system_ok_quiet) auto
    then show ?thesis using False by (auto split: sum.splits option.splits)
  qed
qed

lemma system_ok_finish:
  assumes ok: "system_ok s" and M: "sy_tasks s = add_mset (Finish i res) M"
    and r: "finish_outcome (sy_context s) i res = (c', r)"
  shows "system_ok (s\<lparr>sy_context := c', sy_tasks := M\<rparr>)"
proof -
  let ?c = "sy_context s" and ?P = "sy_prepared s"
  have ctx: "context_ok ?c ?P" and i: "i \<in> ?P" "quality_open (cc_quality ?c) \<noteq> Some (ti_turn_id i)"
    using ok M by (auto simp: system_ok_def)
  note spec = finish_outcome_spec [OF r]
  have "context_ok c' ?P" using ctx spec i by (auto simp: context_ok_def identity_ok_def)
  moreover have "task_ok c' ?P t'" if "t' \<in># M" "task_ok ?c ?P t'" for t'
    using that(2)
  proof (rule task_ok_frame)
    show "active_turn c' = active_turn ?c \<and>
        (\<forall>j. active_turn ?c = Some j \<and> j \<notin> ?P \<longrightarrow> j \<notin> ?P)" if "beginning t'"
      using that \<open>task_ok ?c ?P t'\<close> spec i(1) by (cases t') auto
  qed (use spec in auto)
  ultimately have "system_ok (s\<lparr>sy_context := c', sy_tasks := {#} + M, sy_prepared := ?P\<rparr>)"
    using ok M by (intro system_ok_update) auto
  then show ?thesis by simp
qed

lemma system_ok_reserve:
  assumes ok: "system_ok s" and M: "sy_tasks s = add_mset (Begin_Reserve src x) M"
    and r: "reserve_turn (sy_context s) src = (c', Inr i)"
  shows "system_ok (s\<lparr>sy_context := c', sy_tasks := add_mset (Begin_Resolve i x) M\<rparr>)"
proof -
  let ?c = "sy_context s" and ?P = "sy_prepared s"
  have ctx: "context_ok ?c ?P" using ok by (simp add: system_ok_def)
  have spec: "active_turn ?c = None" "active_turn c' = Some i" "cc_quality c' = cc_quality ?c"
    "ti_generation_id i = ti_turn_id i" "lc_sequence (cc_lifecycle c') = ti_turn_id i"
    "lc_sequence (cc_lifecycle ?c) < ti_turn_id i"
    using reserve_turn_spec [of ?c src] r by auto
  have idle: "\<not> beginning t'" if "t' \<in># M" for t'
    using ok M that spec(1) by (cases t') (auto simp: system_ok_def)
  then have none: "size (filter_mset beginning M) = 0" using no_beginning_size by blast
  have closed: "quality_open (cc_quality ?c) = None"
    using ctx spec(1) by (cases "quality_open (cc_quality ?c)") (auto simp: context_ok_def)
  have "i \<notin> ?P" using ctx spec(6) by (auto simp: context_ok_def identity_ok_def)
  have "context_ok c' ?P"
    using ctx spec closed by (auto simp: context_ok_def identity_ok_def)
  moreover have "task_ok c' ?P t'" if "t' \<in># M" "task_ok ?c ?P t'" for t'
    using that(2) by (rule task_ok_frame) (use idle [OF that(1)] spec(3) in auto)
  ultimately have "system_ok (s\<lparr>sy_context := c', sy_tasks := {#Begin_Resolve i x#} + M,
      sy_prepared := ?P\<rparr>)"
    using ok M none spec(2) \<open>i \<notin> ?P\<close> by (intro system_ok_update) auto
  then show ?thesis by simp
qed

lemma system_ok_release:
  assumes ok: "system_ok s" and M: "sy_tasks s = add_mset (Begin_Release i e) M"
  shows "system_ok (s\<lparr>sy_context := release_turn (sy_context s) i, sy_tasks := M\<rparr>)"
proof -
  let ?c = "sy_context s" and ?P = "sy_prepared s" and ?c' = "release_turn (sy_context s) i"
  have ctx: "context_ok ?c ?P" and act: "active_turn ?c = Some i" "i \<notin> ?P"
    and none: "size (filter_mset beginning M) = 0"
    using ok M by (auto simp: system_ok_def)
  note spec = release_turn_spec [of ?c i]
  have "context_ok ?c' ?P"
    using ctx act spec by (auto simp: context_ok_def identity_ok_def)
  moreover have "task_ok ?c' ?P t'" if "t' \<in># M" "task_ok ?c ?P t'" for t'
    using that(2)
    by (rule task_ok_frame) (use none that(1) no_beginning_size spec in auto)
  ultimately have "system_ok (s\<lparr>sy_context := ?c', sy_tasks := {#} + M, sy_prepared := ?P\<rparr>)"
    using ok M by (intro system_ok_update) auto
  then show ?thesis by simp
qed

text \<open>One critical section of any call in progress: it never panics and keeps the invariant.\<close>

fun after_step :: "'m context_system \<Rightarrow> 'm ConversationContext \<Rightarrow> context_task multiset \<Rightarrow> task_result
    \<Rightarrow> 'm context_system" where
  "after_step s c M (Continue t) = s\<lparr>sy_context := c, sy_tasks := add_mset t M\<rparr>"
| "after_step s c M (Prepared i) = s\<lparr>sy_context := c, sy_tasks := M,
     sy_prepared := insert i (sy_prepared s)\<rparr>"
| "after_step s c M (Returned r) = s\<lparr>sy_context := c, sy_tasks := M\<rparr>"

lemma system_ok_task:
  assumes ok: "system_ok s" and M: "sy_tasks s = add_mset t M"
  shows "\<exists>c' r. task_step u (sy_context s) t = Some (c', r) \<and> system_ok (after_step s c' M r)"
proof -
  have qok: "quality_ok (cc_quality (sy_context s))"
    using ok by (simp add: system_ok_def context_ok_def)
  note quiet = system_ok_quiet [OF ok M]
  have task: "task_ok (sy_context s) (sy_prepared s) t" using ok M by (simp add: system_ok_def)
  show ?thesis
  proof (cases t)
    case (Begin_Reserve src x)
    with ok M reserve_turn_spec [of "sy_context s" src] quiet [of "sy_context s" "{#}"] qok
      system_ok_reserve [of s src x M] show ?thesis by auto
  next
    case (Begin_Resolve i x)
    obtain c' r where r: "resolve_section u (sy_context s) i x = (c', r)" by force
    show ?thesis
      using system_ok_begin_resolve [OF ok M [unfolded Begin_Resolve] r] r Begin_Resolve
      by (auto split: sum.splits option.splits)
  next
    case (Begin_Release i e)
    then show ?thesis using system_ok_release [OF ok M [unfolded Begin_Release]] by simp
  next
    case (Complete_Begin i a)
    obtain c' r where r: "begin_outcome (sy_context s) i False = (c', r)" by force
    show ?thesis
      using quiet [of c' "{#}"] quiet [of c' "{#Complete_Quality i a#}"] task qok
        begin_outcome_spec [OF r] r Complete_Begin by (cases r) auto
  next
    case (Complete_Quality i a)
    obtain c' r where "complete_section (sy_context s) i a = Some (c', r)"
      "quality_ok (cc_quality c')" "active_turn c' = active_turn (sy_context s)"
      "lc_sequence (cc_lifecycle c') = lc_sequence (cc_lifecycle (sy_context s))"
      "quality_open (cc_quality c') =
        (if quality_open (cc_quality (sy_context s)) = Some (ti_turn_id i) then None
         else quality_open (cc_quality (sy_context s)))"
      using complete_section_spec [OF qok] by blast
    then show ?thesis
      using quiet [of c' "{#Finish i r#}"] task Complete_Quality by auto
  next
    case (Discard_Begin i b)
    obtain c' r where r: "begin_outcome (sy_context s) i True = (c', r)" by force
    show ?thesis
      using quiet [of c' "{#}"] quiet [of c' "{#Discard_Quality i b rec#}" for rec] task qok
        begin_outcome_spec [OF r] r Discard_Begin by (cases r) auto
  next
    case (Discard_Quality i b rec)
    obtain c' r where r: "discard_section (sy_context s) i b rec = (c', r)" by force
    show ?thesis
      using quiet [of c' "{#Finish i r#}"] task discard_section_spec [OF qok r] r Discard_Quality
      by auto
  next
    case (Finish i res)
    obtain c' r where r: "finish_outcome (sy_context s) i res = (c', r)" by force
    show ?thesis using system_ok_finish [OF ok M [unfolded Finish] r] r Finish by simp
  next
    case (Apply_Persona p m)
    obtain c' r where r: "apply_persona (sy_context s) p m = (c', r)" by force
    show ?thesis
      using quiet [of c' "{#}"] apply_persona_spec [OF qok r] r Apply_Persona by simp
  next
    case (Seed_History op xs)
    obtain c' r where r: "seed_completed_history (sy_context s) op xs = (c', r)" by force
    show ?thesis
      using quiet [of c' "{#}"] seed_completed_history_spec [OF qok r] r Seed_History by simp
  qed
qed

lemma system_ok_step:
  assumes "context_step u s s'" "system_ok s"
  shows "system_ok s'"
  using assms
proof (induction rule: context_step.induct)
  case (start s t)
  then have "\<not> beginning t" "task_ok (sy_context s) (sy_prepared s) t" by (cases t; simp)+
  with start show ?case by (simp add: system_ok_def)
next
  case (continue t s c t')
  then obtain M where "sy_tasks s = add_mset t M" by (metis insert_DiffM)
  with system_ok_task [OF continue(3) this, of u] continue(2) show ?case by simp
next
  case (prepared t s c i)
  then obtain M where "sy_tasks s = add_mset t M" by (metis insert_DiffM)
  with system_ok_task [OF prepared(3) this, of u] prepared(2) show ?case by simp
next
  case (returned t s c r)
  then obtain M where "sy_tasks s = add_mset t M" by (metis insert_DiffM)
  with system_ok_task [OF returned(3) this, of u] returned(2) show ?case by simp
next
  case (abort t s)
  then obtain M where M: "sy_tasks s = add_mset t M" by (metis insert_DiffM)
  have "context_ok (sy_context s) (sy_prepared s)" using abort by (simp add: system_ok_def)
  then have "system_ok (s\<lparr>sy_context := sy_context s, sy_tasks := {#} + M\<rparr>)"
    using abort M by (intro system_ok_quiet) (auto simp: context_ok_def)
  with M show ?case by simp
qed

lemma context_reachable_ok:
  assumes "context_reachable u q s" "quality_ok q" "q_pending_turn q = None"
  shows "system_ok s"
  using assms
proof (induction rule: context_reachable.induct)
  case init
  then show ?case
    by (simp add: system_ok_def context_ok_def Context_new_def active_turn_def quality_open_def)
next
  case (step s s')
  then show ?case using system_ok_step by blast
qed

section \<open>Sequences of guard operations\<close>

datatype guard_op = Activate TurnId GenerationId | Deactivate TurnId GenerationId

fun guard_step :: "GenerationGuard \<Rightarrow> guard_op \<Rightarrow> GenerationGuard" where
  "guard_step active (Activate t g) = fst (activate active t g)"
| "guard_step active (Deactivate t g) = deactivate active t g"

definition guard_run :: "GenerationGuard \<Rightarrow> guard_op list \<Rightarrow> GenerationGuard" where
  "guard_run active ops = foldl guard_step active ops"

section \<open>Properties\<close>

text \<open>
  C1: However concurrent calls of \<open>begin_turn\<close>, \<open>complete_turn\<close>, \<open>discard_turn\<close>, \<open>apply_persona\<close> and
  \<open>seed_completed_history\<close> interleave at their lock boundaries, and whichever of them are aborted in
  between, no call panics, the quality controller keeps its history bounds, and a pending quality
  turn always belongs to the active turn, whose identity \<open>begin_turn\<close> has returned. So whenever no
  turn is active the controller is free.
\<close>

theorem context_interleavings_safe:
  assumes "context_reachable u q s" "quality_ok q" "q_pending_turn q = None"
  shows "quality_ok (cc_quality (sy_context s))
    \<and> (\<forall>t \<in># sy_tasks s. task_step u (sy_context s) t \<noteq> None)
    \<and> (\<forall>p. quality_open (cc_quality (sy_context s)) = Some p \<longrightarrow>
         (\<exists>i \<in> sy_prepared s. active_turn (sy_context s) = Some i \<and> ti_turn_id i = p))
    \<and> (active_turn (sy_context s) = None \<longrightarrow> q_pending_turn (cc_quality (sy_context s)) = None)"
proof -
  have ok: "system_ok s" using context_reachable_ok [OF assms] .
  have "task_step u (sy_context s) t \<noteq> None" if "t \<in># sy_tasks s" for t
    using system_ok_task [OF ok insert_DiffM [OF that, symmetric], of u] by auto
  moreover have "context_ok (sy_context s) (sy_prepared s)" using ok by (simp add: system_ok_def)
  ultimately show ?thesis
    by (cases "q_pending_turn (cc_quality (sy_context s))")
      (auto simp: context_ok_def quality_open_def)
qed

text \<open>A context with one call of \<open>begin_turn\<close> in progress, for the witnesses.\<close>

definition demo_system :: "unit context_system" where
  "demo_system = \<lparr>sy_context = Context_new demo_quality,
     sy_tasks = {#Begin_Reserve Source_Text [104]#}, sy_prepared = {}\<rparr>"

lemma demo_system_reachable: "context_reachable ascii_unicode demo_quality demo_system"
proof -
  let ?s = "\<lparr>sy_context = Context_new demo_quality, sy_tasks = {#},
             sy_prepared = {}\<rparr> :: unit context_system"
  have "context_step ascii_unicode ?s
      (?s\<lparr>sy_tasks := add_mset (Begin_Reserve Source_Text [104]) (sy_tasks ?s)\<rparr>)"
    by (rule context_step.start) simp
  from context_reachable.step [OF context_reachable.init this] show ?thesis
    by (simp add: demo_system_def)
qed

lemma demo_quality_idle: "q_pending_turn demo_quality = None"
  by (simp add: demo_quality_def Quality_new_def)

theorem context_interleavings_safe_witness:
  "quality_ok (cc_quality (sy_context demo_system)) \<and>
   task_step ascii_unicode (sy_context demo_system) (Begin_Reserve Source_Text [104]) \<noteq> None"
  using context_interleavings_safe [OF demo_system_reachable demo_quality_ok demo_quality_idle]
  by (simp add: demo_system_def)

text \<open>
  C30: In every reachable state with no active turn, \<open>begin_turn\<close> on a non-blank transcript of at
  most 16 KiB succeeds, unless the 64-bit sequence is exhausted. It returns the next sequence
  number as turn and generation id, an identity that no earlier call has returned, and makes that
  turn active and pending.
\<close>

theorem begin_turn_available:
  assumes reach: "context_reachable u q s" "quality_ok q" "q_pending_turn q = None"
    and idle: "active_turn (sy_context s) = None"
    and room: "lc_sequence (cc_lifecycle (sy_context s)) \<noteq> - 1"
    and body: "trim t \<noteq> []" "str_len t \<le> MAX_CONVERSATION_MESSAGE_BYTES"
  shows "\<exists>c' p. begin_turn u (sy_context s) src t = (c', Inr p)
     \<and> ti_turn_id (pr_identity p) = lc_sequence (cc_lifecycle (sy_context s)) + 1
     \<and> ti_generation_id (pr_identity p) = ti_turn_id (pr_identity p)
     \<and> pr_identity p \<notin> sy_prepared s \<and> active_turn c' = Some (pr_identity p)
     \<and> quality_open (cc_quality c') = Some (ti_turn_id (pr_identity p))"
proof -
  let ?c = "sy_context s"
  have ok: "context_ok ?c (sy_prepared s)"
    using context_reachable_ok [OF reach] by (simp add: system_ok_def)
  obtain c1 i where r: "reserve_turn ?c src = (c1, Inr i)"
    using idle checked_add_one [OF room]
    by (simp add: reserve_turn_def active_turn_def Let_def)
  have spec: "active_turn c1 = Some i" "cc_quality c1 = cc_quality ?c"
    "ti_generation_id i = ti_turn_id i" "lc_sequence (cc_lifecycle ?c) < ti_turn_id i"
    "ti_turn_id i = lc_sequence (cc_lifecycle ?c) + 1"
    using reserve_turn_spec [of ?c src] r by auto
  have fresh: "i \<notin> sy_prepared s" using ok spec(4) by (auto simp: context_ok_def identity_ok_def)
  have qok: "quality_ok (cc_quality c1)" "q_pending_turn (cc_quality c1) = None"
    using ok idle spec(2) quality_open_None [of "cc_quality c1"]
    by (cases "quality_open (cc_quality c1)", auto simp: context_ok_def)
  obtain q' y where "resolve_turn u (cc_quality c1) (ti_turn_id i) t None = (q', Inr (Some y))"
    by (rule resolve_turn_resolves [OF qok body])
  then have res: "resolve_section u c1 i t = (c1\<lparr>cc_quality := q'\<rparr>, Inr (Some y))"
    by (simp add: resolve_section_def)
  show ?thesis
    using resolve_section_spec [OF qok(1) res] spec fresh
    by (auto simp: begin_turn_def r res)
qed

theorem begin_turn_available_witness:
  "\<exists>c' p. begin_turn ascii_unicode (sy_context demo_system) Source_Text [104] = (c', Inr p)
     \<and> ti_turn_id (pr_identity p) = 1 \<and> active_turn c' = Some (pr_identity p)"
proof -
  have "active_turn (sy_context demo_system) = None"
    "lc_sequence (cc_lifecycle (sy_context demo_system)) = 0"
    by (simp_all add: demo_system_def Context_new_def active_turn_def)
  then show ?thesis
    using begin_turn_available [OF demo_system_reachable demo_quality_ok demo_quality_idle _ _
        demo_texts(1,4), of Source_Text] by auto
qed

text \<open>
  C31: An active turn can always be recovered. In every reachable state, whether or not a
  finalization or the \<open>begin_turn\<close> of the active turn was aborted halfway, \<open>discard_turn\<close> with the
  active identity leaves no active and no pending turn.
\<close>

theorem discard_turn_recovers:
  assumes reach: "context_reachable u q s" "quality_ok q" "q_pending_turn q = None"
    and active: "active_turn (sy_context s) = Some i"
    and discard: "context_discard_turn (sy_context s) i b = (c', r)"
  shows "active_turn c' = None \<and> q_pending_turn (cc_quality c') = None
       \<and> quality_ok (cc_quality c')
       \<and> lc_sequence (cc_lifecycle c') = lc_sequence (cc_lifecycle (sy_context s))"
proof -
  let ?c = "sy_context s"
  have ok: "context_ok ?c (sy_prepared s)"
    using context_reachable_ok [OF reach] by (simp add: system_ok_def)
  obtain c1 rec where b: "begin_outcome ?c i True = (c1, Inr rec)"
    and fin: "\<exists>a. lc_active (cc_lifecycle c1) = Some a \<and> at_identity a = i \<and> at_finalizing a"
  proof -
    from active obtain a where a: "lc_active (cc_lifecycle ?c) = Some a" "at_identity a = i"
      by (auto simp: active_turn_def)
    show thesis
      using that a by (cases "at_finalizing a") (simp_all add: begin_outcome_def)
  qed
  note spec1 = begin_outcome_spec [OF b]
  have qok: "quality_ok (cc_quality c1)" using ok spec1 by (simp add: context_ok_def)
  obtain c2 res where d: "discard_section c1 i b rec = (c2, res)" by force
  have life: "cc_lifecycle c2 = cc_lifecycle c1"
    using d by (auto simp: discard_section_def split: prod.splits if_splits)
  have pending: "quality_open (cc_quality c2) = None"
    using discard_section_spec [OF qok d] ok spec1 active
    by (cases "quality_open (cc_quality ?c)") (auto simp: context_ok_def)
  have f: "finish_outcome c2 i res = (c', r)" using discard b d by (simp add: context_discard_turn_def)
  then have "lc_active (cc_lifecycle c') = None"
    using fin life
    by (auto simp: finish_outcome_def active_turn_def Let_def split: sum.splits)
  then show ?thesis
    using finish_outcome_spec [OF f] pending discard_section_spec [OF qok d] spec1
    by (simp add: active_turn_def quality_open_def)
qed

theorem discard_turn_recovers_witness:
  "\<exists>s i c' r. context_reachable ascii_unicode demo_quality (s :: unit context_system)
     \<and> active_turn (sy_context s) = Some i
     \<and> context_discard_turn (sy_context s) i True = (c', r) \<and> active_turn c' = None"
proof -
  let ?t = "Begin_Reserve Source_Text [104]" and ?i = "\<lparr>ti_turn_id = 1, ti_generation_id = 1\<rparr>"
  have "checked_add (0 :: u64) 1 = Some 1" using checked_add_one [of "0 :: u64"] by simp
  then obtain c where c: "task_step ascii_unicode (sy_context demo_system) ?t
      = Some (c, Continue (Begin_Resolve ?i [104]))" and act: "active_turn c = Some ?i"
    by (simp add: demo_system_def Context_new_def reserve_turn_def active_turn_def Let_def)
  let ?s = "demo_system\<lparr>sy_context := c,
     sy_tasks := add_mset (Begin_Resolve ?i [104]) (sy_tasks demo_system - {#?t#})\<rparr>"
  have "context_step ascii_unicode demo_system ?s"
    by (rule context_step.continue [OF _ c]) (simp add: demo_system_def)
  with demo_system_reachable have r: "context_reachable ascii_unicode demo_quality ?s"
    by (rule context_reachable.step)
  obtain c' r where d: "context_discard_turn (sy_context ?s) ?i True = (c', r)" by force
  show ?thesis
    using discard_turn_recovers [OF r demo_quality_ok demo_quality_idle _ d] r d act by auto
qed

text \<open>
  C36: A generation permit is granted for exactly one identity at a time. After any sequence of
  activations and deactivations, an identity has a permit if and only if it was activated while
  the guard was free and has not been deactivated since, so a late deactivation or a permit request
  of a replaced generation has no effect on its successor.
\<close>

theorem permit_iff_last_activation:
  "permit (guard_run None ops) t g \<longleftrightarrow>
     (\<exists>before after. ops = before @ Activate t g # after \<and> guard_run None before = None
        \<and> Deactivate t g \<notin> set after)"
proof (induction ops rule: rev_induct)
  case Nil
  then show ?case by (simp add: guard_run_def permit_def)
next
  case (snoc op ops)
  have run: "guard_run None (ops @ [op]) = guard_step (guard_run None ops) op"
    by (simp add: guard_run_def)
  have split: "(\<exists>before after. ops @ [op] = before @ Activate t g # after
         \<and> guard_run None before = None \<and> Deactivate t g \<notin> set after)
      \<longleftrightarrow> op = Activate t g \<and> guard_run None ops = None
        \<or> op \<noteq> Deactivate t g \<and> permit (guard_run None ops) t g"
    (is "?l \<longleftrightarrow> ?r")
  proof
    assume ?l
    then obtain before after where o: "ops @ [op] = before @ Activate t g # after"
      "guard_run None before = None" "Deactivate t g \<notin> set after" by blast
    show ?r
    proof (cases after rule: rev_cases)
      case Nil
      with o show ?thesis by simp
    next
      case (snoc ys y)
      with o have "ops = before @ Activate t g # ys" "op = y" by auto
      with o snoc show ?thesis unfolding snoc.IH by auto
    qed
  next
    assume ?r
    then show ?l
    proof
      assume "op = Activate t g \<and> guard_run None ops = None"
      then show ?l by (intro exI [of _ ops] exI [of _ "[]"]) simp
    next
      assume a: "op \<noteq> Deactivate t g \<and> permit (guard_run None ops) t g"
      then obtain before after where "ops = before @ Activate t g # after"
        "guard_run None before = None" "Deactivate t g \<notin> set after"
        unfolding snoc.IH by blast
      with a show ?l by (intro exI [of _ before] exI [of _ "after @ [op]"]) auto
    qed
  qed
  show ?case
    unfolding split run
    by (cases op) (auto simp: permit_def activate_def deactivate_def)
qed

end
