(* ===== verification/Turn_Finalizer.thy ===== *)
theory Turn_Finalizer
  imports Quality_Protocol
begin

text \<open>
  The turn finalizer, \<^verbatim>\<open>crates/runtime/src/turn_finalizer.rs\<close>, which decides when the user has stopped
  speaking and what they said. An abstract finalizer keeps the hypotheses it heard since the
  utterance began; the Rust state is a function of it, every operation of the code implements the
  abstract one, and the properties are stated over whole sequences of observations.
\<close>

section \<open>Data\<close>

record RecognitionHypothesis =
  rh_segment_id :: u64
  rh_text :: rstring
  rh_engine_final :: bool

datatype VoiceActivity =
    SpeechStarted u64 | SpeechContinued u64 | SpeechEnded u64 | CaptureDiscontinuity u64

record FinalizedTranscript =
  ft_segment_id :: u64
  ft_text :: rstring

record TurnFinalizer =
  tf_final_silence_ms :: u64
  tf_segment_id :: "u64 option"
  tf_committed :: "rstring list"
  tf_display_candidate :: "rstring option"
  tf_engine_final_candidate :: "rstring option"
  tf_speech_ended_at_ms :: "u64 option"
  tf_finalized :: bool

section \<open>Operations\<close>

definition TurnFinalizer_new :: "u64 \<Rightarrow> TurnFinalizer result" where
  "TurnFinalizer_new final_silence_ms =
     (if final_silence_ms = 0
      then Inl (RuntimeError Kind_Configuration Stage_Runtime
                  ''turn finalization silence duration must be non-zero'')
      else Inr \<lparr>tf_final_silence_ms = final_silence_ms, tf_segment_id = None, tf_committed = [],
                tf_display_candidate = None, tf_engine_final_candidate = None,
                tf_speech_ended_at_ms = None, tf_finalized = False\<rparr>)"

definition observe_hypothesis ::
  "TurnFinalizer \<Rightarrow> RecognitionHypothesis \<Rightarrow> TurnFinalizer \<times> bool" where
  "observe_hypothesis f value =
     (if tf_finalized f \<or> trim (rh_text value) = [] then (f, False)
      else
        let f1 = (if tf_segment_id f \<noteq> Some (rh_segment_id value)
                  then f\<lparr>tf_committed := tf_committed f @
                           (case tf_engine_final_candidate f of None \<Rightarrow> [] | Some c \<Rightarrow> [c]),
                         tf_segment_id := Some (rh_segment_id value),
                         tf_engine_final_candidate := None\<rparr>
                  else f);
            f2 = f1\<lparr>tf_display_candidate := Some (rh_text value)\<rparr>
        in (if rh_engine_final value
            then f2\<lparr>tf_engine_final_candidate := Some (rh_text value)\<rparr> else f2, True))"

fun observe_activity :: "TurnFinalizer \<Rightarrow> VoiceActivity \<Rightarrow> TurnFinalizer" where
  "observe_activity f (SpeechStarted at_ms) =
     (let previous_utterance_expired =
            (case tf_speech_ended_at_ms f of None \<Rightarrow> False
             | Some ended \<Rightarrow> at_ms \<ge> sat_add ended (tf_final_silence_ms f));
          f1 = (if tf_finalized f \<or> previous_utterance_expired
                then f\<lparr>tf_segment_id := None, tf_committed := [], tf_display_candidate := None,
                       tf_engine_final_candidate := None, tf_finalized := False\<rparr>
                else f)
      in f1\<lparr>tf_speech_ended_at_ms := None\<rparr>)"
| "observe_activity f (SpeechContinued at_ms) = f\<lparr>tf_speech_ended_at_ms := None\<rparr>"
| "observe_activity f (SpeechEnded at_ms) = f\<lparr>tf_speech_ended_at_ms := Some at_ms\<rparr>"
| "observe_activity f (CaptureDiscontinuity at_ms) = f"

definition observe_discontinuity :: "TurnFinalizer \<Rightarrow> TurnFinalizer" where
  "observe_discontinuity f =
     f\<lparr>tf_segment_id := None, tf_committed := [], tf_display_candidate := None,
       tf_engine_final_candidate := None, tf_speech_ended_at_ms := None, tf_finalized := False\<rparr>"

definition display_text :: "TurnFinalizer \<Rightarrow> rstring option" where
  "display_text f = tf_display_candidate f"

definition remaining_silence_ms :: "TurnFinalizer \<Rightarrow> u64 \<Rightarrow> u64 option" where
  "remaining_silence_ms f now_ms =
     (if tf_finalized f then None
      else map_option (\<lambda>ended. sat_sub (sat_add ended (tf_final_silence_ms f)) now_ms)
             (tf_speech_ended_at_ms f))"

definition finalize_ready :: "TurnFinalizer \<Rightarrow> u64 \<Rightarrow> TurnFinalizer \<times> FinalizedTranscript option" where
  "finalize_ready f now_ms =
     (if tf_finalized f then (f, None)
      else (case tf_segment_id f of
        None \<Rightarrow> (f, None)
      | Some segment_id \<Rightarrow>
     (case tf_speech_ended_at_ms f of
        None \<Rightarrow> (f, None)
      | Some ended \<Rightarrow>
        if now_ms < sat_add ended (tf_final_silence_ms f) then (f, None)
        else
     (case tf_engine_final_candidate f of
        None \<Rightarrow> (f, None)
      | Some candidate \<Rightarrow>
          let text = concat (tf_committed f) @ candidate
          in if trim text = [] then (f, None)
             else (f\<lparr>tf_finalized := True\<rparr>,
                   Some \<lparr>ft_segment_id = segment_id, ft_text = text\<rparr>)))))"

section \<open>What was said\<close>

text \<open>
  Consecutive hypotheses of one segment revise each other; the segment's words are those of its last
  engine-final hypothesis.
\<close>

fun segments :: "RecognitionHypothesis list \<Rightarrow> RecognitionHypothesis list list" where
  "segments [] = []"
| "segments (h # hs) =
     (case segments hs of
        [] \<Rightarrow> [[h]]
      | g # gs \<Rightarrow> if g \<noteq> [] \<and> rh_segment_id h = rh_segment_id (hd g) then (h # g) # gs
                  else [h] # g # gs)"

definition segment_words :: "RecognitionHypothesis list \<Rightarrow> rstring option" where
  "segment_words g =
     (let finals = filter rh_engine_final g
      in if finals = [] then None else Some (rh_text (last finals)))"

definition words :: "rstring option \<Rightarrow> rstring list" where
  "words w = (case w of None \<Rightarrow> [] | Some c \<Rightarrow> [c])"

record heard_finalizer =
  hf_final_silence_ms :: u64
  hf_heard :: "RecognitionHypothesis list"
  hf_ended :: "u64 option"
  hf_done :: bool

definition transcript :: "RecognitionHypothesis list \<Rightarrow> rstring" where
  "transcript hs = concat (concat (map (\<lambda>g. words (segment_words g)) (segments hs)))"

definition silent_since :: "heard_finalizer \<Rightarrow> u64 \<Rightarrow> bool" where
  "silent_since a now \<longleftrightarrow>
     (\<exists>ended. hf_ended a = Some ended \<and> sat_add ended (hf_final_silence_ms a) \<le> now)"

definition hear :: "heard_finalizer \<Rightarrow> RecognitionHypothesis \<Rightarrow> heard_finalizer \<times> bool" where
  "hear a h = (if hf_done a \<or> trim (rh_text h) = [] then (a, False)
               else (a\<lparr>hf_heard := hf_heard a @ [h]\<rparr>, True))"

fun notice :: "heard_finalizer \<Rightarrow> VoiceActivity \<Rightarrow> heard_finalizer" where
  "notice a (SpeechStarted at) =
     (if hf_done a \<or> silent_since a at
      then a\<lparr>hf_heard := [], hf_done := False, hf_ended := None\<rparr> else a\<lparr>hf_ended := None\<rparr>)"
| "notice a (SpeechContinued at) = a\<lparr>hf_ended := None\<rparr>"
| "notice a (SpeechEnded at) = a\<lparr>hf_ended := Some at\<rparr>"
| "notice a (CaptureDiscontinuity at) = a"

definition forget :: "heard_finalizer \<Rightarrow> heard_finalizer" where
  "forget a = a\<lparr>hf_heard := [], hf_done := False, hf_ended := None\<rparr>"

definition settled :: "heard_finalizer \<Rightarrow> u64 \<Rightarrow> bool" where
  "settled a now \<longleftrightarrow> \<not> hf_done a \<and> silent_since a now \<and> hf_heard a \<noteq> []
     \<and> segment_words (last (segments (hf_heard a))) \<noteq> None \<and> trim (transcript (hf_heard a)) \<noteq> []"

definition conclude :: "heard_finalizer \<Rightarrow> u64 \<Rightarrow> heard_finalizer \<times> FinalizedTranscript option" where
  "conclude a now =
     (if settled a now
      then (a\<lparr>hf_done := True\<rparr>,
            Some \<lparr>ft_segment_id = rh_segment_id (last (hf_heard a)),
                  ft_text = transcript (hf_heard a)\<rparr>)
      else (a, None))"

text \<open>The Rust state of an abstract finalizer.\<close>

definition implementation :: "heard_finalizer \<Rightarrow> TurnFinalizer" where
  "implementation a =
     (let hs = hf_heard a; gs = segments hs
      in \<lparr>tf_final_silence_ms = hf_final_silence_ms a,
          tf_segment_id = (if hs = [] then None else Some (rh_segment_id (last hs))),
          tf_committed = concat (map (\<lambda>g. words (segment_words g)) (butlast gs)),
          tf_display_candidate = (if hs = [] then None else Some (rh_text (last hs))),
          tf_engine_final_candidate = (if hs = [] then None else segment_words (last gs)),
          tf_speech_ended_at_ms = hf_ended a,
          tf_finalized = hf_done a\<rparr>)"

section \<open>Lemmas on segments\<close>

lemma segments_Nil_iff [simp]: "segments hs = [] \<longleftrightarrow> hs = []"
  by (cases hs) (auto split: list.splits)

lemma segments_nonempty: "g \<in> set (segments hs) \<Longrightarrow> g \<noteq> []"
  by (induction hs arbitrary: g) (auto split: list.splits if_splits)

lemma hd_segments: "hs \<noteq> [] \<Longrightarrow> hd (hd (segments hs)) = hd hs"
  by (cases hs) (auto split: list.splits)

lemma last_segments: "hs \<noteq> [] \<Longrightarrow> last (last (segments hs)) = last hs"
proof (induction hs)
  case (Cons h hs)
  show ?case
  proof (cases "segments hs")
    case (Cons g gs)
    then have "g \<noteq> []" using segments_nonempty [of g hs] by simp
    moreover have "last (last (g # gs)) = last hs" using Cons.IH Cons by fastforce
    ultimately show ?thesis using Cons by auto
  qed auto
qed simp

lemma segments_snoc:
  "segments (hs @ [h]) =
     (if hs \<noteq> [] \<and> rh_segment_id (last hs) = rh_segment_id h
      then butlast (segments hs) @ [last (segments hs) @ [h]]
      else segments hs @ [[h]])"
proof (induction hs)
  case (Cons x hs)
  show ?case
  proof (cases hs)
    case Nil
    then show ?thesis by simp
  next
    case (Cons y ys)
    then obtain g gs where g: "segments hs = g # gs"
      using segments_Nil_iff [of hs] by (metis list.distinct(1) neq_Nil_conv)
    then have "g \<noteq> []" using segments_nonempty [of g hs] by simp
    then show ?thesis using Cons.IH Cons g by auto
  qed
qed simp

lemma segment_words_snoc:
  "segment_words (g @ [h]) = (if rh_engine_final h then Some (rh_text h) else segment_words g)"
  by (simp add: segment_words_def Let_def)

lemma segment_words_single:
  "segment_words [h] = (if rh_engine_final h then Some (rh_text h) else None)"
  by (simp add: segment_words_def)

lemma transcript_split:
  assumes "hs \<noteq> []"
  shows "transcript hs = concat (concat (map (\<lambda>g. words (segment_words g)) (butlast (segments hs))))
           @ concat (words (segment_words (last (segments hs))))"
proof -
  have "segments hs = butlast (segments hs) @ [last (segments hs)]" using assms by simp
  then show ?thesis unfolding transcript_def
    by (metis (no_types, lifting) concat.simps concat_append list.simps(8,9) map_append append_Nil2)
qed

section \<open>Refinement\<close>

lemma implementation_hear:
  "observe_hypothesis (implementation a) h = map_prod implementation id (hear a h)"
proof (cases "hf_done a \<or> trim (rh_text h) = []")
  case True
  then show ?thesis by (auto simp: observe_hypothesis_def hear_def implementation_def Let_def)
next
  case False
  show ?thesis
  proof (cases "hf_heard a \<noteq> [] \<and> rh_segment_id (last (hf_heard a)) = rh_segment_id h")
    case True
    with False show ?thesis
      by (simp add: observe_hypothesis_def hear_def implementation_def Let_def segments_snoc
          segment_words_snoc)
  next
    case new: False
    show ?thesis
    proof (cases "hf_heard a = []")
      case True
      with False show ?thesis
        by (simp add: observe_hypothesis_def hear_def implementation_def Let_def
            segment_words_single)
    next
      case nonempty: False
      then have "segments (hf_heard a) = butlast (segments (hf_heard a)) @ [last (segments (hf_heard a))]"
        by simp
      then have "concat (map (\<lambda>g. words (segment_words g)) (segments (hf_heard a)))
          = concat (map (\<lambda>g. words (segment_words g)) (butlast (segments (hf_heard a))))
            @ words (segment_words (last (segments (hf_heard a))))"
        by (metis (no_types, lifting) append_Nil2 concat.simps concat_append list.simps(8,9) map_append)
      with False new nonempty show ?thesis
        by (simp add: observe_hypothesis_def hear_def implementation_def Let_def segments_snoc
            segment_words_single words_def)
    qed
  qed
qed

lemma implementation_notice: "observe_activity (implementation a) v = implementation (notice a v)"
  by (cases v) (auto simp: implementation_def silent_since_def Let_def split: option.splits)

lemma implementation_forget: "observe_discontinuity (implementation a) = implementation (forget a)"
  by (simp add: observe_discontinuity_def forget_def implementation_def Let_def)

lemma implementation_conclude:
  "finalize_ready (implementation a) now = map_prod implementation id (conclude a now)"
proof (cases "hf_heard a = []")
  case True
  then show ?thesis
    by (simp add: finalize_ready_def conclude_def settled_def implementation_def Let_def)
next
  case False
  then show ?thesis
    by (auto simp: finalize_ready_def conclude_def settled_def implementation_def Let_def
        silent_since_def transcript_split words_def not_less split: option.splits)
qed

section \<open>Sequences of observations\<close>

datatype finalizer_event =
  Heard RecognitionHypothesis | Noticed VoiceActivity | Lost_Capture | Polled u64

fun finalizer_step ::
  "TurnFinalizer \<Rightarrow> finalizer_event \<Rightarrow> TurnFinalizer \<times> FinalizedTranscript option" where
  "finalizer_step f (Heard h) = (fst (observe_hypothesis f h), None)"
| "finalizer_step f (Noticed v) = (observe_activity f v, None)"
| "finalizer_step f Lost_Capture = (observe_discontinuity f, None)"
| "finalizer_step f (Polled now) = finalize_ready f now"

fun heard_step ::
  "heard_finalizer \<Rightarrow> finalizer_event \<Rightarrow> heard_finalizer \<times> FinalizedTranscript option" where
  "heard_step a (Heard h) = (fst (hear a h), None)"
| "heard_step a (Noticed v) = (notice a v, None)"
| "heard_step a Lost_Capture = (forget a, None)"
| "heard_step a (Polled now) = conclude a now"

text \<open>The final state of a run and what each of its events returned.\<close>

fun run_events :: "('s \<Rightarrow> 'e \<Rightarrow> 's \<times> 'o) \<Rightarrow> 's \<Rightarrow> 'e list \<Rightarrow> 's \<times> 'o list" where
  "run_events step s [] = (s, [])"
| "run_events step s (e # es) =
     (case step s e of (s1, out) \<Rightarrow>
        case run_events step s1 es of (s2, outs) \<Rightarrow> (s2, out # outs))"

lemma run_events_snoc:
  "run_events step s (es @ [e]) =
     (let (s1, outs) = run_events step s es; (s2, out) = step s1 e in (s2, outs @ [out]))"
  by (induction es arbitrary: s) (simp_all add: case_prod_beta)

definition heard_new :: "u64 \<Rightarrow> heard_finalizer" where
  "heard_new ms = \<lparr>hf_final_silence_ms = ms, hf_heard = [], hf_ended = None, hf_done = False\<rparr>"

lemma TurnFinalizer_new_iff:
  "TurnFinalizer_new ms = Inr f \<longleftrightarrow> ms \<noteq> 0 \<and> f = implementation (heard_new ms)"
  by (auto simp: TurnFinalizer_new_def implementation_def heard_new_def Let_def)

lemma implementation_step:
  "finalizer_step (implementation a) e = map_prod implementation id (heard_step a e)"
  by (cases e) (simp_all add: implementation_hear implementation_notice implementation_forget
      implementation_conclude)

lemma implementation_run:
  "run_events finalizer_step (implementation a) es = map_prod implementation id (run_events heard_step a es)"
  by (induction es arbitrary: a) (simp_all add: implementation_step case_prod_beta)

text \<open>When the current silence began, read off the activity alone.\<close>

fun silence_step :: "u64 option \<Rightarrow> finalizer_event \<Rightarrow> u64 option" where
  "silence_step e (Noticed (SpeechStarted at)) = None"
| "silence_step e (Noticed (SpeechContinued at)) = None"
| "silence_step e (Noticed (SpeechEnded at)) = Some at"
| "silence_step e Lost_Capture = None"
| "silence_step e _ = e"

definition silence_began :: "finalizer_event list \<Rightarrow> u64 option" where
  "silence_began es = foldl silence_step None es"

lemma heard_step_ended: "hf_ended (fst (heard_step a e)) = silence_step (hf_ended a) e"
  by (cases "(hf_ended a, e)" rule: silence_step.cases)
    (auto simp: hear_def forget_def conclude_def)

lemma heard_step_silence: "hf_final_silence_ms (fst (heard_step a e)) = hf_final_silence_ms a"
proof (cases e)
  case (Noticed v)
  then show ?thesis by (cases v) simp_all
qed (auto simp: hear_def forget_def conclude_def)

lemma heard_run_state:
  "hf_ended (fst (run_events heard_step a es)) = foldl silence_step (hf_ended a) es"
  "hf_final_silence_ms (fst (run_events heard_step a es)) = hf_final_silence_ms a"
  by (induction es arbitrary: a) (simp_all add: case_prod_beta heard_step_ended heard_step_silence)

definition reopens :: "finalizer_event \<Rightarrow> bool" where
  "reopens e \<longleftrightarrow> e = Lost_Capture \<or> (\<exists>at. e = Noticed (SpeechStarted at))"

lemma heard_step_done:
  "hf_done a \<Longrightarrow> \<not> reopens e \<Longrightarrow> hf_done (fst (heard_step a e)) \<and> snd (heard_step a e) = None"
proof (cases e)
  case (Noticed v)
  then show "hf_done a \<Longrightarrow> \<not> reopens e \<Longrightarrow> ?thesis" by (cases v) (auto simp: reopens_def)
qed (auto simp: reopens_def hear_def conclude_def settled_def)

lemma heard_run_done:
  "hf_done a \<Longrightarrow> list_all (\<lambda>e. \<not> reopens e) es \<Longrightarrow>
     hf_done (fst (run_events heard_step a es)) \<and> list_all (\<lambda>out. out = None) (snd (run_events heard_step a es))"
  by (induction es arbitrary: a) (auto simp: case_prod_beta heard_step_done)

section \<open>Properties\<close>

text \<open>
  C3: The finalizer implements its specification: on every sequence of hypotheses, activity,
  capture losses and polls it returns what the abstract finalizer returns, which finalizes the
  concatenated words of all segments heard since the utterance began, each taken from the
  segment's last engine-final hypothesis.
\<close>

theorem finalizer_refines:
  assumes "TurnFinalizer_new ms = Inr f"
  shows "snd (run_events finalizer_step f es) = snd (run_events heard_step (heard_new ms) es)"
  using assms by (simp add: TurnFinalizer_new_iff implementation_run)

definition demo_utterance :: "finalizer_event list" where
  "demo_utterance =
     [Noticed (SpeechStarted 10),
      Heard \<lparr>rh_segment_id = 1, rh_text = [104], rh_engine_final = True\<rparr>,
      Heard \<lparr>rh_segment_id = 2, rh_text = [105], rh_engine_final = True\<rparr>,
      Noticed (SpeechEnded 500), Polled 900, Polled 1200, Polled 1300]"

lemma demo_utterance_heard:
  "snd (run_events heard_step (heard_new 700) demo_utterance) =
     [None, None, None, None, None, Some \<lparr>ft_segment_id = 2, ft_text = [104, 105]\<rparr>, None]"
proof -
  have t: "trim [104] \<noteq> []" "trim [105] \<noteq> []" "trim [104, 105] \<noteq> []"
    by (simp_all add: trim_empty_iff is_whitespace_def)
  have s: "sat_add (500 :: u64) 700 = 1200" by (simp add: sat_add_def)
  show ?thesis
    by (simp add: demo_utterance_def heard_new_def hear_def conclude_def settled_def silent_since_def
        t s transcript_def segment_words_def words_def)
qed

theorem finalizer_refines_witness:
  "\<exists>f. TurnFinalizer_new 700 = Inr f \<and>
     snd (run_events finalizer_step f demo_utterance) =
       [None, None, None, None, None, Some \<lparr>ft_segment_id = 2, ft_text = [104, 105]\<rparr>, None]"
  using finalizer_refines [of 700 _ demo_utterance] demo_utterance_heard
  by (simp add: TurnFinalizer_new_iff)

text \<open>
  C25: A turn is finalized only after the configured silence. If a poll at \<open>now\<close> finalizes, the
  last activity was the end of speech, no speech and no capture loss followed it, at least the
  configured milliseconds (saturating) have passed since, and the text is not blank. And it is
  finalized once: no later poll finalizes again before speech starts anew or the capture is lost.
\<close>

theorem finalizes_once_after_silence:
  assumes new: "TurnFinalizer_new ms = Inr f"
    and final: "finalize_ready (fst (run_events finalizer_step f es)) now = (f', Some t)"
    and same: "list_all (\<lambda>e. \<not> reopens e) later"
  shows "(\<exists>ended. silence_began es = Some ended \<and> sat_add ended ms \<le> now)
     \<and> trim (ft_text t) \<noteq> []
     \<and> list_all (\<lambda>out. out = None) (snd (run_events finalizer_step f' later))"
proof -
  let ?a = "fst (run_events heard_step (heard_new ms) es)"
  have f: "f = implementation (heard_new ms)" using new by (simp add: TurnFinalizer_new_iff)
  have "map_prod implementation id (conclude ?a now) = (f', Some t)"
    using final by (simp add: f implementation_run implementation_conclude)
  then have s: "settled ?a now" and t: "ft_text t = transcript (hf_heard ?a)"
    and f': "f' = implementation (?a\<lparr>hf_done := True\<rparr>)"
    by (auto simp: conclude_def split: if_splits)
  have "hf_final_silence_ms ?a = ms" "hf_ended ?a = silence_began es"
    by (simp_all add: heard_run_state heard_new_def silence_began_def)
  then show ?thesis
    using s t heard_run_done [of "?a\<lparr>hf_done := True\<rparr>" later] same
    by (auto simp: settled_def silent_since_def f' implementation_run)
qed

theorem finalizes_once_after_silence_witness:
  "\<exists>f f' t. TurnFinalizer_new 700 = Inr f
     \<and> finalize_ready (fst (run_events finalizer_step f (take 4 demo_utterance))) 1200 = (f', Some t)
     \<and> silence_began (take 4 demo_utterance) = Some 500
     \<and> list_all (\<lambda>out. out = None) (snd (run_events finalizer_step f' [Polled 1300, Polled 5000]))"
proof -
  let ?f = "implementation (heard_new 700)"
  let ?g = "fst (run_events finalizer_step ?f (take 4 demo_utterance))"
  have new: "TurnFinalizer_new 700 = Inr ?f" by (simp add: TurnFinalizer_new_iff)
  have t: "trim [104] \<noteq> []" "trim [105] \<noteq> []" "trim [104, 105] \<noteq> []"
    by (simp_all add: trim_empty_iff is_whitespace_def)
  have s: "sat_add (500 :: u64) 700 = 1200" by (simp add: sat_add_def)
  have "snd (finalize_ready ?g 1200)
      = snd (conclude (fst (run_events heard_step (heard_new 700) (take 4 demo_utterance))) 1200)"
    by (simp only: implementation_run implementation_conclude fst_map_prod snd_map_prod id_apply)
  also have "\<dots> \<noteq> None"
    by (simp add: demo_utterance_def heard_new_def hear_def conclude_def settled_def
        silent_since_def t s transcript_def segment_words_def words_def)
  finally have "snd (finalize_ready ?g 1200) \<noteq> None" .
  then obtain f' t where final: "finalize_ready ?g 1200 = (f', Some t)"
    by (metis option.exhaust prod.collapse)
  show ?thesis
    using finalizes_once_after_silence [OF new final, of "[Polled 1300, Polled 5000]"] new final
    by (auto simp: reopens_def silence_began_def demo_utterance_def)
qed

end
