(* ===== verification/Text_Chunking.thy ===== *)
theory Text_Chunking
  imports Quality_Protocol
begin

text \<open>
  The two splitters of streamed model text: the phrase chunker that feeds speech synthesis,
  \<^verbatim>\<open>crates/runtime/src/phrase_chunker.rs\<close>, and the utterance assembler,
  \<^verbatim>\<open>crates/runtime/src/utterance_assembler.rs\<close>. Both append a delta to a buffer and cut pieces off its
  front while they find an end to cut at. The locale \<open>segmenter\<close> holds what the loop needs of that
  search; under its laws the loop ends, never cuts inside a character, loses no character and keeps
  every piece and the rest within the hard limit.
\<close>

definition configuration_error :: "string \<Rightarrow> RuntimeError" where
  "configuration_error m = RuntimeError Kind_Configuration Stage_Runtime m"

definition MAX_UTF8_SCALAR_BYTES :: nat where "MAX_UTF8_SCALAR_BYTES = 4"

section \<open>Cutting loop\<close>

text \<open>
  The pieces a loop \<^verbatim>\<open>while let Some(end) = next(..) { drain(..end) .. }\<close> cuts off a buffer, and what
  is left; it stops early when \<open>stop\<close> holds of the rest. The value \<open>None\<close> is a panic (an end that is
  not a character boundary) or a loop that does not return.
\<close>

partial_function (option) drain_loop ::
  "(rstring \<Rightarrow> nat option) \<Rightarrow> (rstring \<Rightarrow> bool) \<Rightarrow> rstring \<Rightarrow> (rstring list \<times> rstring) option" where
  "drain_loop next_end stop buffer =
     (case next_end buffer of
        None \<Rightarrow> Some ([], buffer)
      | Some e \<Rightarrow>
          (case split_at_byte e buffer of
             None \<Rightarrow> None
           | Some (piece, rest) \<Rightarrow>
               if stop rest then Some ([piece], rest)
               else Option.bind (drain_loop next_end stop rest)
                      (\<lambda>(pieces, rest'). Some (piece # pieces, rest'))))"

locale segmenter =
  fixes valid :: "'c \<Rightarrow> bool"
    and next_end :: "'c \<Rightarrow> rstring \<Rightarrow> nat option"
    and stop :: "'c \<Rightarrow> rstring \<Rightarrow> bool"
    and hard_limit :: "'c \<Rightarrow> nat"
  assumes next_boundary: "valid c \<Longrightarrow> next_end c b = Some e \<Longrightarrow> char_boundary b e"
    and next_positive: "valid c \<Longrightarrow> next_end c b = Some e \<Longrightarrow> 0 < e"
    and next_limit: "valid c \<Longrightarrow> next_end c b = Some e \<Longrightarrow> e \<le> hard_limit c"
    and next_none: "valid c \<Longrightarrow> next_end c b = None \<Longrightarrow> str_len b < hard_limit c"
    and stop_small: "valid c \<Longrightarrow> stop c b \<Longrightarrow> str_len b < hard_limit c"
begin

lemma next_splits:
  assumes "valid c" "next_end c b = Some e"
  obtains piece rest where "split_at_byte e b = Some (piece, rest)" "b = piece @ rest"
    and "piece \<noteq> []" "str_len piece \<le> hard_limit c" "length rest < length b"
proof -
  obtain piece rest where p: "split_at_byte e b = Some (piece, rest)"
    using next_boundary [OF assms] by (auto simp: char_boundary_def)
  then have "b = piece @ rest" "str_len piece = e" by (simp_all add: split_at_byte_Some)
  moreover from this have "piece \<noteq> []" using next_positive [OF assms] by auto
  ultimately show thesis using that p next_limit [OF assms] by simp
qed

lemma drain_loop_total:
  assumes "valid c"
  shows "\<exists>pieces rest. drain_loop (next_end c) (stop c) b = Some (pieces, rest)
           \<and> concat pieces @ rest = b \<and> str_len rest < hard_limit c
           \<and> (\<forall>p \<in> set pieces. p \<noteq> [] \<and> str_len p \<le> hard_limit c)"
proof (induction b rule: measure_induct_rule [of length])
  case (less b)
  show ?case
  proof (cases "next_end c b")
    case None
    then show ?thesis
      using next_none [OF assms] by (subst drain_loop.simps) simp
  next
    case (Some e)
    then obtain piece rest where s: "split_at_byte e b = Some (piece, rest)" "b = piece @ rest"
      "piece \<noteq> []" "str_len piece \<le> hard_limit c" "length rest < length b"
      using next_splits [OF assms] by metis
    show ?thesis
    proof (cases "stop c rest")
      case True
      then show ?thesis
        using Some s stop_small [OF assms] by (subst drain_loop.simps) simp
    next
      case False
      obtain pieces rest' where "drain_loop (next_end c) (stop c) rest = Some (pieces, rest')"
        "concat pieces @ rest' = rest" "str_len rest' < hard_limit c"
        "\<forall>p \<in> set pieces. p \<noteq> [] \<and> str_len p \<le> hard_limit c"
        using less [OF s(5)] by blast
      then show ?thesis using Some s False by (subst drain_loop.simps) simp
    qed
  qed
qed

end

section \<open>Phrase chunker\<close>

record PhraseChunkingConfig =
  pc_soft_limit_bytes :: nat
  pc_hard_limit_bytes :: nat

definition PhraseChunkingConfig_new :: "nat \<Rightarrow> nat \<Rightarrow> PhraseChunkingConfig result" where
  "PhraseChunkingConfig_new soft hard =
     (if soft = 0 then Inl (configuration_error ''phrase soft byte limit must be non-zero'')
      else if hard = 0 then Inl (configuration_error ''phrase hard byte limit must be non-zero'')
      else if soft > hard
      then Inl (configuration_error ''phrase soft byte limit must not exceed hard byte limit'')
      else if hard < MAX_UTF8_SCALAR_BYTES
      then Inl (configuration_error ''phrase hard byte limit must be at least 4 to preserve UTF-8 scalar boundaries'')
      else Inr \<lparr>pc_soft_limit_bytes = soft, pc_hard_limit_bytes = hard\<rparr>)"

definition PhraseChunkingConfig_default :: PhraseChunkingConfig where
  "PhraseChunkingConfig_default = \<lparr>pc_soft_limit_bytes = 96, pc_hard_limit_bytes = 192\<rparr>"

record PhraseChunker =
  ph_config :: PhraseChunkingConfig
  ph_buffer :: rstring

definition PhraseChunker_new :: "PhraseChunkingConfig \<Rightarrow> PhraseChunker" where
  "PhraseChunker_new config = \<lparr>ph_config = config, ph_buffer = []\<rparr>"

definition is_sentence_boundary :: "rchar \<Rightarrow> bool" where
  "is_sentence_boundary c \<longleftrightarrow> c \<in> {46, 33, 63, 12290, 65281, 65311}"

definition is_soft_boundary :: "rchar \<Rightarrow> bool" where
  "is_soft_boundary c \<longleftrightarrow> is_whitespace c \<or> c \<in> {44, 58, 59, 65292, 65306, 65307}"

text \<open>The loop over the character offsets in \<open>hard_split_end\<close>.\<close>

fun last_index_within :: "nat \<Rightarrow> nat \<Rightarrow> nat list \<Rightarrow> nat" where
  "last_index_within hard e [] = e"
| "last_index_within hard e (i # is) = (if i > hard then e else last_index_within hard i is)"

definition second_index :: "rstring \<Rightarrow> nat" where
  "second_index buffer =
     (case char_indices buffer of _ # (i, _) # _ \<Rightarrow> i | _ \<Rightarrow> str_len buffer)"

definition phrase_hard_split_end :: "PhraseChunkingConfig \<Rightarrow> rstring \<Rightarrow> nat" where
  "phrase_hard_split_end config buffer =
     (if str_len buffer \<le> pc_hard_limit_bytes config then str_len buffer
      else let e = last_index_within (pc_hard_limit_bytes config) 0 (map fst (char_indices buffer))
           in if e = 0 then second_index buffer else e)"

definition option_or :: "'a option \<Rightarrow> 'a option \<Rightarrow> 'a option" where
  "option_or a b = (case a of None \<Rightarrow> b | Some x \<Rightarrow> Some x)"

fun scan_segment ::
  "PhraseChunkingConfig \<Rightarrow> rstring \<Rightarrow> (nat \<times> rchar) list \<Rightarrow> nat option \<Rightarrow> nat option \<Rightarrow> nat option
     \<Rightarrow> nat option" where
  "scan_segment config buffer [] preferred soft eligible =
     (if str_len buffer \<ge> pc_soft_limit_bytes config then option_or preferred eligible else None)"
| "scan_segment config buffer ((index, c) # rest) preferred soft eligible =
     (let e = index + len_utf8 c;
          preferred' = (if c = 10 \<or> is_sentence_boundary c then Some e else preferred);
          soft' = (if is_soft_boundary c then Some e else soft);
          eligible' = (if is_soft_boundary c \<and> e \<ge> pc_soft_limit_bytes config then Some e
                       else eligible)
      in if e > pc_hard_limit_bytes config
         then option_or preferred (option_or soft (Some (phrase_hard_split_end config buffer)))
         else if e \<ge> pc_hard_limit_bytes config
         then option_or preferred' (option_or soft' (Some (phrase_hard_split_end config buffer)))
         else scan_segment config buffer rest preferred' soft' eligible')"

definition next_segment_end :: "PhraseChunkingConfig \<Rightarrow> rstring \<Rightarrow> nat option" where
  "next_segment_end config buffer =
     scan_segment config buffer (char_indices buffer) None None None"

text \<open>What \<open>drain_segment\<close> returns for a piece it has cut off.\<close>

definition spoken :: "rstring \<Rightarrow> rstring option" where
  "spoken segment = (let s = trim segment in if s = [] then None else Some s)"

definition drain_segment :: "PhraseChunker \<Rightarrow> nat \<Rightarrow> (PhraseChunker \<times> rstring option) option" where
  "drain_segment ch e =
     map_option (\<lambda>(segment, rest). (ch\<lparr>ph_buffer := rest\<rparr>, spoken segment))
       (split_at_byte e (ph_buffer ch))"

definition phrase_push_delta :: "PhraseChunker \<Rightarrow> rstring \<Rightarrow> (PhraseChunker \<times> rstring list) option" where
  "phrase_push_delta ch delta =
     map_option (\<lambda>(pieces, rest). (ch\<lparr>ph_buffer := rest\<rparr>, List.map_filter spoken pieces))
       (drain_loop (next_segment_end (ph_config ch)) (\<lambda>rest. False) (ph_buffer ch @ delta))"

definition phrase_finish :: "PhraseChunker \<Rightarrow> rstring option option" where
  "phrase_finish ch = map_option snd (drain_segment ch (str_len (ph_buffer ch)))"

section \<open>Utterance assembler\<close>

record UtteranceAssembler =
  ua_soft_limit_bytes :: nat
  ua_hard_limit_bytes :: nat
  ua_buffer :: rstring

definition UtteranceAssembler_new :: "nat \<Rightarrow> nat \<Rightarrow> UtteranceAssembler result" where
  "UtteranceAssembler_new soft hard =
     (if soft = 0 then Inl (configuration_error ''utterance soft byte limit must be non-zero'')
      else if hard = 0 then Inl (configuration_error ''utterance hard byte limit must be non-zero'')
      else if soft > hard
      then Inl (configuration_error ''utterance soft byte limit must not exceed hard byte limit'')
      else if hard < MAX_UTF8_SCALAR_BYTES
      then Inl (configuration_error ''utterance hard byte limit must be at least 4 to preserve UTF-8 scalar boundaries'')
      else Inr \<lparr>ua_soft_limit_bytes = soft, ua_hard_limit_bytes = hard, ua_buffer = []\<rparr>)"

definition UtteranceAssembler_default :: UtteranceAssembler where
  "UtteranceAssembler_default =
     \<lparr>ua_soft_limit_bytes = 384, ua_hard_limit_bytes = 1024, ua_buffer = []\<rparr>"

text \<open>\<^verbatim>\<open>match_indices\<close> of two newlines: the offsets of the matches, which do not overlap.\<close>

fun blank_line_indices :: "nat \<Rightarrow> rstring \<Rightarrow> nat list" where
  "blank_line_indices i (c # d # s) =
     (if c = 10 \<and> d = 10 then i # blank_line_indices (i + 2) s
      else blank_line_indices (i + len_utf8 c) (d # s))"
| "blank_line_indices i _ = []"

definition paragraph_boundaries :: "rstring \<Rightarrow> nat \<Rightarrow> nat list" where
  "paragraph_boundaries input hard =
     takeWhile (\<lambda>e. e \<le> hard) (map (\<lambda>i. i + 2) (blank_line_indices 0 input))"

definition is_safe_boundary :: "rchar \<Rightarrow> bool" where
  "is_safe_boundary c \<longleftrightarrow> is_whitespace c
     \<or> c \<in> {46, 33, 63, 12290, 65281, 65311, 44, 58, 59, 65292, 65306, 65307}"

definition safe_boundaries :: "rstring \<Rightarrow> nat \<Rightarrow> nat list" where
  "safe_boundaries input hard =
     List.map_filter
       (\<lambda>(index, c). let e = index + len_utf8 c
                     in if e \<le> hard \<and> is_safe_boundary c then Some e else None)
       (char_indices input)"

definition utterance_hard_split_end :: "UtteranceAssembler \<Rightarrow> rstring \<Rightarrow> nat" where
  "utterance_hard_split_end ua buffer =
     (if str_len buffer \<le> ua_hard_limit_bytes ua then str_len buffer
      else let within = takeWhile (\<lambda>i. i \<le> ua_hard_limit_bytes ua) (map fst (char_indices buffer))
           in if within \<noteq> [] \<and> last within > 0 then last within else second_index buffer)"

definition next_utterance_end :: "UtteranceAssembler \<Rightarrow> rstring \<Rightarrow> nat option" where
  "next_utterance_end ua buffer =
     (if str_len buffer < ua_soft_limit_bytes ua then None
      else let paragraphs = paragraph_boundaries buffer (ua_hard_limit_bytes ua)
      in case find (\<lambda>e. e \<le> ua_soft_limit_bytes ua) (rev paragraphs) of
           Some e \<Rightarrow> Some e
         | None \<Rightarrow>
      (case find (\<lambda>e. e \<le> ua_hard_limit_bytes ua) paragraphs of
           Some e \<Rightarrow> Some e
         | None \<Rightarrow>
             let safe = safe_boundaries buffer (ua_hard_limit_bytes ua)
             in if str_len buffer < ua_hard_limit_bytes ua
                then find (\<lambda>e. e \<ge> ua_soft_limit_bytes ua) (rev safe)
                else if safe \<noteq> [] then Some (last safe)
                else Some (utterance_hard_split_end ua buffer)))"

definition utterance_of :: "bool \<Rightarrow> rstring \<Rightarrow> rstring option" where
  "utterance_of trimmed utterance =
     (if trim utterance = [] then None
      else if trimmed then Some (trim utterance) else Some utterance)"

definition drain_utterance ::
  "UtteranceAssembler \<Rightarrow> nat \<Rightarrow> bool \<Rightarrow> (UtteranceAssembler \<times> rstring option) option" where
  "drain_utterance ua e trimmed =
     map_option (\<lambda>(utterance, rest). (ua\<lparr>ua_buffer := rest\<rparr>, utterance_of trimmed utterance))
       (split_at_byte e (ua_buffer ua))"

definition utterance_push_delta ::
  "UtteranceAssembler \<Rightarrow> rstring \<Rightarrow> (UtteranceAssembler \<times> rstring list) option" where
  "utterance_push_delta ua delta =
     map_option (\<lambda>(pieces, rest).
         (ua\<lparr>ua_buffer := rest\<rparr>, List.map_filter (utterance_of False) pieces))
       (drain_loop (next_utterance_end ua) (\<lambda>rest. str_len rest < ua_hard_limit_bytes ua)
          (ua_buffer ua @ delta))"

definition utterance_finish :: "UtteranceAssembler \<Rightarrow> rstring option option" where
  "utterance_finish ua = map_option snd (drain_utterance ua (str_len (ua_buffer ua)) True)"

section \<open>The ends the splitters choose\<close>

lemma last_index_within_last:
  "last_index_within hard e is = last (e # takeWhile (\<lambda>i. i \<le> hard) is)"
  by (induction "is" arbitrary: e) auto

lemma indices_within:
  assumes "4 \<le> hard" "hard < str_len b"
  defines "within \<equiv> takeWhile (\<lambda>i. i \<le> hard) (map fst (char_indices b))"
  shows "within \<noteq> []" "0 < last within" "last within \<le> hard" "char_boundary b (last within)"
proof -
  obtain c d s where b: "b = c # d # s"
  proof (cases b)
    case (Cons c t)
    have "len_utf8 c \<le> hard" using len_utf8_bounds(2) [of c] assms(1) by linarith
    then have "t \<noteq> []" using assms(2) Cons by (cases t) auto
    then show thesis using that Cons by (cases t) auto
  qed (use assms(2) in simp)
  have c: "0 < len_utf8 c" "len_utf8 c \<le> hard"
    using len_utf8_bounds [of c] assms(1) by linarith+
  define rest where "rest = takeWhile (\<lambda>i. i \<le> hard)
      (map fst (char_indices_from (len_utf8 c + len_utf8 d) s))"
  have w: "within = 0 # len_utf8 c # rest"
    using c by (simp add: within_def rest_def b char_indices_def)
  have "0 < j" if "j \<in> set (len_utf8 c # rest)" for j
  proof -
    from that consider "j = len_utf8 c" | "j \<in> set rest" by auto
    then show ?thesis
    proof cases
      case 2
      then have "j \<in> fst ` set (char_indices_from (len_utf8 c + len_utf8 d) s)"
        unfolding rest_def by (auto dest: set_takeWhileD)
      then show ?thesis using c by (auto simp: char_indices_from_mem)
    qed (use c in simp)
  qed
  then show "0 < last within" using w last_in_set [of "len_utf8 c # rest"] by fastforce
  show "within \<noteq> []" using w by simp
  then have "last within \<in> set within" by simp
  then have "last within \<le> hard" "last within \<in> fst ` set (char_indices b)"
    unfolding within_def by (auto dest: set_takeWhileD)
  then show "last within \<le> hard" "char_boundary b (last within)"
    using char_indices_boundary(1) by auto
qed

text \<open>A good end for a buffer and a hard limit; the searches return nothing else.\<close>

definition good_end :: "nat \<Rightarrow> rstring \<Rightarrow> nat \<Rightarrow> bool" where
  "good_end hard b e \<longleftrightarrow> char_boundary b e \<and> 0 < e \<and> e \<le> hard"

lemma good_end_whole: "str_len b \<le> hard \<Longrightarrow> b \<noteq> [] \<Longrightarrow> good_end hard b (str_len b)"
  by (simp add: good_end_def str_len_pos)

lemma good_end_index:
  "(i, c) \<in> set (char_indices b) \<Longrightarrow> i + len_utf8 c \<le> hard \<Longrightarrow> good_end hard b (i + len_utf8 c)"
  using char_indices_boundary(2) len_utf8_bounds [of c] by (auto simp: good_end_def)

lemma good_end_phrase_split:
  assumes "4 \<le> pc_hard_limit_bytes config" "b \<noteq> []"
  shows "good_end (pc_hard_limit_bytes config) b (phrase_hard_split_end config b)"
proof (cases "str_len b \<le> pc_hard_limit_bytes config")
  case True
  then show ?thesis using assms good_end_whole by (simp add: phrase_hard_split_end_def)
next
  case False
  then show ?thesis
    using indices_within [OF assms(1), of b]
    by (simp add: phrase_hard_split_end_def last_index_within_last Let_def good_end_def)
qed

lemma good_end_utterance_split:
  assumes "4 \<le> ua_hard_limit_bytes ua" "b \<noteq> []"
  shows "good_end (ua_hard_limit_bytes ua) b (utterance_hard_split_end ua b)"
proof (cases "str_len b \<le> ua_hard_limit_bytes ua")
  case True
  then show ?thesis using assms good_end_whole by (simp add: utterance_hard_split_end_def)
next
  case False
  then show ?thesis
    using indices_within [OF assms(1), of b]
    by (simp add: utterance_hard_split_end_def Let_def good_end_def)
qed

lemma option_or_cases: "option_or a b = Some e \<Longrightarrow> a = Some e \<or> b = Some e"
  by (auto simp: option_or_def split: option.splits)

lemma scan_segment_good:
  assumes "4 \<le> pc_hard_limit_bytes config" "set ics \<subseteq> set (char_indices b)"
    and "\<And>e. preferred = Some e \<or> soft = Some e \<or> eligible = Some e \<Longrightarrow>
           good_end (pc_hard_limit_bytes config) b e"
    and "scan_segment config b ics preferred soft eligible = Some e"
  shows "good_end (pc_hard_limit_bytes config) b e"
  using assms(2-4)
proof (induction ics arbitrary: preferred soft eligible)
  case Nil
  then show ?case using option_or_cases [of preferred eligible e] by (auto split: if_splits)
next
  case (Cons ic rest)
  obtain index c where ic: "ic = (index, c)" by force
  let ?hard = "pc_hard_limit_bytes config" and ?e = "index + len_utf8 c"
  have b: "b \<noteq> []" using Cons.prems(1) by (auto simp: char_indices_def)
  have here: "good_end ?hard b ?e" if "?e \<le> ?hard"
    using good_end_index [of index c b] Cons.prems(1) that ic by simp
  have split: "good_end ?hard b (phrase_hard_split_end config b)"
    using good_end_phrase_split [OF assms(1) b] .
  let ?p = "if c = 10 \<or> is_sentence_boundary c then Some ?e else preferred"
  let ?s = "if is_soft_boundary c then Some ?e else soft"
  let ?g = "if is_soft_boundary c \<and> ?e \<ge> pc_soft_limit_bytes config then Some ?e else eligible"
  have good: "good_end ?hard b x"
    if "?e \<le> ?hard" "?p = Some x \<or> ?s = Some x \<or> ?g = Some x" for x
    using that here Cons.prems(2) by (auto split: if_splits)
  consider "?e > ?hard" | "?e = ?hard" | "?e < ?hard" by linarith
  then show ?case
  proof cases
    case 1
    have "option_or preferred (option_or soft (Some (phrase_hard_split_end config b))) = Some e"
      using Cons.prems(3) unfolding ic scan_segment.simps Let_def if_P [OF 1] .
    then show ?thesis using Cons.prems(2) split by (auto dest!: option_or_cases)
  next
    case 2
    then have g: "\<not> ?hard < ?e" "?hard \<le> ?e" by simp_all
    have "option_or ?p (option_or ?s (Some (phrase_hard_split_end config b))) = Some e"
      using Cons.prems(3) unfolding ic scan_segment.simps Let_def if_not_P [OF g(1)] if_P [OF g(2)] .
    then have "?p = Some e \<or> ?s = Some e \<or> phrase_hard_split_end config b = e"
      by (blast dest: option_or_cases)
    then show ?thesis using good [of e] split 2 by auto
  next
    case 3
    then have g: "\<not> ?hard < ?e" "\<not> ?hard \<le> ?e" by simp_all
    have "scan_segment config b rest ?p ?s ?g = Some e"
      using Cons.prems(3) unfolding ic scan_segment.simps Let_def if_not_P [OF g(1)] if_not_P [OF g(2)] .
    then show ?thesis
      using Cons.prems(1) 3 good by (intro Cons.IH [of ?p ?s ?g]) auto
  qed
qed

lemma scan_segment_none:
  "scan_segment config b (char_indices_from i s) preferred soft eligible = None \<Longrightarrow>
     s = [] \<or> i + str_len s < pc_hard_limit_bytes config"
proof (induction s arbitrary: i preferred soft eligible)
  case (Cons c s)
  then have small: "i + len_utf8 c < pc_hard_limit_bytes config"
    by (auto simp: Let_def option_or_def not_le split: option.splits if_splits)
  then have "scan_segment config b (char_indices_from (i + len_utf8 c) s)
      (if c = 10 \<or> is_sentence_boundary c then Some (i + len_utf8 c) else preferred)
      (if is_soft_boundary c then Some (i + len_utf8 c) else soft)
      (if is_soft_boundary c \<and> i + len_utf8 c \<ge> pc_soft_limit_bytes config
       then Some (i + len_utf8 c) else eligible) = None"
    using Cons.prems by (simp add: Let_def)
  from Cons.IH [OF this] small show ?case by (auto simp: add.assoc)
qed simp

lemma phrase_config_ok:
  "PhraseChunkingConfig_new soft hard = Inr config \<longleftrightarrow>
     0 < soft \<and> soft \<le> hard \<and> 4 \<le> hard
     \<and> config = \<lparr>pc_soft_limit_bytes = soft, pc_hard_limit_bytes = hard\<rparr>"
  by (auto simp: PhraseChunkingConfig_new_def MAX_UTF8_SCALAR_BYTES_def)

definition phrase_valid :: "PhraseChunkingConfig \<Rightarrow> bool" where
  "phrase_valid config \<longleftrightarrow> 0 < pc_soft_limit_bytes config
     \<and> pc_soft_limit_bytes config \<le> pc_hard_limit_bytes config \<and> 4 \<le> pc_hard_limit_bytes config"

lemma next_segment_good:
  assumes "phrase_valid config" "next_segment_end config b = Some e"
  shows "good_end (pc_hard_limit_bytes config) b e"
  using assms scan_segment_good [of config "char_indices b" b None None None e]
  by (auto simp: next_segment_end_def phrase_valid_def)

lemma next_segment_none:
  assumes "phrase_valid config" "next_segment_end config b = None"
  shows "str_len b < pc_hard_limit_bytes config"
  using assms scan_segment_none [of config b 0 b None None None]
  by (auto simp: next_segment_end_def char_indices_def phrase_valid_def)

interpretation phrase: segmenter phrase_valid next_segment_end "\<lambda>config rest. False"
  pc_hard_limit_bytes
  by unfold_locales
    (auto dest: next_segment_good next_segment_none simp: good_end_def)

definition utterance_valid :: "UtteranceAssembler \<Rightarrow> bool" where
  "utterance_valid ua \<longleftrightarrow> 0 < ua_soft_limit_bytes ua
     \<and> ua_soft_limit_bytes ua \<le> ua_hard_limit_bytes ua \<and> 4 \<le> ua_hard_limit_bytes ua"

lemma blank_line_indices_mem:
  "j \<in> set (blank_line_indices i s) \<Longrightarrow> \<exists>a b. s = a @ [10, 10] @ b \<and> j = i + str_len a"
proof (induction i s rule: blank_line_indices.induct)
  case (1 i c d s)
  show ?case
  proof (cases "c = 10 \<and> d = 10")
    case True
    then consider "j = i" | "j \<in> set (blank_line_indices (i + 2) s)" using 1(3) by auto
    then show ?thesis
    proof cases
      case 1
      then show ?thesis using True by (intro exI [of _ "[]"] exI [of _ s]) simp
    next
      case 2
      then obtain a b where "s = a @ [10, 10] @ b" "j = i + 2 + str_len a"
        using "1.IH"(1) True by blast
      then show ?thesis
        using True by (intro exI [of _ "c # d # a"] exI [of _ b]) (simp add: len_utf8_def)
    qed
  next
    case False
    then obtain a b where "d # s = a @ [10, 10] @ b" "j = i + len_utf8 c + str_len a"
      using "1.IH"(2) 1(3) by auto
    then show ?thesis by (intro exI [of _ "c # a"] exI [of _ b]) simp
  qed
qed auto

lemma paragraph_boundaries_good:
  "e \<in> set (paragraph_boundaries b hard) \<Longrightarrow> good_end hard b e"
proof -
  assume "e \<in> set (paragraph_boundaries b hard)"
  then have "e \<in> set (map (\<lambda>i. i + 2) (blank_line_indices 0 b)) \<and> e \<le> hard"
    unfolding paragraph_boundaries_def by (rule set_takeWhileD)
  then have "e \<le> hard" "\<exists>j \<in> set (blank_line_indices 0 b). e = j + 2" by auto
  then obtain j where j: "j \<in> set (blank_line_indices 0 b)" "e = j + 2" by blast
  from blank_line_indices_mem [OF j(1)] j(2)
  obtain a t where "b = a @ [10, 10] @ t" "e = str_len a + 2" by auto
  then have "char_boundary b e"
    unfolding char_boundary_iff
    by (intro exI [of _ "a @ [10, 10]"] exI [of _ t]) (simp add: len_utf8_def)
  then show ?thesis using \<open>e \<le> hard\<close> \<open>e = str_len a + 2\<close> by (simp add: good_end_def)
qed

lemma safe_boundaries_good: "e \<in> set (safe_boundaries b hard) \<Longrightarrow> good_end hard b e"
  using good_end_index [of _ _ b hard]
  by (auto simp: safe_boundaries_def List.map_filter_def Let_def split: if_splits)

lemma next_utterance_good:
  assumes "utterance_valid ua" "next_utterance_end ua b = Some e"
  shows "good_end (ua_hard_limit_bytes ua) b e"
proof -
  have "b \<noteq> []" using assms by (auto simp: next_utterance_end_def utterance_valid_def)
  then have split: "good_end (ua_hard_limit_bytes ua) b (utterance_hard_split_end ua b)"
    using assms good_end_utterance_split by (simp add: utterance_valid_def)
  have "e \<in> set (paragraph_boundaries b (ua_hard_limit_bytes ua))
      \<or> e \<in> set (safe_boundaries b (ua_hard_limit_bytes ua))
      \<or> e = utterance_hard_split_end ua b"
    using assms(2)
    by (auto simp: next_utterance_end_def Let_def find_Some_iff
        split: if_splits option.splits) (metis in_set_conv_nth length_rev nth_mem set_rev)+
  then show ?thesis using split paragraph_boundaries_good safe_boundaries_good by blast
qed

lemma next_utterance_none:
  assumes "utterance_valid ua" "next_utterance_end ua b = None"
  shows "str_len b < ua_hard_limit_bytes ua"
  using assms by (auto simp: next_utterance_end_def utterance_valid_def Let_def
      split: if_splits option.splits)

interpretation utterance: segmenter utterance_valid next_utterance_end
  "\<lambda>ua rest. str_len rest < ua_hard_limit_bytes ua" ua_hard_limit_bytes
  by unfold_locales
    (auto dest: next_utterance_good next_utterance_none simp: good_end_def)

section \<open>Whole streams\<close>

text \<open>
  What a consumer hears of a response: the pieces each delta releases, then what \<open>finish\<close> releases.
\<close>

fun phrase_stream :: "PhraseChunker \<Rightarrow> rstring list \<Rightarrow> rstring list option" where
  "phrase_stream ch [] =
     map_option (\<lambda>final. case final of None \<Rightarrow> [] | Some p \<Rightarrow> [p]) (phrase_finish ch)"
| "phrase_stream ch (d # ds) =
     (case phrase_push_delta ch d of
        None \<Rightarrow> None
      | Some (ch', ps) \<Rightarrow> map_option (\<lambda>qs. ps @ qs) (phrase_stream ch' ds))"

fun utterance_stream :: "UtteranceAssembler \<Rightarrow> rstring list \<Rightarrow> rstring list option" where
  "utterance_stream ua [] =
     map_option (\<lambda>final. case final of None \<Rightarrow> [] | Some p \<Rightarrow> [p]) (utterance_finish ua)"
| "utterance_stream ua (d # ds) =
     (case utterance_push_delta ua d of
        None \<Rightarrow> None
      | Some (ua', us) \<Rightarrow> map_option (\<lambda>qs. us @ qs) (utterance_stream ua' ds))"

lemma solid_map_filter:
  assumes "\<And>x. (case f x of None \<Rightarrow> [] | Some y \<Rightarrow> solid y) = solid x"
  shows "solid (concat (List.map_filter f xs)) = solid (concat xs)"
proof (induction xs)
  case (Cons x xs)
  then show ?case
    using assms [of x] by (cases "f x") (simp_all add: List.map_filter_simps)
qed (simp add: List.map_filter_simps)

lemma solid_spoken: "(case spoken x of None \<Rightarrow> [] | Some y \<Rightarrow> solid y) = solid x"
  using solid_Nil_iff [of x] by (auto simp: spoken_def Let_def)

lemma solid_utterance_of: "(case utterance_of t x of None \<Rightarrow> [] | Some y \<Rightarrow> solid y) = solid x"
  using solid_Nil_iff [of x] by (auto simp: utterance_of_def)

lemma spoken_bounds: "spoken x = Some y \<Longrightarrow> y \<noteq> [] \<and> str_len y \<le> str_len x"
  by (auto simp: spoken_def Let_def str_len_trim split: if_splits)

lemma utterance_of_bounds: "utterance_of t x = Some y \<Longrightarrow> y \<noteq> [] \<and> str_len y \<le> str_len x"
  by (auto simp: utterance_of_def str_len_trim split: if_splits)

lemma map_filter_mem: "y \<in> set (List.map_filter f xs) \<longleftrightarrow> (\<exists>x \<in> set xs. f x = Some y)"
  by (induction xs) (auto simp: List.map_filter_simps split: option.splits)

lemma phrase_push_total:
  assumes "phrase_valid (ph_config ch)"
  shows "\<exists>ch' ps. phrase_push_delta ch delta = Some (ch', ps) \<and> ph_config ch' = ph_config ch
     \<and> str_len (ph_buffer ch') < pc_hard_limit_bytes (ph_config ch)
     \<and> solid (concat ps) @ solid (ph_buffer ch') = solid (ph_buffer ch @ delta)
     \<and> (\<forall>p \<in> set ps. p \<noteq> [] \<and> str_len p \<le> pc_hard_limit_bytes (ph_config ch))"
proof -
  obtain pieces rest where loop:
    "drain_loop (next_segment_end (ph_config ch)) (\<lambda>rest. False) (ph_buffer ch @ delta)
       = Some (pieces, rest)"
    "concat pieces @ rest = ph_buffer ch @ delta"
    "str_len rest < pc_hard_limit_bytes (ph_config ch)"
    "\<forall>p \<in> set pieces. p \<noteq> [] \<and> str_len p \<le> pc_hard_limit_bytes (ph_config ch)"
    using phrase.drain_loop_total [OF assms, of "ph_buffer ch @ delta"] by blast
  have "solid (concat (List.map_filter spoken pieces)) @ solid rest = solid (ph_buffer ch @ delta)"
    unfolding loop(2) [symmetric] by (simp add: solid_map_filter [of spoken, OF solid_spoken])
  moreover have "p \<noteq> [] \<and> str_len p \<le> pc_hard_limit_bytes (ph_config ch)"
    if "p \<in> set (List.map_filter spoken pieces)" for p
    using that loop(4) spoken_bounds [of _ p] by (fastforce simp: map_filter_mem)
  ultimately show ?thesis using loop by (simp add: phrase_push_delta_def)
qed

lemma utterance_push_total:
  assumes "utterance_valid ua"
  shows "\<exists>ua' us. utterance_push_delta ua delta = Some (ua', us)
     \<and> ua' = ua\<lparr>ua_buffer := ua_buffer ua'\<rparr>
     \<and> str_len (ua_buffer ua') < ua_hard_limit_bytes ua
     \<and> solid (concat us) @ solid (ua_buffer ua') = solid (ua_buffer ua @ delta)
     \<and> (\<forall>p \<in> set us. p \<noteq> [] \<and> str_len p \<le> ua_hard_limit_bytes ua)"
proof -
  obtain pieces rest where loop:
    "drain_loop (next_utterance_end ua) (\<lambda>rest. str_len rest < ua_hard_limit_bytes ua)
       (ua_buffer ua @ delta) = Some (pieces, rest)"
    "concat pieces @ rest = ua_buffer ua @ delta"
    "str_len rest < ua_hard_limit_bytes ua"
    "\<forall>p \<in> set pieces. p \<noteq> [] \<and> str_len p \<le> ua_hard_limit_bytes ua"
    using utterance.drain_loop_total [OF assms, of "ua_buffer ua @ delta"] by blast
  have "solid (concat (List.map_filter (utterance_of False) pieces)) @ solid rest
      = solid (ua_buffer ua @ delta)"
    unfolding loop(2) [symmetric]
    by (simp add: solid_map_filter [of "utterance_of False", OF solid_utterance_of])
  moreover have "p \<noteq> [] \<and> str_len p \<le> ua_hard_limit_bytes ua"
    if "p \<in> set (List.map_filter (utterance_of False) pieces)" for p
    using that loop(4) utterance_of_bounds [of False _ p] by (fastforce simp: map_filter_mem)
  ultimately show ?thesis using loop by (simp add: utterance_push_delta_def)
qed

lemma phrase_stream_total:
  assumes "phrase_valid (ph_config ch)" "str_len (ph_buffer ch) < pc_hard_limit_bytes (ph_config ch)"
  shows "\<exists>ps. phrase_stream ch ds = Some ps
     \<and> solid (concat ps) = solid (ph_buffer ch @ concat ds)
     \<and> (\<forall>p \<in> set ps. p \<noteq> [] \<and> str_len p \<le> pc_hard_limit_bytes (ph_config ch))"
  using assms
proof (induction ds arbitrary: ch)
  case Nil
  have "split_at_byte (str_len (ph_buffer ch)) (ph_buffer ch) = Some (ph_buffer ch, [])"
    using split_at_byte_append [of "ph_buffer ch" "[]"] by simp
  then have "phrase_finish ch = Some (spoken (ph_buffer ch))"
    by (simp add: phrase_finish_def drain_segment_def)
  then show ?case
    using solid_spoken [of "ph_buffer ch"] spoken_bounds [of "ph_buffer ch"] Nil(2)
    by (cases "spoken (ph_buffer ch)") auto
next
  case (Cons d ds)
  obtain ch' ps where push: "phrase_push_delta ch d = Some (ch', ps)" "ph_config ch' = ph_config ch"
    "str_len (ph_buffer ch') < pc_hard_limit_bytes (ph_config ch)"
    "solid (concat ps) @ solid (ph_buffer ch') = solid (ph_buffer ch @ d)"
    "\<forall>p \<in> set ps. p \<noteq> [] \<and> str_len p \<le> pc_hard_limit_bytes (ph_config ch)"
    using phrase_push_total [OF Cons(2), of d] by blast
  obtain qs where rest: "phrase_stream ch' ds = Some qs"
    "solid (concat qs) = solid (ph_buffer ch' @ concat ds)"
    "\<forall>p \<in> set qs. p \<noteq> [] \<and> str_len p \<le> pc_hard_limit_bytes (ph_config ch')"
    using Cons(1) [of ch'] push Cons(2) by auto
  have "solid (concat (ps @ qs)) = (solid (concat ps) @ solid (ph_buffer ch')) @ solid (concat ds)"
    using rest(2) by simp
  also have "\<dots> = solid (ph_buffer ch @ concat (d # ds))" unfolding push(4) by simp
  finally show ?case using push rest by auto
qed

lemma utterance_stream_total:
  assumes "utterance_valid ua" "str_len (ua_buffer ua) < ua_hard_limit_bytes ua"
  shows "\<exists>us. utterance_stream ua ds = Some us
     \<and> solid (concat us) = solid (ua_buffer ua @ concat ds)
     \<and> (\<forall>p \<in> set us. p \<noteq> [] \<and> str_len p \<le> ua_hard_limit_bytes ua)"
  using assms
proof (induction ds arbitrary: ua)
  case Nil
  have "split_at_byte (str_len (ua_buffer ua)) (ua_buffer ua) = Some (ua_buffer ua, [])"
    using split_at_byte_append [of "ua_buffer ua" "[]"] by simp
  then have "utterance_finish ua = Some (utterance_of True (ua_buffer ua))"
    by (simp add: utterance_finish_def drain_utterance_def)
  then show ?case
    using solid_utterance_of [of True "ua_buffer ua"] utterance_of_bounds [of True "ua_buffer ua"]
      Nil(2) by (cases "utterance_of True (ua_buffer ua)") auto
next
  case (Cons d ds)
  obtain ua' us where push: "utterance_push_delta ua d = Some (ua', us)"
    "ua' = ua\<lparr>ua_buffer := ua_buffer ua'\<rparr>" "str_len (ua_buffer ua') < ua_hard_limit_bytes ua"
    "solid (concat us) @ solid (ua_buffer ua') = solid (ua_buffer ua @ d)"
    "\<forall>p \<in> set us. p \<noteq> [] \<and> str_len p \<le> ua_hard_limit_bytes ua"
    using utterance_push_total [OF Cons(2), of d] by blast
  have same: "ua_hard_limit_bytes ua' = ua_hard_limit_bytes ua" "utterance_valid ua'"
    using arg_cong [OF push(2), of ua_hard_limit_bytes] arg_cong [OF push(2), of ua_soft_limit_bytes]
      Cons(2) by (simp_all add: utterance_valid_def)
  obtain qs where rest: "utterance_stream ua' ds = Some qs"
    "solid (concat qs) = solid (ua_buffer ua' @ concat ds)"
    "\<forall>p \<in> set qs. p \<noteq> [] \<and> str_len p \<le> ua_hard_limit_bytes ua'"
    using Cons(1) [OF same(2)] push same by auto
  have "solid (concat (us @ qs)) = (solid (concat us) @ solid (ua_buffer ua')) @ solid (concat ds)"
    using rest(2) by simp
  also have "\<dots> = solid (ua_buffer ua @ concat (d # ds))" unfolding push(4) by simp
  finally show ?case using push rest same by auto
qed

section \<open>Properties\<close>

text \<open>
  C24: For every accepted configuration and every sequence of deltas, however they are split, the
  phrase chunker returns, never cuts inside a character, and speaks the response: the phrases
  together contain exactly the response's non-blank characters in order, and no phrase is empty or
  longer than the hard byte limit.
\<close>

theorem phrases_speak_the_response:
  assumes "PhraseChunkingConfig_new soft hard = Inr config"
  shows "\<exists>ps. phrase_stream (PhraseChunker_new config) deltas = Some ps
     \<and> solid (concat ps) = solid (concat deltas) \<and> (\<forall>p \<in> set ps. p \<noteq> [] \<and> str_len p \<le> hard)"
proof -
  have "phrase_valid config" "pc_hard_limit_bytes config = hard" "0 < hard"
    using assms by (auto simp: phrase_config_ok phrase_valid_def)
  then show ?thesis
    using phrase_stream_total [of "PhraseChunker_new config" deltas]
    by (simp add: PhraseChunker_new_def)
qed

theorem phrases_speak_the_response_witness:
  "\<exists>ps. phrase_stream (PhraseChunker_new PhraseChunkingConfig_default) [[72, 105, 46], [32, 79, 107]]
       = Some ps \<and> solid (concat ps) = [72, 105, 46, 79, 107]"
proof -
  have "solid (concat [[72, 105, 46], [32, 79, 107]]) = [72, 105, 46, 79, 107]"
    by (simp add: is_whitespace_def)
  moreover have "PhraseChunkingConfig_new 96 192 = Inr PhraseChunkingConfig_default"
    by (simp add: phrase_config_ok PhraseChunkingConfig_default_def)
  ultimately show ?thesis
    using phrases_speak_the_response [of 96 192 PhraseChunkingConfig_default
        "[[72, 105, 46], [32, 79, 107]]"] by metis
qed

text \<open>
  C15: The utterance assembler has the same guarantee: it returns on every sequence of deltas, keeps
  every utterance non-empty and within the hard byte limit, and neither loses, repeats nor reorders
  a non-blank character.
\<close>

theorem utterances_keep_the_response:
  assumes "UtteranceAssembler_new soft hard = Inr ua"
  shows "\<exists>us. utterance_stream ua deltas = Some us
     \<and> solid (concat us) = solid (concat deltas) \<and> (\<forall>p \<in> set us. p \<noteq> [] \<and> str_len p \<le> hard)"
proof -
  have "utterance_valid ua" "ua_hard_limit_bytes ua = hard" "0 < hard" "ua_buffer ua = []"
    using assms
    by (auto simp: UtteranceAssembler_new_def utterance_valid_def MAX_UTF8_SCALAR_BYTES_def
        split: if_splits)
  then show ?thesis using utterance_stream_total [of ua deltas] by simp
qed

theorem utterances_keep_the_response_witness:
  "\<exists>us. utterance_stream UtteranceAssembler_default [[72, 105, 10, 10], [79, 107]] = Some us
     \<and> solid (concat us) = [72, 105, 79, 107]"
proof -
  have "solid (concat [[72, 105, 10, 10], [79, 107]]) = [72, 105, 79, 107]"
    by (simp add: is_whitespace_def)
  moreover have "UtteranceAssembler_new 384 1024 = Inr UtteranceAssembler_default"
    by (simp add: UtteranceAssembler_new_def UtteranceAssembler_default_def MAX_UTF8_SCALAR_BYTES_def)
  ultimately show ?thesis
    using utterances_keep_the_response [of 384 1024 UtteranceAssembler_default
        "[[72, 105, 10, 10], [79, 107]]"] by metis
qed

end
