(* ===== verification/Byte_Codec.thy ===== *)
theory Byte_Codec
  imports Quality_Protocol
begin

text \<open>
  Byte strings shared by the capture and recording formats: UTF-8 as the standard library encodes
  and checks it, big-endian fields, and a cursor that hands out a byte string from the front. The
  lemmas are exact in both directions: what an encoder writes is what the decoder accepts.
\<close>

section \<open>Adapter errors\<close>

datatype AdapterError = AdapterError (ae_message: string) (ae_stage: "RuntimeStage option")

type_synonym 'a adapter = "AdapterError + 'a"

definition AdapterError_new :: "string \<Rightarrow> AdapterError" where
  "AdapterError_new m = AdapterError m None"

section \<open>UTF-8\<close>

text \<open>The characters a Rust string can hold: Unicode scalar values.\<close>

definition scalar :: "rchar \<Rightarrow> bool" where
  "scalar c \<longleftrightarrow> c < 0xD800 \<or> (0xE000 \<le> c \<and> c < 0x110000)"

definition valid_str :: "rstring \<Rightarrow> bool" where
  "valid_str s \<longleftrightarrow> list_all scalar s"

definition byte_of :: "nat \<Rightarrow> byte" where
  "byte_of n = of_nat n"

definition utf8_char :: "rchar \<Rightarrow> byte list" where
  "utf8_char c =
     (if c < 0x80 then [byte_of c]
      else if c < 0x800 then [byte_of (0xC0 + c div 64), byte_of (0x80 + c mod 64)]
      else if c < 0x10000
      then [byte_of (0xE0 + c div 4096), byte_of (0x80 + c div 64 mod 64), byte_of (0x80 + c mod 64)]
      else [byte_of (0xF0 + c div 262144), byte_of (0x80 + c div 4096 mod 64),
            byte_of (0x80 + c div 64 mod 64), byte_of (0x80 + c mod 64)])"

definition as_bytes :: "rstring \<Rightarrow> byte list" where
  "as_bytes s = concat (map utf8_char s)"

definition continuation :: "byte \<Rightarrow> bool" where
  "continuation b \<longleftrightarrow> 0x80 \<le> unat b \<and> unat b < 0xC0"

text \<open>The first character of a byte string and the bytes after it, as \<^verbatim>\<open>str::from_utf8\<close> accepts it.\<close>

fun utf8_first :: "byte list \<Rightarrow> (rchar \<times> byte list) option" where
  "utf8_first [] = None"
| "utf8_first (a # r) =
     (if unat a < 0x80 then Some (unat a, r)
      else if 0xC2 \<le> unat a \<and> unat a < 0xE0 then
        (case r of
           b # r' \<Rightarrow> if continuation b then Some ((unat a - 0xC0) * 64 + (unat b - 0x80), r') else None
         | _ \<Rightarrow> None)
      else if 0xE0 \<le> unat a \<and> unat a < 0xF0 then
        (case r of
           b # c # r' \<Rightarrow>
             let p = (unat a - 0xE0) * 4096 + (unat b - 0x80) * 64 + (unat c - 0x80)
             in if continuation b \<and> continuation c \<and> 0x800 \<le> p \<and> scalar p then Some (p, r') else None
         | _ \<Rightarrow> None)
      else if 0xF0 \<le> unat a \<and> unat a < 0xF5 then
        (case r of
           b # c # d # r' \<Rightarrow>
             let p = (unat a - 0xF0) * 262144 + (unat b - 0x80) * 4096 + (unat c - 0x80) * 64
                     + (unat d - 0x80)
             in if continuation b \<and> continuation c \<and> continuation d \<and> 0x10000 \<le> p \<and> scalar p
                then Some (p, r') else None
         | _ \<Rightarrow> None)
      else None)"

lemma utf8_first_shorter: "utf8_first bs = Some (c, r) \<Longrightarrow> length r < length bs"
  by (cases bs) (auto simp: Let_def split: if_splits list.splits)

function from_utf8 :: "byte list \<Rightarrow> rstring option" where
  "from_utf8 [] = Some []"
| "from_utf8 (b # bs) =
     (case utf8_first (b # bs) of
        None \<Rightarrow> None
      | Some (c, r) \<Rightarrow> map_option (\<lambda>s. c # s) (from_utf8 r))"
  by pat_completeness auto
termination
  by (relation "measure length") (auto dest: utf8_first_shorter simp del: utf8_first.simps)

lemma unat_byte: "n < 256 \<Longrightarrow> unat (byte_of n) = n"
  by (simp add: byte_of_def unat_of_nat)

lemma byte_of_unat [simp]: "byte_of (unat b) = b"
  by (simp add: byte_of_def)

lemma length_utf8_char: "length (utf8_char c) = len_utf8 c"
  by (simp add: utf8_char_def len_utf8_def)

lemma length_as_bytes [simp]: "length (as_bytes s) = str_len s"
  by (induction s) (simp_all add: as_bytes_def length_utf8_char)

lemma as_bytes_simps [simp]:
  "as_bytes [] = []" "as_bytes (c # s) = utf8_char c @ as_bytes s"
  by (simp_all add: as_bytes_def)

lemma base_64_digits:
  "c div 4096 * 4096 + c div 64 mod 64 * 64 + c mod 64 = (c :: nat)"
  "c div 262144 * 262144 + c div 4096 mod 64 * 4096 + c div 64 mod 64 * 64 + c mod 64 = c"
proof -
  have q: "c div 4096 = c div 64 div 64" "c div 262144 = c div 4096 div 64"
    by (simp_all flip: div_mult2_eq)
  show d: "c div 4096 * 4096 + c div 64 mod 64 * 64 + c mod 64 = c"
    using div_mult_mod_eq [of c 64] div_mult_mod_eq [of "c div 64" 64] q(1) by linarith
  show "c div 262144 * 262144 + c div 4096 mod 64 * 4096 + c div 64 mod 64 * 64 + c mod 64 = c"
    using d div_mult_mod_eq [of "c div 4096" 64] q(2) by linarith
qed

lemma base_64_parts:
  assumes "m < 64" "l < (64 :: nat)"
  shows "(h * 4096 + m * 64 + l) div 4096 = h"
    and "(h * 4096 + m * 64 + l) div 64 mod 64 = m" and "(h * 4096 + m * 64 + l) mod 64 = l"
proof -
  have e: "h * 4096 + m * 64 + l = (h * 64 + m) * 64 + l" by simp
  have d: "(h * 4096 + m * 64 + l) div 64 = h * 64 + m"
    unfolding e using assms(2) by (subst div_mult_self3) simp_all
  show "(h * 4096 + m * 64 + l) mod 64 = l"
    unfolding e using assms(2) by (subst mod_mult_self3) simp
  show "(h * 4096 + m * 64 + l) div 64 mod 64 = m" unfolding d using assms(1) by simp
  have "(h * 4096 + m * 64 + l) div 4096 = (h * 4096 + m * 64 + l) div 64 div 64"
    by (simp flip: div_mult2_eq)
  then show "(h * 4096 + m * 64 + l) div 4096 = h" unfolding d using assms(1) by simp
qed

lemma utf8_first_char:
  assumes "scalar c"
  shows "utf8_first (utf8_char c @ r) = Some (c, r)"
proof -
  have c: "c < 0x110000" using assms by (auto simp: scalar_def)
  consider "c < 0x80" | "0x80 \<le> c" "c < 0x800" | "0x800 \<le> c" "c < 0x10000" | "0x10000 \<le> c"
    by linarith
  then show ?thesis
  proof cases
    case 1
    then show ?thesis by (simp add: utf8_char_def unat_byte)
  next
    case 2
    define h l where "h = c div 64" and "l = c mod 64"
    then have hl: "2 \<le> h" "h < 32" "l < 64" "h * 64 + l = c" using 2 by auto
    have "utf8_char c = [byte_of (0xC0 + h), byte_of (0x80 + l)]"
      using 2 by (simp add: utf8_char_def h_def l_def)
    then show ?thesis using hl by (simp add: unat_byte continuation_def)
  next
    case 3
    note d = base_64_digits(1) [of c]
    have "c div 4096 < 16" using 3 by auto
    then show ?thesis
      using 3 d assms by (simp add: utf8_char_def unat_byte continuation_def Let_def)
  next
    case 4
    note d = base_64_digits(2) [of c]
    have "c div 262144 < 5" using c by auto
    then show ?thesis
      using 4 d assms by (simp add: utf8_char_def unat_byte continuation_def Let_def)
  qed
qed

lemma utf8_char_not_Nil [simp]: "utf8_char c \<noteq> []"
  by (simp add: utf8_char_def)

lemma from_utf8_step: "bs \<noteq> [] \<Longrightarrow> from_utf8 bs =
     (case utf8_first bs of None \<Rightarrow> None | Some (c, r) \<Rightarrow> map_option (\<lambda>s. c # s) (from_utf8 r))"
  by (cases bs) (simp_all del: utf8_first.simps)

lemma from_utf8_as_bytes: "valid_str s \<Longrightarrow> from_utf8 (as_bytes s) = Some s"
  by (induction s) (simp_all add: valid_str_def from_utf8_step utf8_first_char)

lemma utf8_first_sound:
  assumes "utf8_first bs = Some (c, r)"
  shows "scalar c \<and> bs = utf8_char c @ r"
proof (cases bs)
  case (Cons a t)
  consider "unat a < 0x80" | "0xC2 \<le> unat a" "unat a < 0xE0" | "0xE0 \<le> unat a" "unat a < 0xF0"
    | "0xF0 \<le> unat a" "unat a < 0xF5"
    using assms Cons by (auto split: if_splits)
  then show ?thesis
  proof cases
    case 1
    then show ?thesis using assms Cons by (auto simp: utf8_char_def scalar_def)
  next
    case 2
    then obtain b where t: "t = b # r" "continuation b" "c = (unat a - 0xC0) * 64 + (unat b - 0x80)"
      using assms Cons by (auto split: list.splits if_splits)
    define h l where "h = unat a - 0xC0" and "l = unat b - 0x80"
    then have hl: "2 \<le> h" "h < 32" "l < 64" "unat a = 0xC0 + h" "unat b = 0x80 + l" "c = h * 64 + l"
      using 2 t by (auto simp: continuation_def)
    have ab: "byte_of (0xC0 + h) = a" "byte_of (0x80 + l) = b"
      using hl(4,5) by (metis byte_of_unat)+
    have "c div 64 = h" "c mod 64 = l" "0x80 \<le> c" "c < 0x800" using hl by auto
    then have "utf8_char c = [byte_of (0xC0 + h), byte_of (0x80 + l)]" by (simp add: utf8_char_def)
    then show ?thesis using ab Cons t hl by (auto simp: scalar_def)
  next
    case 3
    then obtain b d where t: "t = b # d # r" "continuation b" "continuation d" "0x800 \<le> c" "scalar c"
      "c = (unat a - 0xE0) * 4096 + (unat b - 0x80) * 64 + (unat d - 0x80)"
      using assms Cons by (auto simp: Let_def split: list.splits if_splits)
    define h m l where "h = unat a - 0xE0" and "m = unat b - 0x80" and "l = unat d - 0x80"
    then have hl: "h < 16" "m < 64" "l < 64" "unat a = 0xE0 + h" "unat b = 0x80 + m"
      "unat d = 0x80 + l" "c = h * 4096 + m * 64 + l"
      using 3 t(2,3,6) unfolding continuation_def by linarith+
    have ab: "byte_of (0xE0 + h) = a" "byte_of (0x80 + m) = b" "byte_of (0x80 + l) = d"
      using hl(4-6) by (metis byte_of_unat)+
    have "c div 4096 = h" "c div 64 mod 64 = m" "c mod 64 = l"
      unfolding hl(7) using base_64_parts [OF hl(2,3)] by simp_all
    moreover have "c < 0x10000" using hl by linarith
    ultimately have "utf8_char c = [byte_of (0xE0 + h), byte_of (0x80 + m), byte_of (0x80 + l)]"
      using t(4) by (simp add: utf8_char_def)
    then show ?thesis using ab Cons t(1) \<open>scalar c\<close> by simp
  next
    case 4
    then obtain b d e where t: "t = b # d # e # r" "continuation b" "continuation d" "continuation e"
      "0x10000 \<le> c" "scalar c"
      "c = (unat a - 0xF0) * 262144 + (unat b - 0x80) * 4096 + (unat d - 0x80) * 64 + (unat e - 0x80)"
      using assms Cons by (auto simp: Let_def split: list.splits if_splits)
    define h m n l where "h = unat a - 0xF0" and "m = unat b - 0x80" and "n = unat d - 0x80"
      and "l = unat e - 0x80"
    then have hl: "h < 5" "m < 64" "n < 64" "l < 64" "unat a = 0xF0 + h" "unat b = 0x80 + m"
      "unat d = 0x80 + n" "unat e = 0x80 + l" "c = h * 262144 + m * 4096 + n * 64 + l"
      using 4 t(2-4,7) unfolding continuation_def by linarith+
    have ab: "byte_of (0xF0 + h) = a" "byte_of (0x80 + m) = b" "byte_of (0x80 + n) = d"
      "byte_of (0x80 + l) = e"
      using hl(5-8) by (metis byte_of_unat)+
    have e: "c = (h * 64 + m) * 4096 + n * 64 + l" using hl(9) by simp
    have q: "c div 4096 = h * 64 + m" "c div 64 mod 64 = n" "c mod 64 = l"
      unfolding e by (rule base_64_parts [OF hl(3,4)])+
    have "c div 262144 = c div 4096 div 64" by (simp flip: div_mult2_eq)
    then have "c div 262144 = h" "c div 4096 mod 64 = m" unfolding q(1) using hl(2) by simp_all
    with q have "utf8_char c = [byte_of (0xF0 + h), byte_of (0x80 + m), byte_of (0x80 + n),
        byte_of (0x80 + l)]"
      using t(5) by (simp add: utf8_char_def)
    then show ?thesis using ab Cons t(1) \<open>scalar c\<close> by simp
  qed
qed (use assms in simp)

lemma from_utf8_sound: "from_utf8 bs = Some s \<Longrightarrow> valid_str s \<and> as_bytes s = bs"
proof (induction bs arbitrary: s rule: from_utf8.induct)
  case (2 b bs)
  then obtain c r s' where c: "utf8_first (b # bs) = Some (c, r)" "from_utf8 r = Some s'" "s = c # s'"
    by (auto simp: from_utf8_step simp del: utf8_first.simps from_utf8.simps split: option.splits)
  then have "valid_str s' \<and> as_bytes s' = r" using 2(1) by blast
  then show ?case using utf8_first_sound [OF c(1)] c(3) by (simp add: valid_str_def)
qed (simp add: valid_str_def)

lemma from_utf8_iff: "from_utf8 bs = Some s \<longleftrightarrow> valid_str s \<and> as_bytes s = bs"
  using from_utf8_sound from_utf8_as_bytes by metis

section \<open>Fixed-width fields\<close>

lemma be_inverse:
  "length bs = 8 \<Longrightarrow> u64_to_be (u64_from_be bs) = bs"
  "length cs = 4 \<Longrightarrow> u32_to_be (u32_from_be cs) = cs"
  "length ds = 2 \<Longrightarrow> u16_to_be (u16_from_be ds) = ds"
proof -
  have bound: "nat_from_be bs < 256 ^ length bs" for bs
  proof (induction bs rule: rev_induct)
    case (snoc b bs)
    have "unat b < 256" using unsigned_less [of b, where 'a = nat] by simp
    with snoc show ?case by (simp add: nat_from_be_snoc)
  qed (simp add: nat_from_be_def)
  show "length bs = 8 \<Longrightarrow> u64_to_be (u64_from_be bs) = bs"
    using bound [of bs] nat_to_from_be [of bs]
    by (simp add: u64_to_be_def u64_from_be_def unat_of_nat)
  show "length cs = 4 \<Longrightarrow> u32_to_be (u32_from_be cs) = cs"
    using bound [of cs] nat_to_from_be [of cs]
    by (simp add: u32_to_be_def u32_from_be_def unat_of_nat)
  show "length ds = 2 \<Longrightarrow> u16_to_be (u16_from_be ds) = ds"
    using bound [of ds] nat_to_from_be [of ds]
    by (simp add: u16_to_be_def u16_from_be_def unat_of_nat)
qed

definition u64_at :: "byte list \<Rightarrow> nat \<Rightarrow> u64" where
  "u64_at bs offset = u64_from_be (take 8 (drop offset bs))"

definition u32_at :: "byte list \<Rightarrow> nat \<Rightarrow> u32" where
  "u32_at bs offset = u32_from_be (take 4 (drop offset bs))"

definition u16_at :: "byte list \<Rightarrow> nat \<Rightarrow> u16" where
  "u16_at bs offset = u16_from_be (take 2 (drop offset bs))"

lemma field_at:
  "length a = n \<Longrightarrow> u64_at (a @ u64_to_be w @ b) n = w"
  "length a = n \<Longrightarrow> u32_at (a @ u32_to_be v @ b) n = v"
  "length a = n \<Longrightarrow> u16_at (a @ u16_to_be x @ b) n = x"
  by (simp_all add: u64_at_def u32_at_def u16_at_def)

lemma field_bytes:
  "n + 8 \<le> length bs \<Longrightarrow> u64_to_be (u64_at bs n) = take 8 (drop n bs)"
  "n + 4 \<le> length bs \<Longrightarrow> u32_to_be (u32_at bs n) = take 4 (drop n bs)"
  "n + 2 \<le> length bs \<Longrightarrow> u16_to_be (u16_at bs n) = take 2 (drop n bs)"
  by (simp_all add: u64_at_def u32_at_def u16_at_def be_inverse)

text \<open>Putting consecutive slices of a byte string back together.\<close>

lemma slice_append: "take a (drop n bs) @ drop (n + a) bs = drop n bs"
  by (metis add.commute append_take_drop_id drop_drop)

end
