(* ===== verification/Capture_Timing.thy ===== *)
theory Capture_Timing
  imports Byte_Codec
begin

unbundle bit_operations_syntax

text \<open>
  PCM frames and capture timing, \<^verbatim>\<open>crates/model-adapters/src/audio_frame.rs\<close> and
  \<^verbatim>\<open>crates/model-adapters/src/capture_timing.rs\<close>: formats, validation of producer coordinates, and the
  three binary records (frame provenance, capture epoch, clock pair). Every record is shown to be
  canonical: a byte string decodes to a value exactly when the value encodes to that byte string.
\<close>

type_synonym UtteranceId = u64
type_synonym i64 = "64 word"

section \<open>PCM formats\<close>

definition MAX_PCM_FRAME_BYTES :: nat where "MAX_PCM_FRAME_BYTES = 64 * 1024"

datatype PcmSampleFormat = Signed16LittleEndian | Float32LittleEndian

fun bytes_per_sample :: "PcmSampleFormat \<Rightarrow> nat" where
  "bytes_per_sample Signed16LittleEndian = 2"
| "bytes_per_sample Float32LittleEndian = 4"

record PcmFormat =
  pf_sample_rate_hz :: u32
  pf_channels :: u16
  pf_sample_format :: PcmSampleFormat

definition PcmFormat_new :: "u32 \<Rightarrow> u16 \<Rightarrow> PcmSampleFormat \<Rightarrow> PcmFormat adapter" where
  "PcmFormat_new sample_rate_hz channels sample_format =
     (if sample_rate_hz = 0
      then Inl (AdapterError_new ''PCM sample rate must be greater than zero'')
      else if channels = 0 then Inl (AdapterError_new ''PCM channels must be greater than zero'')
      else Inr \<lparr>pf_sample_rate_hz = sample_rate_hz, pf_channels = channels,
                pf_sample_format = sample_format\<rparr>)"

definition frame_alignment_bytes :: "PcmFormat \<Rightarrow> nat adapter" where
  "frame_alignment_bytes format =
     (let product = unat (pf_channels format) * bytes_per_sample (pf_sample_format format)
      in if product \<le> usize_max then Inr product
         else Inl (AdapterError_new ''PCM frame alignment overflowed''))"

definition pcm_ok :: "PcmFormat \<Rightarrow> bool" where
  "pcm_ok format \<longleftrightarrow> pf_sample_rate_hz format \<noteq> 0 \<and> pf_channels format \<noteq> 0"

lemma frame_alignment_ok:
  "frame_alignment_bytes format =
     Inr (unat (pf_channels format) * bytes_per_sample (pf_sample_format format))"
proof -
  have "unat (pf_channels format) < 65536"
    using unsigned_less [of "pf_channels format", where 'a = nat] by simp
  then show ?thesis
    by (cases "pf_sample_format format") (simp_all add: frame_alignment_bytes_def usize_max_def)
qed

section \<open>Identifiers\<close>

definition CAPTURE_TIMING_BYTES :: nat where "CAPTURE_TIMING_BYTES = 88"
definition MAX_CAPTURE_IDENTIFIER_BYTES :: nat where "MAX_CAPTURE_IDENTIFIER_BYTES = 64"
definition MAX_CAPTURE_CLOCK_DOMAINS :: nat where "MAX_CAPTURE_CLOCK_DOMAINS = 256"

definition invalid :: AdapterError where
  "invalid = AdapterError_new ''capture timing was malformed''"

text \<open>\<^verbatim>\<open>char::is_control\<close>: the Unicode category Cc.\<close>

definition is_control :: "rchar \<Rightarrow> bool" where
  "is_control c \<longleftrightarrow> c < 32 \<or> (127 \<le> c \<and> c < 160)"

definition validate_capture_identifier :: "rstring \<Rightarrow> unit adapter" where
  "validate_capture_identifier value =
     (if value = [] \<or> str_len value > MAX_CAPTURE_IDENTIFIER_BYTES \<or> list_ex is_control value
      then Inl invalid else Inr ())"

text \<open>The set of admitted domains is kept as a list without repetitions.\<close>

record CaptureDomainHistory =
  dh_admitted :: "rstring list"
  dh_current :: "rstring option"

definition CaptureDomainHistory_default :: CaptureDomainHistory where
  "CaptureDomainHistory_default = \<lparr>dh_admitted = [], dh_current = None\<rparr>"

definition admit :: "CaptureDomainHistory \<Rightarrow> rstring \<Rightarrow> CaptureDomainHistory \<times> unit adapter" where
  "admit h domain =
     (case validate_capture_identifier domain of
        Inl e \<Rightarrow> (h, Inl e)
      | Inr _ \<Rightarrow>
          if dh_current h = Some domain then (h, Inr ())
          else if domain \<in> set (dh_admitted h)
          then (h, Inl (AdapterError_new ''capture clock domain was retired''))
          else if length (dh_admitted h) \<ge> MAX_CAPTURE_CLOCK_DOMAINS
          then (h, Inl (AdapterError_new ''capture clock domain limit exceeded''))
          else (\<lparr>dh_admitted = domain # dh_admitted h, dh_current = Some domain\<rparr>, Inr ()))"

section \<open>Frame provenance\<close>

datatype CaptureMappingQuality =
    NominalFrameEndpointInterpolation | UnknownClock | UnknownPriming | FilterEdge
  | IncompleteSourceCoverage

fun quality_code :: "CaptureMappingQuality \<Rightarrow> u8" where
  "quality_code NominalFrameEndpointInterpolation = 1"
| "quality_code UnknownClock = 2"
| "quality_code UnknownPriming = 3"
| "quality_code FilterEdge = 4"
| "quality_code IncompleteSourceCoverage = 5"

fun quality_as_str :: "CaptureMappingQuality \<Rightarrow> string" where
  "quality_as_str NominalFrameEndpointInterpolation = ''nominal_frame_endpoint_interpolation''"
| "quality_as_str UnknownClock = ''unknown_clock''"
| "quality_as_str UnknownPriming = ''unknown_priming''"
| "quality_as_str FilterEdge = ''filter_edge''"
| "quality_as_str IncompleteSourceCoverage = ''incomplete_source_coverage''"

definition quality_decode :: "u8 \<Rightarrow> CaptureMappingQuality adapter" where
  "quality_decode code =
     (if code = 1 then Inr NominalFrameEndpointInterpolation
      else if code = 2 then Inr UnknownClock
      else if code = 3 then Inr UnknownPriming
      else if code = 4 then Inr FilterEdge
      else if code = 5 then Inr IncompleteSourceCoverage else Inl invalid)"

record NominalCaptureSpan =
  cs_host_start_ns :: u64
  cs_host_end_ns :: u64
  cs_rounding_envelope_ns :: u64
  cs_capture_uncertainty_ns :: "u64 option"

record FrameProvenance =
  fp_capture_epoch :: u64
  fp_sequence :: u64
  fp_output_start_sample :: u64
  fp_sample_count :: u32
  fp_source_start_numerator :: u64
  fp_source_end_numerator :: u64
  fp_source_denominator :: u32
  fp_source_rate_hz :: u32
  fp_quality :: CaptureMappingQuality
  fp_span :: "NominalCaptureSpan option"

definition FrameProvenance_validate :: "FrameProvenance \<Rightarrow> unit adapter" where
  "FrameProvenance_validate f =
     (case checked_add (fp_output_start_sample f) (ucast (fp_sample_count f)) of
        None \<Rightarrow> Inl invalid
      | Some e \<Rightarrow>
          if fp_capture_epoch f = 0 \<or> fp_sequence f = 0 \<or> fp_sample_count f = 0
             \<or> fp_source_denominator f = 0 \<or> fp_source_rate_hz f = 0
             \<or> checked_mul (fp_output_start_sample f) (ucast (fp_source_rate_hz f))
                 \<noteq> Some (fp_source_start_numerator f)
             \<or> checked_mul e (ucast (fp_source_rate_hz f)) \<noteq> Some (fp_source_end_numerator f)
             \<or> (fp_span f \<noteq> None) \<noteq> (fp_quality f = NominalFrameEndpointInterpolation)
          then Inl invalid
          else (case fp_span f of
                  None \<Rightarrow> Inr ()
                | Some span \<Rightarrow>
                    if cs_host_start_ns span = 0 \<or> cs_host_end_ns span \<le> cs_host_start_ns span
                    then Inl invalid else Inr ()))"

text \<open>\<open>frame_alignment_bytes\<close> never overflows (\<open>frame_alignment_ok\<close>); the product below is checked.\<close>

definition validate_pcm :: "FrameProvenance \<Rightarrow> PcmFormat \<Rightarrow> nat \<Rightarrow> unit adapter" where
  "validate_pcm f format len =
     (case FrameProvenance_validate f of
        Inl e \<Rightarrow> Inl e
      | Inr _ \<Rightarrow>
          if fp_source_denominator f \<noteq> pf_sample_rate_hz format
             \<or> (case frame_alignment_bytes format of
                  Inl _ \<Rightarrow> True
                | Inr alignment \<Rightarrow>
                    unat (fp_sample_count f) * alignment > usize_max
                    \<or> unat (fp_sample_count f) * alignment \<noteq> len)
          then Inl invalid else Inr ())"

text \<open>
  The 88 bytes in order: version, flags, quality, zero; epoch (4), sequence (12), output start
  (20), sample count (28), numerators (32, 40), denominator (48), rate (52), span (56, 64, 72, 80).
\<close>

definition span_flags :: "NominalCaptureSpan option \<Rightarrow> u8" where
  "span_flags span =
     (case span of
        None \<Rightarrow> 0
      | Some s \<Rightarrow> 1 OR (if cs_capture_uncertainty_ns s \<noteq> None then 2 else 0))"

definition span_bytes :: "NominalCaptureSpan option \<Rightarrow> byte list" where
  "span_bytes span =
     (case span of
        None \<Rightarrow> replicate 32 0
      | Some s \<Rightarrow>
          u64_to_be (cs_host_start_ns s) @ u64_to_be (cs_host_end_ns s)
          @ u64_to_be (cs_rounding_envelope_ns s)
          @ u64_to_be (case cs_capture_uncertainty_ns s of None \<Rightarrow> 0 | Some n \<Rightarrow> n))"

definition FrameProvenance_encode :: "FrameProvenance \<Rightarrow> byte list adapter" where
  "FrameProvenance_encode f =
     (case FrameProvenance_validate f of
        Inl e \<Rightarrow> Inl e
      | Inr _ \<Rightarrow>
          Inr ([1, span_flags (fp_span f), quality_code (fp_quality f), 0]
               @ u64_to_be (fp_capture_epoch f) @ u64_to_be (fp_sequence f)
               @ u64_to_be (fp_output_start_sample f) @ u32_to_be (fp_sample_count f)
               @ u64_to_be (fp_source_start_numerator f) @ u64_to_be (fp_source_end_numerator f)
               @ u32_to_be (fp_source_denominator f) @ u32_to_be (fp_source_rate_hz f)
               @ span_bytes (fp_span f)))"

definition FrameProvenance_decode :: "byte list \<Rightarrow> FrameProvenance adapter" where
  "FrameProvenance_decode bytes =
     (if length bytes \<noteq> CAPTURE_TIMING_BYTES \<or> bytes ! 0 \<noteq> 1 \<or> bytes ! 1 \<notin> {0, 1, 3}
         \<or> bytes ! 3 \<noteq> 0
      then Inl invalid
      else if (bytes ! 1 = 0 \<and> list_ex (\<lambda>b. b \<noteq> 0) (drop 56 bytes))
              \<or> (bytes ! 1 AND 2 = 0 \<and> u64_at bytes 80 \<noteq> 0)
      then Inl invalid
      else (case quality_decode (bytes ! 2) of
              Inl e \<Rightarrow> Inl e
            | Inr q \<Rightarrow>
                let value = \<lparr>fp_capture_epoch = u64_at bytes 4, fp_sequence = u64_at bytes 12,
                      fp_output_start_sample = u64_at bytes 20, fp_sample_count = u32_at bytes 28,
                      fp_source_start_numerator = u64_at bytes 32,
                      fp_source_end_numerator = u64_at bytes 40,
                      fp_source_denominator = u32_at bytes 48, fp_source_rate_hz = u32_at bytes 52,
                      fp_quality = q,
                      fp_span =
                        (if bytes ! 1 AND 1 \<noteq> 0
                         then Some \<lparr>cs_host_start_ns = u64_at bytes 56,
                                cs_host_end_ns = u64_at bytes 64,
                                cs_rounding_envelope_ns = u64_at bytes 72,
                                cs_capture_uncertainty_ns =
                                  (if bytes ! 1 AND 2 \<noteq> 0 then Some (u64_at bytes 80) else None)\<rparr>
                         else None)\<rparr>
                in (case FrameProvenance_validate value of
                      Inl e \<Rightarrow> Inl e
                    | Inr _ \<Rightarrow> Inr value)))"

section \<open>Cursor\<close>

definition cursor_take :: "nat \<Rightarrow> byte list \<Rightarrow> (byte list \<times> byte list) adapter" where
  "cursor_take count remaining =
     (if count > length remaining then Inl invalid
      else Inr (take count remaining, drop count remaining))"

definition cursor_byte :: "byte list \<Rightarrow> (u8 \<times> byte list) adapter" where
  "cursor_byte remaining =
     (case cursor_take 1 remaining of Inl e \<Rightarrow> Inl e | Inr (h, r) \<Rightarrow> Inr (h ! 0, r))"

definition cursor_u64 :: "byte list \<Rightarrow> (u64 \<times> byte list) adapter" where
  "cursor_u64 remaining =
     (case cursor_take 8 remaining of Inl e \<Rightarrow> Inl e | Inr (h, r) \<Rightarrow> Inr (u64_from_be h, r))"

definition cursor_id :: "byte list \<Rightarrow> (rstring \<times> byte list) adapter" where
  "cursor_id remaining =
     (case cursor_byte remaining of
        Inl e \<Rightarrow> Inl e
      | Inr (b, r) \<Rightarrow>
          if unat b = 0 \<or> unat b > MAX_CAPTURE_IDENTIFIER_BYTES then Inl invalid
          else (case cursor_take (unat b) r of
                  Inl e \<Rightarrow> Inl e
                | Inr (h, r') \<Rightarrow>
                    (case from_utf8 h of
                       None \<Rightarrow> Inl invalid
                     | Some value \<Rightarrow>
                         (case validate_capture_identifier value of
                            Inl e \<Rightarrow> Inl e | Inr _ \<Rightarrow> Inr (value, r')))))"

definition cursor_finish :: "byte list \<Rightarrow> unit adapter" where
  "cursor_finish remaining = (if remaining = [] then Inr () else Inl invalid)"

definition put_id :: "rstring \<Rightarrow> byte list" where
  "put_id value = byte_of (str_len value) # as_bytes value"

section \<open>Epochs and clock pairs\<close>

record CaptureEpoch =
  ep_bridge_session_id :: rstring
  ep_clock_domain_id :: rstring
  ep_capture_epoch :: u64

definition CaptureEpoch_validate :: "CaptureEpoch \<Rightarrow> unit adapter" where
  "CaptureEpoch_validate e =
     (case validate_capture_identifier (ep_bridge_session_id e) of
        Inl x \<Rightarrow> Inl x
      | Inr _ \<Rightarrow>
     (case validate_capture_identifier (ep_clock_domain_id e) of
        Inl x \<Rightarrow> Inl x
      | Inr _ \<Rightarrow> if ep_capture_epoch e = 0 then Inl invalid else Inr ()))"

definition CaptureEpoch_encode :: "CaptureEpoch \<Rightarrow> byte list adapter" where
  "CaptureEpoch_encode e =
     (case CaptureEpoch_validate e of
        Inl x \<Rightarrow> Inl x
      | Inr _ \<Rightarrow> Inr (put_id (ep_bridge_session_id e) @ put_id (ep_clock_domain_id e)
                      @ u64_to_be (ep_capture_epoch e) @ [1]))"

definition CaptureEpoch_decode :: "byte list \<Rightarrow> CaptureEpoch adapter" where
  "CaptureEpoch_decode bytes =
     (case cursor_id bytes of Inl x \<Rightarrow> Inl x | Inr (bridge, r1) \<Rightarrow>
     (case cursor_id r1 of Inl x \<Rightarrow> Inl x | Inr (domain, r2) \<Rightarrow>
     (case cursor_u64 r2 of Inl x \<Rightarrow> Inl x | Inr (epoch, r3) \<Rightarrow>
     (case cursor_byte r3 of Inl x \<Rightarrow> Inl x | Inr (version, r4) \<Rightarrow>
        if version \<noteq> 1 then Inl invalid
        else
     (case cursor_finish r4 of Inl x \<Rightarrow> Inl x | Inr _ \<Rightarrow>
        let value = \<lparr>ep_bridge_session_id = bridge, ep_clock_domain_id = domain,
                     ep_capture_epoch = epoch\<rparr>
        in (case CaptureEpoch_validate value of Inl x \<Rightarrow> Inl x | Inr _ \<Rightarrow> Inr value))))))"

record TimedCapture =
  tc_epoch :: CaptureEpoch
  tc_frame :: FrameProvenance

record CaptureFinishBoundary =
  fb_session_id :: SessionId
  fb_capture_epoch :: u64
  fb_frame :: "(u64 \<times> u64) option"
  fb_final_clock_pair_sequence :: u64

definition CaptureFinishBoundary_new ::
  "SessionId \<Rightarrow> u64 \<Rightarrow> bool \<Rightarrow> u64 \<Rightarrow> u64 \<Rightarrow> u64 \<Rightarrow> CaptureFinishBoundary adapter" where
  "CaptureFinishBoundary_new session_id epoch frame_present last_sequence output_end pair_sequence =
     (let finish = (\<lambda>frame.
        if epoch = 0 \<or> pair_sequence = 0 then Inl invalid
        else Inr \<lparr>fb_session_id = session_id, fb_capture_epoch = epoch, fb_frame = frame,
                  fb_final_clock_pair_sequence = pair_sequence\<rparr>)
      in if frame_present \<and> last_sequence > 0 \<and> output_end > 0
         then finish (Some (last_sequence, output_end))
         else if \<not> frame_present \<and> last_sequence = 0 \<and> output_end = 0 then finish None
         else Inl invalid)"

record CaptureClockPair =
  cp_clock_domain_id :: rstring
  cp_wall_epoch :: u64
  cp_sequence :: u64
  cp_host_before_ns :: u64
  cp_local_unix_ns :: i64
  cp_host_after_ns :: u64
  cp_wall_resolution_ns :: u64
  cp_external_utc_accuracy_ns :: "u64 option"

definition CaptureClockPair_validate :: "CaptureClockPair \<Rightarrow> unit adapter" where
  "CaptureClockPair_validate p =
     (case validate_capture_identifier (cp_clock_domain_id p) of
        Inl x \<Rightarrow> Inl x
      | Inr _ \<Rightarrow>
          if cp_wall_epoch p = 0 \<or> cp_sequence p = 0 \<or> cp_host_before_ns p = 0
             \<or> cp_host_after_ns p < cp_host_before_ns p
          then Inl invalid else Inr ())"

definition midpoint_twice :: "CaptureClockPair \<Rightarrow> nat" where
  "midpoint_twice p = unat (cp_host_before_ns p) + unat (cp_host_after_ns p)"

definition CaptureClockPair_encode :: "CaptureClockPair \<Rightarrow> byte list adapter" where
  "CaptureClockPair_encode p =
     (case CaptureClockPair_validate p of
        Inl x \<Rightarrow> Inl x
      | Inr _ \<Rightarrow>
          Inr (put_id (cp_clock_domain_id p) @ u64_to_be (cp_wall_epoch p)
               @ u64_to_be (cp_sequence p) @ u64_to_be (cp_host_before_ns p)
               @ u64_to_be (cp_local_unix_ns p) @ u64_to_be (cp_host_after_ns p)
               @ u64_to_be (cp_wall_resolution_ns p)
               @ [if cp_external_utc_accuracy_ns p \<noteq> None then 1 else 0]
               @ u64_to_be (case cp_external_utc_accuracy_ns p of None \<Rightarrow> 0 | Some n \<Rightarrow> n)))"

definition CaptureClockPair_decode :: "byte list \<Rightarrow> CaptureClockPair adapter" where
  "CaptureClockPair_decode bytes =
     (case cursor_id bytes of Inl x \<Rightarrow> Inl x | Inr (domain, r1) \<Rightarrow>
     (case cursor_u64 r1 of Inl x \<Rightarrow> Inl x | Inr (wall_epoch, r2) \<Rightarrow>
     (case cursor_u64 r2 of Inl x \<Rightarrow> Inl x | Inr (sequence, r3) \<Rightarrow>
     (case cursor_u64 r3 of Inl x \<Rightarrow> Inl x | Inr (host_before, r4) \<Rightarrow>
     (case cursor_u64 r4 of Inl x \<Rightarrow> Inl x | Inr (local_unix, r5) \<Rightarrow>
     (case cursor_u64 r5 of Inl x \<Rightarrow> Inl x | Inr (host_after, r6) \<Rightarrow>
     (case cursor_u64 r6 of Inl x \<Rightarrow> Inl x | Inr (resolution, r7) \<Rightarrow>
     (case cursor_byte r7 of Inl x \<Rightarrow> Inl x | Inr (present, r8) \<Rightarrow>
     (case cursor_u64 r8 of Inl x \<Rightarrow> Inl x | Inr (bound, r9) \<Rightarrow>
        if present = 0 \<and> bound = 0 \<or> present = 1
        then (case cursor_finish r9 of Inl x \<Rightarrow> Inl x | Inr _ \<Rightarrow>
          let pair = \<lparr>cp_clock_domain_id = domain, cp_wall_epoch = wall_epoch,
                cp_sequence = sequence, cp_host_before_ns = host_before,
                cp_local_unix_ns = local_unix, cp_host_after_ns = host_after,
                cp_wall_resolution_ns = resolution,
                cp_external_utc_accuracy_ns = (if present = 1 then Some bound else None)\<rparr>
          in (case CaptureClockPair_validate pair of Inl x \<Rightarrow> Inl x | Inr _ \<Rightarrow> Inr pair))
        else Inl invalid)))))))))"

section \<open>Discontinuities and metadata\<close>

datatype CaptureDiscontinuityReason =
    SourceDrop | SequenceHole | Reconnect | Pause | EpochReset | MissingTiming
  | InconsistentCoordinates | SourceDiscontinuity | AlignmentLimitExceeded

fun reason_code :: "CaptureDiscontinuityReason \<Rightarrow> u8" where
  "reason_code SourceDrop = 1"
| "reason_code SequenceHole = 2"
| "reason_code Reconnect = 3"
| "reason_code Pause = 4"
| "reason_code EpochReset = 5"
| "reason_code MissingTiming = 6"
| "reason_code InconsistentCoordinates = 7"
| "reason_code SourceDiscontinuity = 8"
| "reason_code AlignmentLimitExceeded = 9"

definition reason_decode :: "u8 \<Rightarrow> CaptureDiscontinuityReason adapter" where
  "reason_decode code =
     (if code = 1 then Inr SourceDrop
      else if code = 2 then Inr SequenceHole
      else if code = 3 then Inr Reconnect
      else if code = 4 then Inr Pause
      else if code = 5 then Inr EpochReset
      else if code = 6 then Inr MissingTiming
      else if code = 7 then Inr InconsistentCoordinates
      else if code = 8 then Inr SourceDiscontinuity
      else if code = 9 then Inr AlignmentLimitExceeded else Inl invalid)"

fun reason_as_str :: "CaptureDiscontinuityReason \<Rightarrow> string" where
  "reason_as_str SourceDrop = ''source_drop''"
| "reason_as_str SequenceHole = ''sequence_hole''"
| "reason_as_str Reconnect = ''reconnect''"
| "reason_as_str Pause = ''pause''"
| "reason_as_str EpochReset = ''epoch_reset''"
| "reason_as_str MissingTiming = ''missing_timing''"
| "reason_as_str InconsistentCoordinates = ''inconsistent_coordinates''"
| "reason_as_str SourceDiscontinuity = ''source_discontinuity''"
| "reason_as_str AlignmentLimitExceeded = ''alignment_limit_exceeded''"

datatype CaptureMetadata =
    Meta_Epoch CaptureEpoch
  | Meta_ClockPair CaptureClockPair
  | Meta_Discontinuity u64 CaptureDiscontinuityReason

section \<open>Audio frames\<close>

record AudioFrame =
  af_turn_id :: TurnId
  af_generation_id :: GenerationId
  af_utterance_id :: UtteranceId
  af_sequence :: u64
  af_format :: PcmFormat
  af_bytes :: "byte list"
  af_capture_timing :: "TimedCapture option"

definition AudioFrame_new ::
  "TurnId \<Rightarrow> GenerationId \<Rightarrow> UtteranceId \<Rightarrow> u64 \<Rightarrow> PcmFormat \<Rightarrow> byte list \<Rightarrow> AudioFrame adapter" where
  "AudioFrame_new turn_id generation_id utterance_id sequence format bytes =
     (if bytes = [] then Inl (AdapterError_new ''PCM frame bytes must not be empty'')
      else if length bytes > MAX_PCM_FRAME_BYTES
      then Inl (AdapterError_new ''PCM frame bytes exceeded 64 KiB'')
      else (case frame_alignment_bytes format of
              Inl e \<Rightarrow> Inl e
            | Inr alignment \<Rightarrow>
                if \<not> alignment dvd length bytes
                then Inl (AdapterError_new ''PCM frame bytes were not sample aligned'')
                else Inr \<lparr>af_turn_id = turn_id, af_generation_id = generation_id,
                          af_utterance_id = utterance_id, af_sequence = sequence,
                          af_format = format, af_bytes = bytes, af_capture_timing = None\<rparr>))"

definition with_capture_timing :: "AudioFrame \<Rightarrow> TimedCapture \<Rightarrow> AudioFrame adapter" where
  "with_capture_timing frame timing =
     (case CaptureEpoch_validate (tc_epoch timing) of
        Inl e \<Rightarrow> Inl e
      | Inr _ \<Rightarrow>
     (case validate_pcm (tc_frame timing) (af_format frame) (length (af_bytes frame)) of
        Inl e \<Rightarrow> Inl e
      | Inr _ \<Rightarrow>
          if ep_capture_epoch (tc_epoch timing) \<noteq> fp_capture_epoch (tc_frame timing)
             \<or> af_sequence frame \<noteq> fp_sequence (tc_frame timing)
          then Inl (AdapterError_new ''capture timing identity did not match frame'')
          else Inr (frame\<lparr>af_capture_timing := Some timing\<rparr>)))"

definition next_sequence :: "AudioFrame \<Rightarrow> u64 adapter" where
  "next_sequence frame =
     (case checked_add (af_sequence frame) 1 of
        None \<Rightarrow> Inl (AdapterError_new ''PCM frame sequence overflowed'') | Some n \<Rightarrow> Inr n)"

section \<open>Frame provenance is canonical\<close>

lemma quality_decode_iff: "quality_decode c = Inr q \<longleftrightarrow> c = quality_code q"
  by (cases q) (auto simp: quality_decode_def split: if_splits)

lemma reason_decode_iff: "reason_decode c = Inr r \<longleftrightarrow> c = reason_code r"
  by (cases r) (auto simp: reason_decode_def split: if_splits)

lemma length_span_bytes [simp]: "length (span_bytes s) = 32"
  by (simp add: span_bytes_def split: option.splits)

lemma span_flags_cases:
  "span_flags None = 0"
  "cs_capture_uncertainty_ns s = None \<Longrightarrow> span_flags (Some s) = 1"
  "cs_capture_uncertainty_ns s = Some n \<Longrightarrow> span_flags (Some s) = 3"
  by (simp_all add: span_flags_def)

definition decoded_span :: "byte list \<Rightarrow> NominalCaptureSpan option" where
  "decoded_span bytes =
     (if bytes ! 1 AND 1 \<noteq> 0
      then Some \<lparr>cs_host_start_ns = u64_at bytes 56, cs_host_end_ns = u64_at bytes 64,
                 cs_rounding_envelope_ns = u64_at bytes 72,
                 cs_capture_uncertainty_ns =
                   (if bytes ! 1 AND 2 \<noteq> 0 then Some (u64_at bytes 80) else None)\<rparr>
      else None)"

lemma flag_bits [simp]:
  "(0 :: u8) AND 2 = 0" "(1 :: u8) AND 2 = 0" "(3 :: u8) AND 2 = 2" "(3 :: u8) AND 1 = 1"
  by simp_all

lemma decoded_span_bytes:
  assumes "length bytes = 88" "drop 56 bytes = span_bytes s" "bytes ! 1 = span_flags s"
  shows "decoded_span bytes = s"
    and "\<not> (bytes ! 1 = 0 \<and> list_ex (\<lambda>b. b \<noteq> 0) (drop 56 bytes))"
    and "\<not> (bytes ! 1 AND 2 = 0 \<and> u64_at bytes 80 \<noteq> 0)"
    and "bytes ! 1 \<in> {0, 1, 3}"
proof -
  have at: "u64_at bytes (56 + n) = u64_at (span_bytes s) n" for n
    using assms(2) by (metis add.commute drop_drop u64_at_def)
  have zero: "u64_at (replicate 32 0) 24 = 0"
    by (simp add: u64_at_def u64_from_be_def nat_from_be_def numeral_eq_Suc)
  have fields: "u64_at bytes 56 = u64_at (span_bytes s) 0" "u64_at bytes 64 = u64_at (span_bytes s) 8"
    "u64_at bytes 72 = u64_at (span_bytes s) 16" "u64_at bytes 80 = u64_at (span_bytes s) 24"
    using at [of 0] at [of 8] at [of 16] at [of 24] by simp_all
  have read: "u64_at (span_bytes (Some x)) 0 = cs_host_start_ns x"
    "u64_at (span_bytes (Some x)) 8 = cs_host_end_ns x"
    "u64_at (span_bytes (Some x)) 16 = cs_rounding_envelope_ns x"
    "u64_at (span_bytes (Some x)) 24 =
       (case cs_capture_uncertainty_ns x of None \<Rightarrow> 0 | Some n \<Rightarrow> n)" for x
    by (simp_all add: span_bytes_def u64_at_def)
  show "decoded_span bytes = s"
  proof (cases s)
    case (Some x)
    then show ?thesis
      using assms(3) fields read [of x]
      by (cases "cs_capture_uncertainty_ns x") (simp_all add: decoded_span_def span_flags_cases)
  qed (use assms(3) in \<open>simp add: decoded_span_def span_flags_cases\<close>)
  show "bytes ! 1 \<in> {0, 1, 3}"
    unfolding assms(3) by (cases s) (auto simp: span_flags_def)
  show "\<not> (bytes ! 1 = 0 \<and> list_ex (\<lambda>b. b \<noteq> 0) (drop 56 bytes))"
  proof (cases s)
    case None
    then show ?thesis using assms(2) by (simp add: span_bytes_def list_ex_iff)
  next
    case (Some x)
    then show ?thesis
      using assms(3) by (cases "cs_capture_uncertainty_ns x") (simp_all add: span_flags_cases)
  qed
  show "\<not> (bytes ! 1 AND 2 = 0 \<and> u64_at bytes 80 \<noteq> 0)"
  proof (cases s)
    case None
    then show ?thesis using fields(4) zero by (simp add: span_bytes_def)
  next
    case (Some x)
    then show ?thesis
      using assms(3) fields(4) read(4) [of x]
      by (cases "cs_capture_uncertainty_ns x") (simp_all add: span_flags_cases)
  qed
qed

lemma span_of_bytes:
  assumes "length bytes = 88" "bytes ! 1 \<in> {0, 1, 3}"
    and "\<not> (bytes ! 1 = 0 \<and> list_ex (\<lambda>b. b \<noteq> 0) (drop 56 bytes))"
    and "\<not> (bytes ! 1 AND 2 = 0 \<and> u64_at bytes 80 \<noteq> 0)"
  shows "span_flags (decoded_span bytes) = bytes ! 1 \<and> span_bytes (decoded_span bytes) = drop 56 bytes"
proof -
  have slices: "drop 56 bytes = take 8 (drop 56 bytes) @ take 8 (drop 64 bytes) @ take 8 (drop 72 bytes)
      @ take 8 (drop 80 bytes)"
    using slice_append [of 8 56 bytes] slice_append [of 8 64 bytes] slice_append [of 8 72 bytes]
      assms(1) by simp
  consider "bytes ! 1 = 0" | "bytes ! 1 = 1" | "bytes ! 1 = 3" using assms(2) by blast
  then show ?thesis
  proof cases
    case 1
    then have "\<forall>b \<in> set (drop 56 bytes). b = 0" using assms(3) by (auto simp: list_ex_iff)
    then have "drop 56 bytes = replicate 32 0" using assms(1)
      replicate_length_same [of "drop 56 bytes" 0] by simp
    then show ?thesis using 1 by (simp add: decoded_span_def span_flags_cases span_bytes_def)
  next
    case 2
    then have "u64_at bytes 80 = 0" using assms(4) by simp
    then have "take 8 (drop 80 bytes) = u64_to_be 0"
      using field_bytes(1) [of 80 bytes] assms(1) by simp
    then show ?thesis
      using 2 assms(1) slices
      by (simp add: decoded_span_def span_flags_def span_bytes_def field_bytes)
  next
    case 3
    then show ?thesis
      using assms(1) slices
      by (simp add: decoded_span_def span_flags_def span_bytes_def field_bytes)
  qed
qed

lemma FrameProvenance_decode_alt:
  "FrameProvenance_decode bytes =
     (if length bytes \<noteq> 88 \<or> bytes ! 0 \<noteq> 1 \<or> bytes ! 1 \<notin> {0, 1, 3} \<or> bytes ! 3 \<noteq> 0
         \<or> (bytes ! 1 = 0 \<and> list_ex (\<lambda>b. b \<noteq> 0) (drop 56 bytes))
         \<or> (bytes ! 1 AND 2 = 0 \<and> u64_at bytes 80 \<noteq> 0)
      then Inl invalid
      else (case quality_decode (bytes ! 2) of
              Inl e \<Rightarrow> Inl e
            | Inr q \<Rightarrow>
                let value = \<lparr>fp_capture_epoch = u64_at bytes 4, fp_sequence = u64_at bytes 12,
                      fp_output_start_sample = u64_at bytes 20, fp_sample_count = u32_at bytes 28,
                      fp_source_start_numerator = u64_at bytes 32,
                      fp_source_end_numerator = u64_at bytes 40,
                      fp_source_denominator = u32_at bytes 48, fp_source_rate_hz = u32_at bytes 52,
                      fp_quality = q, fp_span = decoded_span bytes\<rparr>
                in (case FrameProvenance_validate value of Inl e \<Rightarrow> Inl e | Inr _ \<Rightarrow> Inr value)))"
  unfolding FrameProvenance_decode_def CAPTURE_TIMING_BYTES_def decoded_span_def by auto

lemma FrameProvenance_decode_encode:
  assumes "FrameProvenance_encode f = Inr bs"
  shows "FrameProvenance_decode bs = Inr f"
proof -
  have ok: "FrameProvenance_validate f = Inr ()"
    and bs: "bs = [1, span_flags (fp_span f), quality_code (fp_quality f), 0]
               @ u64_to_be (fp_capture_epoch f) @ u64_to_be (fp_sequence f)
               @ u64_to_be (fp_output_start_sample f) @ u32_to_be (fp_sample_count f)
               @ u64_to_be (fp_source_start_numerator f) @ u64_to_be (fp_source_end_numerator f)
               @ u32_to_be (fp_source_denominator f) @ u32_to_be (fp_source_rate_hz f)
               @ span_bytes (fp_span f)"
    using assms by (auto simp: FrameProvenance_encode_def split: sum.splits)
  have head: "length bs = 88" "bs ! 0 = 1" "bs ! 1 = span_flags (fp_span f)"
    "bs ! 2 = quality_code (fp_quality f)" "bs ! 3 = 0" "drop 56 bs = span_bytes (fp_span f)"
    by (simp_all add: bs)
  have fields: "u64_at bs 4 = fp_capture_epoch f" "u64_at bs 12 = fp_sequence f"
    "u64_at bs 20 = fp_output_start_sample f" "u32_at bs 28 = fp_sample_count f"
    "u64_at bs 32 = fp_source_start_numerator f" "u64_at bs 40 = fp_source_end_numerator f"
    "u32_at bs 48 = fp_source_denominator f" "u32_at bs 52 = fp_source_rate_hz f"
    by (simp_all add: bs u64_at_def u32_at_def)
  have q: "quality_decode (bs ! 2) = Inr (fp_quality f)" by (simp add: quality_decode_iff head)
  have guard: "\<not> (length bs \<noteq> 88 \<or> bs ! 0 \<noteq> 1 \<or> bs ! 1 \<notin> {0, 1, 3} \<or> bs ! 3 \<noteq> 0
         \<or> (bs ! 1 = 0 \<and> list_ex (\<lambda>b. b \<noteq> 0) (drop 56 bs))
         \<or> (bs ! 1 AND 2 = 0 \<and> u64_at bs 80 \<noteq> 0))"
    using decoded_span_bytes [OF head(1,6,3)] head by blast
  show ?thesis
    unfolding FrameProvenance_decode_alt if_not_P [OF guard] q sum.case fields
      decoded_span_bytes(1) [OF head(1,6,3)] Let_def
    using ok by (cases f) simp
qed

lemma FrameProvenance_encode_decode:
  assumes "FrameProvenance_decode bs = Inr f"
  shows "FrameProvenance_encode f = Inr bs"
proof -
  have guard: "length bs = 88" "bs ! 0 = 1" "bs ! 1 \<in> {0, 1, 3}" "bs ! 3 = 0"
    "\<not> (bs ! 1 = 0 \<and> list_ex (\<lambda>b. b \<noteq> 0) (drop 56 bs))"
    "\<not> (bs ! 1 AND 2 = 0 \<and> u64_at bs 80 \<noteq> 0)"
    using assms unfolding FrameProvenance_decode_alt by (auto split: if_splits)
  have ng: "\<not> (length bs \<noteq> 88 \<or> bs ! 0 \<noteq> 1 \<or> bs ! 1 \<notin> {0, 1, 3} \<or> bs ! 3 \<noteq> 0
         \<or> (bs ! 1 = 0 \<and> list_ex (\<lambda>b. b \<noteq> 0) (drop 56 bs))
         \<or> (bs ! 1 AND 2 = 0 \<and> u64_at bs 80 \<noteq> 0))"
    using guard by blast
  obtain q where q: "quality_decode (bs ! 2) = Inr q"
    and f: "f = \<lparr>fp_capture_epoch = u64_at bs 4, fp_sequence = u64_at bs 12,
                      fp_output_start_sample = u64_at bs 20, fp_sample_count = u32_at bs 28,
                      fp_source_start_numerator = u64_at bs 32,
                      fp_source_end_numerator = u64_at bs 40,
                      fp_source_denominator = u32_at bs 48, fp_source_rate_hz = u32_at bs 52,
                      fp_quality = q, fp_span = decoded_span bs\<rparr>"
    and ok: "FrameProvenance_validate f = Inr ()"
    using assms unfolding FrameProvenance_decode_alt if_not_P [OF ng] Let_def
    by (auto split: sum.splits)
  have "take 4 bs = [bs ! 0, bs ! 1, bs ! 2, bs ! 3]"
    using guard(1) by (simp add: take_Suc_conv_app_nth numeral_eq_Suc)
  moreover have "bs = take 4 bs @ take 8 (drop 4 bs) @ take 8 (drop 12 bs) @ take 8 (drop 20 bs)
      @ take 4 (drop 28 bs) @ take 8 (drop 32 bs) @ take 8 (drop 40 bs) @ take 4 (drop 48 bs)
      @ take 4 (drop 52 bs) @ drop 56 bs"
    using slice_append [of 4 52 bs] slice_append [of 4 48 bs] slice_append [of 8 40 bs]
      slice_append [of 8 32 bs] slice_append [of 4 28 bs] slice_append [of 8 20 bs]
      slice_append [of 8 12 bs] slice_append [of 8 4 bs] by simp
  moreover have "bs ! 2 = quality_code q" using q by (simp add: quality_decode_iff)
  ultimately show ?thesis
    using ok span_of_bytes [OF guard(1,3,5,6)] guard
    by (simp add: FrameProvenance_encode_def f field_bytes)
qed

section \<open>Fields read from the front of a record\<close>

text \<open>
  A field of a record: \<open>get\<close> takes a value off the front exactly when the bytes start with the
  value as \<open>put\<close> writes it.
\<close>

locale field =
  fixes put :: "'a \<Rightarrow> byte list"
    and get :: "byte list \<Rightarrow> ('a \<times> byte list) adapter"
    and ok :: "'a \<Rightarrow> bool"
  assumes get_iff: "get bs = Inr (v, r) \<longleftrightarrow> ok v \<and> bs = put v @ r"
begin

lemma bind_iff:
  "(case get bs of Inl x \<Rightarrow> Inl x | Inr (v, r) \<Rightarrow> k v r) = Inr y
   \<longleftrightarrow> (\<exists>v r. ok v \<and> bs = put v @ r \<and> k v r = Inr y)"
proof (cases "get bs")
  case (Inl x)
  then show ?thesis using get_iff [of bs] by auto
next
  case (Inr p)
  obtain v r where "p = (v, r)" by fastforce
  then have "ok w \<and> bs = put w @ s \<longleftrightarrow> w = v \<and> s = r" for w s
    using get_iff [of bs w s] Inr by auto
  then show ?thesis using Inr \<open>p = (v, r)\<close> by simp metis
qed

lemma put_prefix_free:
  assumes "put v @ r = put w @ s" "ok v" "ok w"
  shows "v = w \<and> r = s"
  using get_iff [of "put v @ r" v r] get_iff [of "put v @ r" w s] assms by simp

end

definition identifier_ok :: "rstring \<Rightarrow> bool" where
  "identifier_ok value \<longleftrightarrow> valid_str value \<and> validate_capture_identifier value = Inr ()"

lemma cursor_take_iff:
  "cursor_take n bs = Inr (h, r) \<longleftrightarrow> length h = n \<and> bs = h @ r"
  by (auto simp: cursor_take_def)

lemma cursor_take_Inl: "cursor_take n bs = Inl x \<longleftrightarrow> x = invalid \<and> length bs < n"
  by (auto simp: cursor_take_def)

interpretation byte_field: field "\<lambda>b. [b]" cursor_byte "\<lambda>_. True"
proof
  fix bs :: "byte list" and v r
  show "cursor_byte bs = Inr (v, r) \<longleftrightarrow> True \<and> bs = [v] @ r"
    by (cases bs) (auto simp: cursor_byte_def cursor_take_def)
qed

interpretation u64_field: field u64_to_be cursor_u64 "\<lambda>_. True"
proof
  fix bs :: "byte list" and v r
  have "u64_to_be (u64_from_be h) = h" if "length h = 8" for h
    using that be_inverse by metis
  then show "cursor_u64 bs = Inr (v, r) \<longleftrightarrow> True \<and> bs = u64_to_be v @ r"
    by (auto simp: cursor_u64_def cursor_take_def)
qed

lemma validated_identifier:
  "validate_capture_identifier v = Inr () \<Longrightarrow> 0 < str_len v \<and> str_len v \<le> 64"
  by (auto simp: validate_capture_identifier_def MAX_CAPTURE_IDENTIFIER_BYTES_def split: if_splits)

lemma cursor_id_sound:
  assumes "cursor_id bs = Inr (v, r)"
  shows "identifier_ok v \<and> bs = put_id v @ r"
proof -
  obtain b r1 h where b: "cursor_byte bs = Inr (b, r1)" and h: "cursor_take (unat b) r1 = Inr (h, r)"
    and v: "from_utf8 h = Some v" "validate_capture_identifier v = Inr ()"
    using assms unfolding cursor_id_def by (auto split: sum.splits if_splits option.splits prod.splits)
  have "as_bytes v = h" "valid_str v" using v(1) by (auto simp: from_utf8_iff)
  moreover have "bs = b # h @ r" "length h = unat b"
    using b h by (auto simp: byte_field.get_iff cursor_take_iff)
  ultimately show ?thesis
    using v(2) length_as_bytes [of v] byte_of_unat [of b] by (simp add: put_id_def identifier_ok_def)
qed

lemma cursor_id_put:
  assumes "identifier_ok v"
  shows "cursor_id (put_id v @ r) = Inr (v, r)"
proof -
  have v: "valid_str v" "validate_capture_identifier v = Inr ()"
    using assms by (auto simp: identifier_ok_def)
  note len = validated_identifier [OF v(2)]
  then have n: "unat (byte_of (str_len v)) = str_len v" by (intro unat_byte) simp
  have "cursor_byte (put_id v @ r) = Inr (byte_of (str_len v), as_bytes v @ r)"
    by (simp add: put_id_def byte_field.get_iff)
  moreover have "cursor_take (str_len v) (as_bytes v @ r) = Inr (as_bytes v, r)"
    by (simp add: cursor_take_iff)
  ultimately show ?thesis
    using n len v
    by (simp add: cursor_id_def MAX_CAPTURE_IDENTIFIER_BYTES_def from_utf8_as_bytes)
qed

interpretation id_field: field put_id cursor_id identifier_ok
proof
  fix bs :: "byte list" and v r
  show "cursor_id bs = Inr (v, r) \<longleftrightarrow> identifier_ok v \<and> bs = put_id v @ r"
    using cursor_id_sound cursor_id_put by metis
qed

lemma cursor_finish_iff:
  "(case cursor_finish bs of Inl x \<Rightarrow> Inl x | Inr _ \<Rightarrow> k) = Inr y \<longleftrightarrow> bs = [] \<and> k = Inr y"
  by (simp add: cursor_finish_def)

lemma validated_iff:
  "(case V of Inl x \<Rightarrow> Inl x | Inr _ \<Rightarrow> Inr v) = Inr y \<longleftrightarrow> V = Inr () \<and> v = y"
  by (auto split: sum.splits)

lemmas field_iff = id_field.bind_iff u64_field.bind_iff byte_field.bind_iff cursor_finish_iff
  validated_iff

section \<open>Canonical records\<close>

text \<open>
  A canonical record format: the decoder accepts exactly what the encoder writes, so a stored
  record has one meaning and a value one encoding.
\<close>

locale canonical =
  fixes encode :: "'v \<Rightarrow> 'e + byte list"
    and decode :: "byte list \<Rightarrow> 'e + 'v"
    and proper :: "'v \<Rightarrow> bool"
  assumes decode_iff: "decode bs = Inr v \<longleftrightarrow> encode v = Inr bs \<and> proper v"
begin

lemma encode_inj: "encode v = Inr bs \<Longrightarrow> encode w = Inr bs \<Longrightarrow> proper v \<Longrightarrow> proper w \<Longrightarrow> v = w"
  using decode_iff [of bs v] decode_iff [of bs w] by simp

lemma decode_inj: "decode bs = Inr v \<Longrightarrow> decode bs' = Inr v \<Longrightarrow> bs = bs'"
  using decode_iff [of bs v] decode_iff [of bs' v] by simp

end

interpretation frame_codec: canonical FrameProvenance_encode FrameProvenance_decode "\<lambda>_. True"
  by unfold_locales (use FrameProvenance_decode_encode FrameProvenance_encode_decode in blast)

definition epoch_text :: "CaptureEpoch \<Rightarrow> bool" where
  "epoch_text e \<longleftrightarrow> valid_str (ep_bridge_session_id e) \<and> valid_str (ep_clock_domain_id e)"

lemma CaptureEpoch_validate_ids:
  "CaptureEpoch_validate e = Inr () \<longleftrightarrow>
     validate_capture_identifier (ep_bridge_session_id e) = Inr () \<and>
     validate_capture_identifier (ep_clock_domain_id e) = Inr () \<and> ep_capture_epoch e \<noteq> 0"
  by (auto simp: CaptureEpoch_validate_def split: sum.splits)

lemma if_Inl_iff: "(if b then Inl x else r) = Inr y \<longleftrightarrow> \<not> b \<and> r = Inr y"
  by simp

interpretation epoch_codec: canonical CaptureEpoch_encode CaptureEpoch_decode epoch_text
proof
  fix bs and e :: CaptureEpoch
  have enc: "CaptureEpoch_encode e = Inr bs \<longleftrightarrow> CaptureEpoch_validate e = Inr () \<and>
      bs = put_id (ep_bridge_session_id e) @ put_id (ep_clock_domain_id e)
           @ u64_to_be (ep_capture_epoch e) @ [1]"
    by (auto simp: CaptureEpoch_encode_def split: sum.splits)
  show "CaptureEpoch_decode bs = Inr e \<longleftrightarrow> CaptureEpoch_encode e = Inr bs \<and> epoch_text e"
    unfolding enc CaptureEpoch_decode_def field_iff if_Inl_iff Let_def
    by (cases e) (auto simp: identifier_ok_def epoch_text_def CaptureEpoch_validate_ids)
qed

definition pair_text :: "CaptureClockPair \<Rightarrow> bool" where
  "pair_text p \<longleftrightarrow> valid_str (cp_clock_domain_id p)"

lemma CaptureClockPair_validate_id:
  "CaptureClockPair_validate p = Inr () \<Longrightarrow> validate_capture_identifier (cp_clock_domain_id p) = Inr ()"
  by (auto simp: CaptureClockPair_validate_def split: sum.splits)

lemma if_Inr_iff: "(if b then r else Inl x) = Inr y \<longleftrightarrow> b \<and> r = Inr y"
  by simp

interpretation pair_codec: canonical CaptureClockPair_encode CaptureClockPair_decode pair_text
proof
  fix bs and p :: CaptureClockPair
  have enc: "CaptureClockPair_encode p = Inr bs \<longleftrightarrow> CaptureClockPair_validate p = Inr () \<and>
      bs = put_id (cp_clock_domain_id p) @ u64_to_be (cp_wall_epoch p)
               @ u64_to_be (cp_sequence p) @ u64_to_be (cp_host_before_ns p)
               @ u64_to_be (cp_local_unix_ns p) @ u64_to_be (cp_host_after_ns p)
               @ u64_to_be (cp_wall_resolution_ns p)
               @ [if cp_external_utc_accuracy_ns p \<noteq> None then 1 else 0]
               @ u64_to_be (case cp_external_utc_accuracy_ns p of None \<Rightarrow> 0 | Some n \<Rightarrow> n)"
    by (auto simp: CaptureClockPair_encode_def split: sum.splits)
  show "CaptureClockPair_decode bs = Inr p \<longleftrightarrow> CaptureClockPair_encode p = Inr bs \<and> pair_text p"
    unfolding enc CaptureClockPair_decode_def field_iff if_Inr_iff Let_def
    using CaptureClockPair_validate_id [of p]
    by (cases p; cases "cp_external_utc_accuracy_ns p")
      (auto simp: identifier_ok_def pair_text_def)
qed

section \<open>Admission of clock domains\<close>

definition domains_ok :: "CaptureDomainHistory \<Rightarrow> bool" where
  "domains_ok h \<longleftrightarrow>
     distinct (dh_admitted h) \<and> length (dh_admitted h) \<le> MAX_CAPTURE_CLOCK_DOMAINS \<and>
     dh_current h = (case dh_admitted h of [] \<Rightarrow> None | d # _ \<Rightarrow> Some d)"

primrec admit_all :: "CaptureDomainHistory \<Rightarrow> rstring list \<Rightarrow> CaptureDomainHistory \<times> bool list" where
  "admit_all h [] = (h, [])"
| "admit_all h (d # ds) =
     (let (h', r) = admit h d; (h'', rs) = admit_all h' ds in (h'', (r = Inr ()) # rs))"

lemma domains_ok_default: "domains_ok CaptureDomainHistory_default"
  by (simp add: domains_ok_def CaptureDomainHistory_default_def)

lemma admit_ok:
  assumes "domains_ok h"
  shows "domains_ok (fst (admit h d))"
  using assms by (auto simp: admit_def domains_ok_def split: sum.splits)

lemma admit_retired:
  assumes "domains_ok h" "dh_admitted h = pre @ d # post" "pre \<noteq> []"
  shows "snd (admit h d) \<noteq> Inr () \<and> (\<exists>more. dh_admitted (fst (admit h e)) = more @ pre @ d # post)"
proof -
  obtain p ps where pre: "pre = p # ps" using assms(3) by (cases pre) auto
  have "dh_current h = Some p" "p \<noteq> d" using assms pre by (auto simp: domains_ok_def)
  then have "snd (admit h d) \<noteq> Inr ()"
    using assms(2) by (auto simp: admit_def split: sum.splits)
  moreover have "\<exists>more. dh_admitted (fst (admit h e)) = more @ pre @ d # post"
    using assms(2) by (auto simp: admit_def split: sum.splits intro: exI [of _ "[]"])
  ultimately show ?thesis by blast
qed

lemma admit_all_ok: "domains_ok h \<Longrightarrow> domains_ok (fst (admit_all h ds))"
  by (induction ds arbitrary: h) (auto simp: Let_def split_beta admit_ok)

lemma admit_all_keeps:
  "\<exists>more. dh_admitted (fst (admit_all h ds)) = more @ dh_admitted h"
proof (induction ds arbitrary: h)
  case (Cons d ds)
  have "\<exists>more. dh_admitted (fst (admit h d)) = more @ dh_admitted h"
    by (auto simp: admit_def split: sum.splits intro: exI [of _ "[]"])
  then show ?case
    using Cons.IH [of "fst (admit h d)"] by (auto simp: Let_def split_beta)
qed simp

text \<open>
  C29: Clock domains never come back. From the empty history, after any sequence of admission
  attempts, at most 256 domains have been admitted, the current one is the last admitted, and a
  domain that was current at some point and has been replaced is refused at every later point.
\<close>

theorem retired_domain_refused:
  fixes before later :: "rstring list"
  defines "h \<equiv> fst (admit_all CaptureDomainHistory_default before)"
  defines "k \<equiv> fst (admit_all h later)"
  assumes "dh_current h = Some d" "dh_current k \<noteq> Some d"
  shows "length (dh_admitted k) \<le> 256 \<and> distinct (dh_admitted k) \<and>
    (\<forall>more. snd (admit (fst (admit_all k more)) d) \<noteq> Inr ())"
proof -
  have ok: "domains_ok h" "domains_ok k"
    by (simp_all add: h_def k_def admit_all_ok domains_ok_default)
  obtain post where h: "dh_admitted h = d # post"
    using ok(1) assms(3) by (auto simp: domains_ok_def split: list.splits)
  obtain pre where k: "dh_admitted k = pre @ d # post"
    using admit_all_keeps [of h later] h by (auto simp: k_def)
  have "pre \<noteq> []" using ok(2) k assms(4) by (auto simp: domains_ok_def)
  have "snd (admit (fst (admit_all k more)) d) \<noteq> Inr ()" for more
  proof -
    obtain m where "dh_admitted (fst (admit_all k more)) = (m @ pre) @ d # post"
      using admit_all_keeps [of k more] k by auto
    then show ?thesis
      using admit_retired [OF admit_all_ok [OF ok(2)], of more "m @ pre" d post] \<open>pre \<noteq> []\<close> by blast
  qed
  then show ?thesis using ok(2) by (auto simp: domains_ok_def MAX_CAPTURE_CLOCK_DOMAINS_def)
qed

theorem retired_domain_refused_witness:
  "snd (admit (fst (admit_all CaptureDomainHistory_default [[97], [98], [99]])) [97]) \<noteq> Inr ()"
proof -
  have s: "admit_all CaptureDomainHistory_default [[97]] =
      (\<lparr>dh_admitted = [[97]], dh_current = Some [97]\<rparr>, [True])" by code_simp
  have k: "admit_all \<lparr>dh_admitted = [[97]], dh_current = Some [97]\<rparr> [[98], [99]] =
      (\<lparr>dh_admitted = [[99], [98], [97]], dh_current = Some [99]\<rparr>, [True, True])" by code_simp
  have all: "admit_all CaptureDomainHistory_default [[97], [98], [99]] =
      (\<lparr>dh_admitted = [[99], [98], [97]], dh_current = Some [99]\<rparr>, [True, True, True])" by code_simp
  show ?thesis
    using retired_domain_refused [of "[[97]]" "[97]" "[[98], [99]]"]
    unfolding s fst_conv k all by (auto dest: spec [of _ "[]"])
qed

section \<open>Properties of the records\<close>

text \<open>
  C14: The three capture records are canonical. A byte string decodes to a value exactly when that
  value is valid text and encodes to that byte string; so encoding and decoding are inverse, and
  no two byte strings, and no two values, share a meaning.
\<close>

theorem capture_records_canonical:
  "(FrameProvenance_decode fs = Inr f \<longleftrightarrow> FrameProvenance_encode f = Inr fs) \<and>
   (CaptureEpoch_decode es = Inr e \<longleftrightarrow> CaptureEpoch_encode e = Inr es \<and> epoch_text e) \<and>
   (CaptureClockPair_decode ps = Inr p \<longleftrightarrow> CaptureClockPair_encode p = Inr ps \<and> pair_text p)"
  using frame_codec.decode_iff epoch_codec.decode_iff pair_codec.decode_iff by simp

lemma FrameProvenance_validated:
  assumes "FrameProvenance_validate f = Inr ()"
  shows "unat (fp_source_start_numerator f) = unat (fp_output_start_sample f) * unat (fp_source_rate_hz f)
    \<and> unat (fp_source_end_numerator f) =
        (unat (fp_output_start_sample f) + unat (fp_sample_count f)) * unat (fp_source_rate_hz f)
    \<and> 0 < unat (fp_sample_count f) \<and> 0 < unat (fp_source_rate_hz f)"
proof -
  have cast: "unat (ucast (x :: u32) :: u64) = unat x" for x
  proof -
    have "unat x < 2 ^ 32" using unsigned_less [of x, where 'a = nat] by simp
    then show ?thesis by (simp add: unsigned_ucast_eq take_bit_nat_eq_self)
  qed
  obtain e where e: "checked_add (fp_output_start_sample f) (ucast (fp_sample_count f)) = Some e"
    and a: "checked_mul (fp_output_start_sample f) (ucast (fp_source_rate_hz f))
              = Some (fp_source_start_numerator f)"
    and b: "checked_mul e (ucast (fp_source_rate_hz f)) = Some (fp_source_end_numerator f)"
    and n: "fp_sample_count f \<noteq> 0" "fp_source_rate_hz f \<noteq> 0"
    using assms by (auto simp: FrameProvenance_validate_def split: option.splits if_splits)
  show ?thesis
    using unat_checked_add [OF e] unat_checked_mul [OF a] unat_checked_mul [OF b] n
    by (simp add: cast unat_gt_0)
qed

text \<open>
  C26: A frame with attached capture timing is consistent: its sequence and epoch are those of the
  timing, the timing's sample count times the frame alignment is its byte length, and the source
  coordinates are the exact output coordinates scaled by the source rate, without wrap-around.
\<close>

theorem timed_frame_consistent:
  assumes "AudioFrame_new turn generation utterance sequence format bytes = Inr frame"
    and "with_capture_timing frame timing = Inr timed"
  shows "af_capture_timing timed = Some timing \<and>
    fp_sequence (tc_frame timing) = sequence \<and>
    fp_capture_epoch (tc_frame timing) = ep_capture_epoch (tc_epoch timing) \<and>
    0 < length bytes \<and> length bytes \<le> 65536 \<and>
    length bytes = unat (fp_sample_count (tc_frame timing)) *
      (unat (pf_channels format) * bytes_per_sample (pf_sample_format format)) \<and>
    unat (fp_source_end_numerator (tc_frame timing)) - unat (fp_source_start_numerator (tc_frame timing))
      = unat (fp_sample_count (tc_frame timing)) * unat (fp_source_rate_hz (tc_frame timing)) \<and>
    fp_source_denominator (tc_frame timing) = pf_sample_rate_hz format"
proof -
  have frame: "af_sequence frame = sequence" "af_format frame = format" "af_bytes frame = bytes"
    "bytes \<noteq> []" "length bytes \<le> MAX_PCM_FRAME_BYTES"
    using assms(1) by (auto simp: AudioFrame_new_def frame_alignment_ok split: if_splits)
  have timing: "validate_pcm (tc_frame timing) format (length bytes) = Inr ()"
    "ep_capture_epoch (tc_epoch timing) = fp_capture_epoch (tc_frame timing)"
    "af_sequence frame = fp_sequence (tc_frame timing)"
    "timed = frame\<lparr>af_capture_timing := Some timing\<rparr>"
    using assms(2) frame by (auto simp: with_capture_timing_def split: sum.splits if_splits)
  have valid: "FrameProvenance_validate (tc_frame timing) = Inr ()"
    and pcm: "length bytes = unat (fp_sample_count (tc_frame timing)) *
      (unat (pf_channels format) * bytes_per_sample (pf_sample_format format))"
      "fp_source_denominator (tc_frame timing) = pf_sample_rate_hz format"
    using timing(1) by (auto simp: validate_pcm_def frame_alignment_ok split: sum.splits if_splits)
  have "unat (fp_source_end_numerator (tc_frame timing)) - unat (fp_source_start_numerator (tc_frame timing))
      = unat (fp_sample_count (tc_frame timing)) * unat (fp_source_rate_hz (tc_frame timing))"
    using FrameProvenance_validated [OF valid] by (simp add: algebra_simps)
  moreover have "0 < length bytes" "length bytes \<le> 65536"
    using frame by (simp_all add: MAX_PCM_FRAME_BYTES_def)
  ultimately show ?thesis using pcm frame(1) timing(2-4) by (intro conjI) auto
qed

definition sample_format :: PcmFormat where
  "sample_format = \<lparr>pf_sample_rate_hz = 16000, pf_channels = 1, pf_sample_format = Signed16LittleEndian\<rparr>"

definition sample_timing :: TimedCapture where
  "sample_timing = \<lparr>tc_epoch = \<lparr>ep_bridge_session_id = [98], ep_clock_domain_id = [99], ep_capture_epoch = 1\<rparr>,
     tc_frame = \<lparr>fp_capture_epoch = 1, fp_sequence = 7, fp_output_start_sample = 10, fp_sample_count = 2,
       fp_source_start_numerator = 480000, fp_source_end_numerator = 576000,
       fp_source_denominator = 16000, fp_source_rate_hz = 48000, fp_quality = UnknownClock,
       fp_span = None\<rparr>\<rparr>"

theorem timed_frame_consistent_witness:
  "\<exists>frame timed. AudioFrame_new 1 1 1 7 sample_format [0, 1, 2, 3] = Inr frame \<and>
     with_capture_timing frame sample_timing = Inr timed \<and>
     length (af_bytes timed) = unat (fp_sample_count (tc_frame sample_timing)) * (1 * 2)"
proof -
  let ?frame = "\<lparr>af_turn_id = 1, af_generation_id = 1, af_utterance_id = 1, af_sequence = 7,
    af_format = sample_format, af_bytes = [0, 1, 2, 3], af_capture_timing = None\<rparr>"
  have f: "AudioFrame_new 1 1 1 7 sample_format [0, 1, 2, 3] = Inr ?frame"
    by (simp add: AudioFrame_new_def frame_alignment_ok sample_format_def MAX_PCM_FRAME_BYTES_def)
  have ids: "validate_capture_identifier [98] = Inr ()" "validate_capture_identifier [99] = Inr ()"
    by code_simp+
  have t: "with_capture_timing ?frame sample_timing
      = Inr (?frame\<lparr>af_capture_timing := Some sample_timing\<rparr>)"
    by (simp add: with_capture_timing_def sample_timing_def CaptureEpoch_validate_def ids
        validate_pcm_def FrameProvenance_validate_def checked_add_def checked_mul_def
        frame_alignment_ok sample_format_def usize_max_def)
  show ?thesis
    using timed_frame_consistent [OF f t] f t by (intro exI) (auto simp: sample_format_def)
qed

end
