(* ===== verification/Recording_Safety.thy ===== *)
theory Recording_Safety
  imports Capture_Timing
begin

text \<open>
  Recording limits and capture health, \<^verbatim>\<open>crates/runtime/src/recording_safety.rs\<close>: the guard
  that warns about and stops a recording at its limits, and the monitor of live capture. The
  guard is shown to implement a specification on the whole history of frames; the monitor's
  reports are shown to be bounded.
\<close>

unbundle bit_operations_syntax

section \<open>Limits\<close>

definition MIB :: u64 where "MIB = 1024 * 1024"
definition DEFAULT_MIN_FREE_DISK_BYTES :: u64 where "DEFAULT_MIN_FREE_DISK_BYTES = 512 * MIB"
definition DEFAULT_MAX_RECORDING_DURATION_MS :: u64 where
  "DEFAULT_MAX_RECORDING_DURATION_MS = 8 * 60 * 60 * 1000"
definition DEFAULT_MAX_RECORDING_BYTES :: u64 where "DEFAULT_MAX_RECORDING_BYTES = 4 * 1024 * MIB"
definition MAX_RECORDING_BYTES_LIMIT :: u64 where "MAX_RECORDING_BYTES_LIMIT = 8 * 1024 * MIB - MIB"
definition SIZE_HEADROOM_BYTES :: u64 where "SIZE_HEADROOM_BYTES = 2 * (4 + 128 * 1024)"
definition WARNING_PERCENT :: u64 where "WARNING_PERCENT = 90"
definition DISK_CHECK_INTERVAL_MS :: u64 where "DISK_CHECK_INTERVAL_MS = 1000"

definition limit_error :: "string \<Rightarrow> RuntimeError" where
  "limit_error message = RuntimeError Kind_Configuration Stage_AudioCapture message"

datatype RecordingLimit = FreeDiskSpace | Duration | Size | Silence

fun RecordingLimit_as_str :: "RecordingLimit \<Rightarrow> string" where
  "RecordingLimit_as_str FreeDiskSpace = ''free_disk_space''"
| "RecordingLimit_as_str Duration = ''duration''"
| "RecordingLimit_as_str Size = ''size''"
| "RecordingLimit_as_str Silence = ''silence''"

datatype RecordingLimitState = Warning | Stopped

fun RecordingLimitState_as_str :: "RecordingLimitState \<Rightarrow> string" where
  "RecordingLimitState_as_str Warning = ''warning''"
| "RecordingLimitState_as_str Stopped = ''stopped''"

type_synonym LimitNotice = "RecordingLimit \<times> RecordingLimitState"

record SilenceAutoStop =
  sa_after_ms :: u64
  sa_grace_ms :: u64

definition SilenceAutoStop_new :: "u64 \<Rightarrow> u64 \<Rightarrow> SilenceAutoStop result" where
  "SilenceAutoStop_new after_ms grace_ms =
     (if after_ms = 0 \<or> grace_ms = 0
      then Inl (limit_error ''silence auto-stop periods must be greater than zero'')
      else Inr \<lparr>sa_after_ms = after_ms, sa_grace_ms = grace_ms\<rparr>)"

record RecordingLimits =
  rl_min_free_disk_bytes :: u64
  rl_max_duration_ms :: u64
  rl_max_bytes :: u64
  rl_silence_auto_stop :: "SilenceAutoStop option"

definition RecordingLimits_default :: RecordingLimits where
  "RecordingLimits_default =
     \<lparr>rl_min_free_disk_bytes = DEFAULT_MIN_FREE_DISK_BYTES,
      rl_max_duration_ms = DEFAULT_MAX_RECORDING_DURATION_MS,
      rl_max_bytes = DEFAULT_MAX_RECORDING_BYTES, rl_silence_auto_stop = None\<rparr>"

definition RecordingLimits_new ::
  "u64 \<Rightarrow> u64 \<Rightarrow> u64 \<Rightarrow> SilenceAutoStop option \<Rightarrow> RecordingLimits result" where
  "RecordingLimits_new min_free_disk_bytes max_duration_ms max_bytes silence_auto_stop =
     (if min_free_disk_bytes = 0 \<or> max_duration_ms = 0 \<or> max_bytes = 0
      then Inl (limit_error ''recording limits must be greater than zero'')
      else if max_bytes > MAX_RECORDING_BYTES_LIMIT
      then Inl (limit_error ''recording size limit exceeds what finalized recovery admits'')
      else Inr \<lparr>rl_min_free_disk_bytes = min_free_disk_bytes, rl_max_duration_ms = max_duration_ms,
                rl_max_bytes = max_bytes, rl_silence_auto_stop = silence_auto_stop\<rparr>)"

section \<open>The guard\<close>

record FrameObservation =
  fo_media_ms :: u64
  fo_bytes :: u64
  fo_frame_ms :: u64
  fo_quiet :: bool

record RecordingSafetyGuard =
  sg_limits :: RecordingLimits
  sg_last_disk_check_ms :: "u64 option"
  sg_warned_size :: bool
  sg_warned_duration :: bool
  sg_quiet_ms :: u64
  sg_warned_silence :: bool

definition SafetyGuard_new :: "RecordingLimits \<Rightarrow> RecordingSafetyGuard" where
  "SafetyGuard_new limits =
     \<lparr>sg_limits = limits, sg_last_disk_check_ms = None, sg_warned_size = False,
      sg_warned_duration = False, sg_quiet_ms = 0, sg_warned_silence = False\<rparr>"

definition warning_point :: "u64 \<Rightarrow> u64" where
  "warning_point limit = limit div 100 * WARNING_PERCENT + limit mod 100 * WARNING_PERCENT div 100"

definition stopped :: "RecordingLimit \<Rightarrow> LimitNotice" where "stopped limit = (limit, Stopped)"
definition warning :: "RecordingLimit \<Rightarrow> LimitNotice" where "warning limit = (limit, Warning)"

text \<open>The warnings of \<open>observe\<close>, once no limit has stopped the recording.\<close>

definition warn_size :: "FrameObservation \<Rightarrow> RecordingSafetyGuard \<Rightarrow> RecordingSafetyGuard \<times> LimitNotice list" where
  "warn_size frame g =
     (if \<not> sg_warned_size g \<and> fo_bytes frame \<ge> warning_point (rl_max_bytes (sg_limits g))
      then (g\<lparr>sg_warned_size := True\<rparr>, [warning Size]) else (g, []))"

definition warn_duration :: "FrameObservation \<Rightarrow> RecordingSafetyGuard \<Rightarrow> RecordingSafetyGuard \<times> LimitNotice list" where
  "warn_duration frame g =
     (if \<not> sg_warned_duration g \<and> fo_media_ms frame \<ge> warning_point (rl_max_duration_ms (sg_limits g))
      then (g\<lparr>sg_warned_duration := True\<rparr>, [warning Duration]) else (g, []))"

definition warn_silence :: "RecordingSafetyGuard \<Rightarrow> RecordingSafetyGuard \<times> LimitNotice list" where
  "warn_silence g =
     (case rl_silence_auto_stop (sg_limits g) of
        None \<Rightarrow> (g, [])
      | Some silence \<Rightarrow>
          if \<not> sg_warned_silence g \<and> sg_quiet_ms g \<ge> sa_after_ms silence
          then (g\<lparr>sg_warned_silence := True\<rparr>, [warning Silence]) else (g, []))"

definition disk_due :: "RecordingSafetyGuard \<Rightarrow> FrameObservation \<Rightarrow> bool" where
  "disk_due g frame \<longleftrightarrow>
     (case sg_last_disk_check_ms g of
        None \<Rightarrow> True
      | Some checked \<Rightarrow> sat_sub (fo_media_ms frame) checked \<ge> DISK_CHECK_INTERVAL_MS)"

text \<open>\<open>free\<close> is what \<^verbatim>\<open>available_disk_bytes\<close> would return; it is read only when a check is due.\<close>

definition observe ::
  "RecordingSafetyGuard \<Rightarrow> FrameObservation \<Rightarrow> u64 option \<Rightarrow> RecordingSafetyGuard \<times> LimitNotice list" where
  "observe g frame free =
     (let due = disk_due g frame;
          g1 = (if due then g\<lparr>sg_last_disk_check_ms := Some (fo_media_ms frame)\<rparr> else g)
      in if due \<and> (case free of None \<Rightarrow> False | Some f \<Rightarrow> f < rl_min_free_disk_bytes (sg_limits g))
         then (g1, [stopped FreeDiskSpace])
         else if sat_add (fo_bytes frame) SIZE_HEADROOM_BYTES > rl_max_bytes (sg_limits g)
         then (g1, [stopped Size])
         else if fo_media_ms frame \<ge> rl_max_duration_ms (sg_limits g)
         then (g1, [stopped Duration])
         else
           let g2 = (if fo_quiet frame
                     then g1\<lparr>sg_quiet_ms := sat_add (sg_quiet_ms g1) (fo_frame_ms frame)\<rparr>
                     else g1\<lparr>sg_quiet_ms := 0, sg_warned_silence := False\<rparr>)
           in if (case rl_silence_auto_stop (sg_limits g) of
                    None \<Rightarrow> False
                  | Some silence \<Rightarrow>
                      sg_quiet_ms g2 \<ge> sat_add (sa_after_ms silence) (sa_grace_ms silence))
              then (g2, [stopped Silence])
              else let (g3, w1) = warn_size frame g2;
                       (g4, w2) = warn_duration frame g3;
                       (g5, w3) = warn_silence g4
                   in (g5, w1 @ w2 @ w3))"

definition observe_write :: "RecordingSafetyGuard \<Rightarrow> u64 \<Rightarrow> LimitNotice list" where
  "observe_write g bytes =
     (if sat_add bytes SIZE_HEADROOM_BYTES > rl_max_bytes (sg_limits g) then [stopped Size] else [])"

section \<open>Samples\<close>

text \<open>\<^verbatim>\<open>chunks_exact(n)\<close>: the whole chunks, without a shorter remainder.\<close>

fun chunks_exact :: "nat \<Rightarrow> 'a list \<Rightarrow> 'a list list" where
  "chunks_exact n xs =
     (if n = 0 \<or> length xs < n then [] else take n xs # chunks_exact n (drop n xs))"

declare chunks_exact.simps [simp del]

definition i16_from_le :: "byte list \<Rightarrow> 16 word" where
  "i16_from_le sample = of_nat (unat (sample ! 0) + 256 * unat (sample ! 1))"

definition u32_from_le :: "byte list \<Rightarrow> u32" where
  "u32_from_le sample = u32_from_be (rev sample)"

definition QUIET_PEAK_S16 :: int where "QUIET_PEAK_S16 = 98"

text \<open>
  The bit pattern of the single-precision constant 0.003. The magnitude of a float is at most this
  constant exactly when its bits without the sign are at most this pattern; infinities and NaNs
  have larger patterns.
\<close>

definition QUIET_PEAK_F32_BITS :: u32 where "QUIET_PEAK_F32_BITS = 0x3B449BA6"

definition frame_is_quiet :: "AudioFrame \<Rightarrow> bool" where
  "frame_is_quiet frame =
     (case pf_sample_format (af_format frame) of
        Signed16LittleEndian \<Rightarrow>
          list_all (\<lambda>sample. \<bar>sint (i16_from_le sample)\<bar> \<le> QUIET_PEAK_S16) (chunks_exact 2 (af_bytes frame))
      | Float32LittleEndian \<Rightarrow>
          list_all (\<lambda>sample. u32_from_le sample AND 0x7FFFFFFF \<le> QUIET_PEAK_F32_BITS)
            (chunks_exact 4 (af_bytes frame)))"

definition count_samples :: "AudioFrame \<Rightarrow> u64 \<times> u64" where
  "count_samples frame =
     (let bytes = af_bytes frame;
          (samples, nonzero) =
            (case pf_sample_format (af_format frame) of
               Signed16LittleEndian \<Rightarrow>
                 (length bytes div 2,
                  length (filter (\<lambda>sample. sample \<noteq> [0, 0]) (chunks_exact 2 bytes)))
             | Float32LittleEndian \<Rightarrow>
                 (length bytes div 4,
                  length (filter (\<lambda>sample. u32_from_le sample AND 0x7FFFFFFF \<noteq> 0)
                    (chunks_exact 4 bytes))));
          cast = (\<lambda>n. case try_word n of None \<Rightarrow> - 1 | Some w \<Rightarrow> w)
      in (cast samples, cast nonzero))"

definition pcm_duration_ms :: "PcmFormat \<Rightarrow> nat \<Rightarrow> u64" where
  "pcm_duration_ms format bytes =
     (case frame_alignment_bytes format of
        Inl _ \<Rightarrow> 0
      | Inr alignment \<Rightarrow>
          if alignment = 0 then 0
          else (case try_word (bytes div alignment * 1000 div unat (pf_sample_rate_hz format)) of
                  None \<Rightarrow> - 1 | Some ms \<Rightarrow> ms))"

section \<open>Capture health\<close>

definition MOSTLY_ZERO_NONZERO_PERCENT :: u64 where "MOSTLY_ZERO_NONZERO_PERCENT = 25"
definition HEALTH_WINDOW_MS :: u64 where "HEALTH_WINDOW_MS = 5000"
definition MIN_REPORTED_GAP_MS :: u64 where "MIN_REPORTED_GAP_MS = 2000"

record CaptureHealthReport =
  hr_mostly_zero :: bool
  hr_longest_gap_ms :: u64

record CaptureHealthMonitor =
  hm_active :: bool
  hm_audio_ends_at_ms :: "u64 option"
  hm_gap_since_ms :: "u64 option"
  hm_longest_gap_ms :: u64
  hm_reported_gap_ms :: u64
  hm_window_samples :: u64
  hm_window_nonzero :: u64
  hm_mostly_zero :: bool

definition HealthMonitor_new :: CaptureHealthMonitor where
  "HealthMonitor_new =
     \<lparr>hm_active = True, hm_audio_ends_at_ms = None, hm_gap_since_ms = None, hm_longest_gap_ms = 0,
      hm_reported_gap_ms = 0, hm_window_samples = 0, hm_window_nonzero = 0, hm_mostly_zero = False\<rparr>"

definition fold_gap :: "u64 \<Rightarrow> CaptureHealthMonitor \<Rightarrow> CaptureHealthMonitor" where
  "fold_gap now_ms m =
     (if \<not> hm_active m then m
      else (case (case hm_gap_since_ms m of Some s \<Rightarrow> Some s | None \<Rightarrow> hm_audio_ends_at_ms m) of
              None \<Rightarrow> m
            | Some since \<Rightarrow>
                m\<lparr>hm_longest_gap_ms := max (hm_longest_gap_ms m) (sat_sub now_ms since)\<rparr>))"

definition health_report ::
  "bool \<Rightarrow> CaptureHealthMonitor \<Rightarrow> CaptureHealthMonitor \<times> CaptureHealthReport option" where
  "health_report state_changed m =
     (let gap_grew = hm_longest_gap_ms m \<ge> MIN_REPORTED_GAP_MS
                     \<and> hm_longest_gap_ms m \<ge> sat_mul (hm_reported_gap_ms m) 2
      in if \<not> state_changed \<and> \<not> gap_grew then (m, None)
         else ((if gap_grew then m\<lparr>hm_reported_gap_ms := hm_longest_gap_ms m\<rparr> else m),
               Some \<lparr>hr_mostly_zero = hm_mostly_zero m, hr_longest_gap_ms = hm_longest_gap_ms m\<rparr>))"

definition health_window :: "AudioFrame \<Rightarrow> CaptureHealthMonitor \<Rightarrow> CaptureHealthMonitor \<times> bool" where
  "health_window frame m =
     (let format = af_format frame;
          (samples, nonzero) = count_samples frame;
          m1 = m\<lparr>hm_window_samples := sat_add (hm_window_samples m) samples,
                 hm_window_nonzero := sat_add (hm_window_nonzero m) nonzero\<rparr>;
          window_target = sat_mul (sat_mul (ucast (pf_sample_rate_hz format)) (ucast (pf_channels format)))
                            HEALTH_WINDOW_MS div 1000
      in if hm_window_samples m1 \<ge> max window_target 1
         then let mostly_zero = sat_mul (hm_window_nonzero m1) 100
                    < sat_mul (hm_window_samples m1) MOSTLY_ZERO_NONZERO_PERCENT
              in (m1\<lparr>hm_window_samples := 0, hm_window_nonzero := 0, hm_mostly_zero := mostly_zero\<rparr>,
                  mostly_zero \<noteq> hm_mostly_zero m1)
         else (m1, False))"

definition health_frame ::
  "u64 \<Rightarrow> AudioFrame \<Rightarrow> CaptureHealthMonitor \<Rightarrow> CaptureHealthMonitor \<times> CaptureHealthReport option" where
  "health_frame now_ms frame m =
     (let m1 = fold_gap now_ms m;
          frame_ms = pcm_duration_ms (af_format frame) (length (af_bytes frame));
          m2 = m1\<lparr>hm_gap_since_ms := None, hm_audio_ends_at_ms := Some (sat_add now_ms frame_ms)\<rparr>;
          (m3, changed) = health_window frame m2
      in health_report changed m3)"

definition health_discontinuity ::
  "u64 \<Rightarrow> CaptureHealthMonitor \<Rightarrow> CaptureHealthMonitor \<times> CaptureHealthReport option" where
  "health_discontinuity now_ms m =
     (let m1 = (if hm_active m \<and> hm_gap_since_ms m = None
                then m\<lparr>hm_gap_since_ms := map_option (\<lambda>ends. min ends now_ms) (hm_audio_ends_at_ms m)\<rparr>
                else m)
      in health_report False (fold_gap now_ms m1))"

definition health_tick ::
  "u64 \<Rightarrow> CaptureHealthMonitor \<Rightarrow> CaptureHealthMonitor \<times> CaptureHealthReport option" where
  "health_tick now_ms m = health_report False (fold_gap now_ms m)"

definition health_set_active :: "bool \<Rightarrow> u64 \<Rightarrow> CaptureHealthMonitor \<Rightarrow> CaptureHealthMonitor" where
  "health_set_active active now_ms m =
     (if active = hm_active m then m
      else let m1 = fold_gap now_ms m
           in m1\<lparr>hm_active := active, hm_gap_since_ms := None,
                 hm_audio_ends_at_ms := map_option (\<lambda>_. now_ms) (hm_audio_ends_at_ms m1)\<rparr>)"

section \<open>Specification of the guard\<close>

text \<open>
  What the guard promises, as a function of the frames recorded so far (newest first) and without
  any state of its own: percentages and sums are exact natural numbers.
\<close>

primrec quiet_run :: "FrameObservation list \<Rightarrow> nat" where
  "quiet_run [] = 0"
| "quiet_run (f # h) = (if fo_quiet f then unat (fo_frame_ms f) + quiet_run h else 0)"

primrec last_check :: "FrameObservation list \<Rightarrow> u64 option" where
  "last_check [] = None"
| "last_check (f # h) =
     (case last_check h of
        None \<Rightarrow> Some (fo_media_ms f)
      | Some c \<Rightarrow> if unat (fo_media_ms f) - unat c \<ge> 1000 then Some (fo_media_ms f) else Some c)"

definition check_due :: "FrameObservation list \<Rightarrow> FrameObservation \<Rightarrow> bool" where
  "check_due h f \<longleftrightarrow>
     (case last_check h of None \<Rightarrow> True | Some c \<Rightarrow> unat (fo_media_ms f) - unat c \<ge> 1000)"

definition near :: "u64 \<Rightarrow> u64 \<Rightarrow> bool" where
  "near limit x \<longleftrightarrow> unat limit * 90 div 100 \<le> unat x"

definition quiet_for :: "FrameObservation list \<Rightarrow> nat \<Rightarrow> bool" where
  "quiet_for h ms \<longleftrightarrow> min ms (2 ^ 64 - 1) \<le> quiet_run h"

definition stop_reason ::
  "RecordingLimits \<Rightarrow> FrameObservation list \<Rightarrow> FrameObservation \<Rightarrow> u64 option \<Rightarrow> RecordingLimit option" where
  "stop_reason L h f free =
     (if check_due h f \<and> (\<exists>n. free = Some n \<and> n < rl_min_free_disk_bytes L) then Some FreeDiskSpace
      else if unat (fo_bytes f) + 2 * (4 + 128 * 1024) > unat (rl_max_bytes L) then Some Size
      else if fo_media_ms f \<ge> rl_max_duration_ms L then Some Duration
      else if \<exists>s. rl_silence_auto_stop L = Some s
                  \<and> quiet_for (f # h) (unat (sa_after_ms s) + unat (sa_grace_ms s))
      then Some Silence else None)"

definition new_warnings :: "RecordingLimits \<Rightarrow> FrameObservation list \<Rightarrow> FrameObservation \<Rightarrow> RecordingLimit list" where
  "new_warnings L h f =
     [l \<leftarrow> [Size, Duration, Silence].
        (case l of
           Size \<Rightarrow> near (rl_max_bytes L) (fo_bytes f)
             \<and> \<not> (\<exists>g \<in> set h. near (rl_max_bytes L) (fo_bytes g))
         | Duration \<Rightarrow> near (rl_max_duration_ms L) (fo_media_ms f)
             \<and> \<not> (\<exists>g \<in> set h. near (rl_max_duration_ms L) (fo_media_ms g))
         | Silence \<Rightarrow> (case rl_silence_auto_stop L of
               None \<Rightarrow> False
             | Some s \<Rightarrow> quiet_for (f # h) (unat (sa_after_ms s)) \<and> \<not> quiet_for h (unat (sa_after_ms s)))
         | FreeDiskSpace \<Rightarrow> False)]"

definition verdict ::
  "RecordingLimits \<Rightarrow> FrameObservation list \<Rightarrow> FrameObservation \<Rightarrow> u64 option \<Rightarrow> LimitNotice list" where
  "verdict L h f free =
     (case stop_reason L h f free of
        Some l \<Rightarrow> [(l, Stopped)] | None \<Rightarrow> map (\<lambda>l. (l, Warning)) (new_warnings L h f))"

definition limits_ok :: "RecordingLimits \<Rightarrow> bool" where
  "limits_ok L \<longleftrightarrow> rl_max_bytes L \<le> MAX_RECORDING_BYTES_LIMIT \<and>
     (\<forall>s. rl_silence_auto_stop L = Some s \<longrightarrow> sa_after_ms s \<noteq> 0)"

definition capped :: "nat \<Rightarrow> u64" where
  "capped n = of_nat (min n (2 ^ 64 - 1))"

text \<open>The state of the guard after frames that did not stop the recording.\<close>

definition guard_after :: "RecordingLimits \<Rightarrow> FrameObservation list \<Rightarrow> RecordingSafetyGuard" where
  "guard_after L h =
     \<lparr>sg_limits = L, sg_last_disk_check_ms = last_check h,
      sg_warned_size = (\<exists>g \<in> set h. near (rl_max_bytes L) (fo_bytes g)),
      sg_warned_duration = (\<exists>g \<in> set h. near (rl_max_duration_ms L) (fo_media_ms g)),
      sg_quiet_ms = capped (quiet_run h),
      sg_warned_silence = (case rl_silence_auto_stop L of
         None \<Rightarrow> False | Some s \<Rightarrow> quiet_for h (unat (sa_after_ms s)))\<rparr>"

lemma unat_warning_point: "unat (warning_point l) = unat l * 90 div 100"
proof -
  have l: "unat l < 2 ^ 64" using unsigned_less [of l, where 'a = nat] by simp
  have d: "unat (l div 100) = unat l div 100" "unat (l mod 100) = unat l mod 100"
    by (simp_all add: unat_div unat_mod)
  have a: "unat (l div 100 * 90) = unat l div 100 * 90"
    using l by (simp add: unat_word_ariths d)
  have b: "unat (l mod 100 * 90 div 100) = unat l mod 100 * 90 div 100"
    by (simp add: unat_div unat_word_ariths d)
  have "unat l * 90 = unat l mod 100 * 90 + 100 * (unat l div 100 * 90)"
    by (metis add.commute distrib_right mult.assoc mult_div_mod_eq)
  then have "unat l div 100 * 90 + unat l mod 100 * 90 div 100 = unat l * 90 div 100" by simp
  moreover have "unat l * 90 div 100 < 2 ^ 64" using l by linarith
  ultimately show ?thesis
    unfolding warning_point_def WARNING_PERCENT_def unat_word_ariths(1) a b by simp
qed

lemma near_warning_point: "warning_point l \<le> x \<longleftrightarrow> near l x"
  by (simp add: near_def word_le_nat_alt unat_warning_point)

lemma unat_capped: "unat (capped n) = min n (2 ^ 64 - 1)"
  by (simp add: capped_def unat_of_nat take_bit_nat_eq_self min_def)

lemma quiet_step:
  "sat_add (capped (quiet_run h)) (fo_frame_ms f) = capped (unat (fo_frame_ms f) + quiet_run h)"
  unfolding word_unat_eq_iff unat_sat_add unat_capped by simp

lemma quiet_for_word: "a \<le> capped (quiet_run h) \<longleftrightarrow> quiet_for h (unat a)"
proof -
  have "unat a \<le> 2 ^ 64 - 1" using unsigned_less [of a, where 'a = nat] by simp
  then show ?thesis unfolding quiet_for_def word_le_nat_alt unat_capped by auto
qed

lemma quiet_for_sum:
  "sat_add a b \<le> capped (quiet_run h) \<longleftrightarrow> quiet_for h (unat a + unat b)"
  unfolding quiet_for_word quiet_for_def unat_sat_add by simp

lemma headroom:
  assumes "limits_ok L"
  shows "sat_add b SIZE_HEADROOM_BYTES > rl_max_bytes L \<longleftrightarrow> unat b + 2 * (4 + 128 * 1024) > unat (rl_max_bytes L)"
proof -
  have "unat (rl_max_bytes L) \<le> 8588886016"
    using assms by (simp add: limits_ok_def MAX_RECORDING_BYTES_LIMIT_def MIB_def word_le_nat_alt)
  then show ?thesis by (auto simp: word_less_nat_alt unat_sat_add SIZE_HEADROOM_BYTES_def)
qed

lemma disk_due_after: "disk_due (guard_after L h) f \<longleftrightarrow> check_due h f"
  by (simp add: disk_due_def check_due_def guard_after_def DISK_CHECK_INTERVAL_MS_def word_le_nat_alt
      unat_sat_sub split: option.splits)

lemma quiet_for_mono: "quiet_for h n \<Longrightarrow> fo_quiet f \<Longrightarrow> quiet_for (f # h) n"
  by (simp add: quiet_for_def)

lemma loud_not_quiet_for: "\<not> fo_quiet f \<Longrightarrow> n \<noteq> 0 \<Longrightarrow> \<not> quiet_for (f # h) n"
  by (simp add: quiet_for_def min_def)

text \<open>The guard once the frame has been counted and before it is judged.\<close>

definition counted :: "RecordingLimits \<Rightarrow> FrameObservation list \<Rightarrow> FrameObservation \<Rightarrow> RecordingSafetyGuard" where
  "counted L h f = (guard_after L h)
     \<lparr>sg_last_disk_check_ms := last_check (f # h),
      sg_quiet_ms := capped (quiet_run (f # h)),
      sg_warned_silence := fo_quiet f \<and> sg_warned_silence (guard_after L h)\<rparr>"

lemma last_check_step:
  "last_check (f # h) = (if check_due h f then Some (fo_media_ms f) else last_check h)"
  by (simp add: check_due_def split: option.splits)

lemma counted_step:
  "(if fo_quiet f
    then g\<lparr>sg_quiet_ms := sat_add (sg_quiet_ms g) (fo_frame_ms f)\<rparr>
    else g\<lparr>sg_quiet_ms := 0, sg_warned_silence := False\<rparr>) = counted L h f"
  if "g = (if check_due h f then (guard_after L h)\<lparr>sg_last_disk_check_ms := Some (fo_media_ms f)\<rparr>
           else guard_after L h)"
  unfolding that counted_def guard_after_def last_check_step
  by (simp add: quiet_step capped_def [of 0] del: last_check.simps)

lemma warnings_after:
  assumes "limits_ok L"
  shows "(let (g3, w1) = warn_size f (counted L h f); (g4, w2) = warn_duration f g3;
              (g5, w3) = warn_silence g4 in (g5, w1 @ w2 @ w3))
         = (guard_after L (f # h), map (\<lambda>l. (l, Warning)) (new_warnings L h f))"
proof -
  have sil: "sa_after_ms s \<noteq> 0" if "rl_silence_auto_stop L = Some s" for s
    using assms that by (simp add: limits_ok_def)
  show ?thesis
  proof (cases "rl_silence_auto_stop L")
    case None
    then show ?thesis
      by (auto simp: warn_size_def warn_duration_def warn_silence_def counted_def guard_after_def
          new_warnings_def near_warning_point warning_def simp del: quiet_run.simps last_check.simps)
  next
    case (Some s)
    then have "unat (sa_after_ms s) \<noteq> 0" using sil by (simp add: unat_eq_0)
    then show ?thesis
      using Some quiet_for_mono [of h "unat (sa_after_ms s)" f]
        loud_not_quiet_for [of f "unat (sa_after_ms s)" h]
      by (cases "fo_quiet f"; cases "quiet_for h (unat (sa_after_ms s))";
          cases "quiet_for (f # h) (unat (sa_after_ms s))")
        (simp_all add: warn_size_def warn_duration_def warn_silence_def counted_def guard_after_def
          new_warnings_def near_warning_point warning_def quiet_for_word
          del: quiet_run.simps last_check.simps)
  qed
qed

lemma observe_after:
  assumes "limits_ok L"
  shows "snd (observe (guard_after L h) f free) = verdict L h f free"
    and "stop_reason L h f free = None \<Longrightarrow> fst (observe (guard_after L h) f free) = guard_after L (f # h)"
proof -
  let ?g = "if check_due h f then (guard_after L h)\<lparr>sg_last_disk_check_ms := Some (fo_media_ms f)\<rparr>
           else guard_after L h"
  have L: "sg_limits (guard_after L h) = L" by (simp add: guard_after_def)
  have q: "sg_quiet_ms (counted L h f) = capped (quiet_run (f # h))"
    by (simp add: counted_def)
  have free: "(case free of None \<Rightarrow> False | Some n \<Rightarrow> n < m) \<longleftrightarrow> (\<exists>n. free = Some n \<and> n < m)" for m
    by (cases free) auto
  have sil: "(case rl_silence_auto_stop L of None \<Rightarrow> False
      | Some s \<Rightarrow> sg_quiet_ms (counted L h f) \<ge> sat_add (sa_after_ms s) (sa_grace_ms s))
      \<longleftrightarrow> (\<exists>s. rl_silence_auto_stop L = Some s
            \<and> quiet_for (f # h) (unat (sa_after_ms s) + unat (sa_grace_ms s)))"
    by (cases "rl_silence_auto_stop L") (simp_all only: q quiet_for_sum option.case option.inject, auto)
  have "observe (guard_after L h) f free =
     (case stop_reason L h f free of
        None \<Rightarrow> (guard_after L (f # h), map (\<lambda>l. (l, Warning)) (new_warnings L h f))
      | Some Silence \<Rightarrow> (counted L h f, [(Silence, Stopped)])
      | Some l \<Rightarrow> (?g, [(l, Stopped)]))"
    unfolding observe_def disk_due_after Let_def [of "check_due h f"] Let_def [of ?g] L free
      headroom [OF assms] counted_step [OF refl] Let_def [of "counted L h f"] sil warnings_after [OF assms]
    by (cases free) (auto simp: stop_reason_def stopped_def)
  then show "snd (observe (guard_after L h) f free) = verdict L h f free"
    "stop_reason L h f free = None \<Longrightarrow> fst (observe (guard_after L h) f free) = guard_after L (f # h)"
    by (auto simp: verdict_def split: option.splits RecordingLimit.splits)
qed

section \<open>Runs of the guard\<close>

definition stops :: "LimitNotice list \<Rightarrow> bool" where
  "stops notices \<longleftrightarrow> list_ex (\<lambda>(_, state). state = Stopped) notices"

text \<open>The recorder feeds the guard one frame after another until a stop.\<close>

fun guard_run :: "RecordingSafetyGuard \<Rightarrow> (FrameObservation \<times> u64 option) list \<Rightarrow> LimitNotice list list" where
  "guard_run g [] = []"
| "guard_run g ((f, free) # fs) =
     (let (g', ns) = observe g f free in if stops ns then [ns] else ns # guard_run g' fs)"

fun verdict_run ::
  "RecordingLimits \<Rightarrow> FrameObservation list \<Rightarrow> (FrameObservation \<times> u64 option) list \<Rightarrow> LimitNotice list list" where
  "verdict_run L h [] = []"
| "verdict_run L h ((f, free) # fs) =
     (let ns = verdict L h f free in if stops ns then [ns] else ns # verdict_run L (f # h) fs)"

lemma stops_verdict: "stops (verdict L h f free) \<longleftrightarrow> stop_reason L h f free \<noteq> None"
  by (auto simp: stops_def verdict_def list_ex_iff split: option.splits)

lemma guard_run_after:
  "limits_ok L \<Longrightarrow> guard_run (guard_after L h) fs = verdict_run L h fs"
proof (induction L h fs rule: verdict_run.induct)
  case (2 L h f free fs)
  note obs = observe_after [OF 2(2), of h f free]
  show ?case
    using 2 obs by (auto simp: Let_def split_beta stops_verdict)
qed simp

lemma SafetyGuard_new_after:
  assumes "limits_ok L"
  shows "SafetyGuard_new L = guard_after L []"
proof -
  have "\<not> quiet_for [] (unat (sa_after_ms x))" if "rl_silence_auto_stop L = Some x" for x
    using assms that by (auto simp: limits_ok_def quiet_for_def min_def unat_gt_0)
  then show ?thesis
    by (simp add: SafetyGuard_new_def guard_after_def capped_def split: option.splits)
qed

definition accepted_limits :: "RecordingLimits \<Rightarrow> bool" where
  "accepted_limits L \<longleftrightarrow>
     (\<exists>disk duration bytes silence. RecordingLimits_new disk duration bytes silence = Inr L \<and>
        (silence = None \<or> (\<exists>a g s. SilenceAutoStop_new a g = Inr s \<and> silence = Some s)))"

lemma accepted_limits_ok: "accepted_limits L \<Longrightarrow> limits_ok L"
  by (auto simp: accepted_limits_def RecordingLimits_new_def SilenceAutoStop_new_def limits_ok_def
      split: if_splits)

text \<open>
  C18: The guard implements its specification. Under limits that the constructors accept, the
  notices of every run are those of the stateless specification: a stop for the first limit
  reached, in the order disk, size, duration, silence; otherwise a warning for each limit whose
  exact 90 per cent (for silence, the configured period of uninterrupted quiet) is crossed by this
  frame and was not crossed before.
\<close>

theorem guard_implements_limits:
  assumes "accepted_limits L"
  shows "guard_run (SafetyGuard_new L) fs = verdict_run L [] fs"
  using guard_run_after SafetyGuard_new_after accepted_limits_ok [OF assms] by simp

definition brief_limits :: RecordingLimits where
  "brief_limits = \<lparr>rl_min_free_disk_bytes = 1, rl_max_duration_ms = 1000, rl_max_bytes = 10000000,
     rl_silence_auto_stop = Some \<lparr>sa_after_ms = 40, sa_grace_ms = 20\<rparr>\<rparr>"

definition brief_frames :: "(FrameObservation \<times> u64 option) list" where
  "brief_frames = map (\<lambda>(ms, quiet). (\<lparr>fo_media_ms = ms, fo_bytes = 48, fo_frame_ms = 20, fo_quiet = quiet\<rparr>, None))
     [(20, True), (40, False), (60, True), (80, True), (100, True)]"

lemma brief_limits_accepted: "accepted_limits brief_limits"
proof -
  have "SilenceAutoStop_new 40 20 = Inr \<lparr>sa_after_ms = 40, sa_grace_ms = 20\<rparr>"
    by (simp add: SilenceAutoStop_new_def)
  moreover have "RecordingLimits_new 1 1000 10000000 (Some \<lparr>sa_after_ms = 40, sa_grace_ms = 20\<rparr>)
      = Inr brief_limits"
    by (simp add: RecordingLimits_new_def brief_limits_def MAX_RECORDING_BYTES_LIMIT_def MIB_def)
  ultimately show ?thesis unfolding accepted_limits_def by blast
qed

theorem guard_implements_limits_witness:
  "guard_run (SafetyGuard_new brief_limits) brief_frames = [[], [], [], [(Silence, Warning)], [(Silence, Stopped)]]"
proof -
  have "verdict_run brief_limits [] brief_frames = [[], [], [], [(Silence, Warning)], [(Silence, Stopped)]]"
    by (simp add: brief_frames_def brief_limits_def verdict_def stop_reason_def check_due_def
        new_warnings_def near_def quiet_for_def stops_def)
  then show ?thesis using guard_implements_limits [OF brief_limits_accepted, of brief_frames] by simp
qed

lemma verdict_alone: "stops (verdict L h f free) \<Longrightarrow> length (verdict L h f free) = 1"
  by (auto simp: verdict_def stops_def list_ex_iff split: option.splits)

lemma new_warnings_once:
  "count_list (verdict L h f free) (Size, Warning) \<le>
     (if \<exists>g \<in> set h. near (rl_max_bytes L) (fo_bytes g) then 0 else 1)"
  "count_list (verdict L h f free) (Duration, Warning) \<le>
     (if \<exists>g \<in> set h. near (rl_max_duration_ms L) (fo_media_ms g) then 0 else 1)"
  "(Size, Warning) \<in> set (verdict L h f free) \<Longrightarrow> near (rl_max_bytes L) (fo_bytes f)"
  "(Duration, Warning) \<in> set (verdict L h f free) \<Longrightarrow> near (rl_max_duration_ms L) (fo_media_ms f)"
  by (auto simp: verdict_def new_warnings_def split: option.splits if_splits)

lemma verdict_run_once:
  assumes "\<And>h f free. count_list (verdict L h f free) n \<le> (if \<exists>g \<in> set h. P g then 0 else 1)"
    and "\<And>h f free. n \<in> set (verdict L h f free) \<Longrightarrow> P f"
  shows "count_list (concat (verdict_run L h fs)) n \<le> (if \<exists>g \<in> set h. P g then 0 else 1)"
proof (induction fs arbitrary: h)
  case (Cons x fs)
  obtain f free where x: "x = (f, free)" by fastforce
  show ?case
    using assms(1) [of h f free] assms(2) [of h f free] Cons.IH [of "f # h"]
    by (cases "n \<in> set (verdict L h f free)") (auto simp: x Let_def split: if_splits)
qed simp

lemma verdict_run_stop:
  assumes "\<not> (\<exists>ns \<in> set (verdict_run L h fs). stops ns)" "(f, free) \<in> set fs"
  shows "unat (fo_bytes f) + 2 * (4 + 128 * 1024) \<le> unat (rl_max_bytes L) \<and> fo_media_ms f < rl_max_duration_ms L"
  using assms
proof (induction L h fs rule: verdict_run.induct)
  case (2 L h g free' fs)
  then have s: "stop_reason L h g free' = None" "\<not> stops (verdict L h g free')"
    by (auto simp: Let_def stops_verdict split: if_splits)
  show ?case
  proof (cases "(f, free) = (g, free')")
    case True
    then show ?thesis using s(1) by (auto simp: stop_reason_def split: if_splits)
  next
    case False
    then show ?thesis using 2 s(2) by (auto simp: Let_def)
  qed
qed simp

lemma verdict_run_last:
  "(\<forall>ns \<in> set (butlast (verdict_run L h fs)). \<not> stops ns) \<and>
   (\<forall>ns \<in> set (verdict_run L h fs). stops ns \<longrightarrow> length ns = 1)"
  by (induction L h fs rule: verdict_run.induct) (auto simp: Let_def verdict_alone)



section \<open>Health reports\<close>

datatype health_event =
    H_Frame u64 AudioFrame | H_Discontinuity u64 | H_Tick u64 | H_Active bool u64

fun event_time :: "health_event \<Rightarrow> u64" where
  "event_time (H_Frame now _) = now"
| "event_time (H_Discontinuity now) = now"
| "event_time (H_Tick now) = now"
| "event_time (H_Active _ now) = now"

fun health_step ::
  "CaptureHealthMonitor \<Rightarrow> health_event \<Rightarrow> CaptureHealthMonitor \<times> CaptureHealthReport option" where
  "health_step m (H_Frame now frame) = health_frame now frame m"
| "health_step m (H_Discontinuity now) = health_discontinuity now m"
| "health_step m (H_Tick now) = health_tick now m"
| "health_step m (H_Active active now) = (health_set_active active now m, None)"

text \<open>The number of reports of a run, and the number of changes of the mostly-zero state.\<close>

primrec reports :: "CaptureHealthMonitor \<Rightarrow> health_event list \<Rightarrow> nat" where
  "reports m [] = 0"
| "reports m (e # es) =
     (if snd (health_step m e) = None then 0 else 1) + reports (fst (health_step m e)) es"

primrec flips :: "CaptureHealthMonitor \<Rightarrow> health_event list \<Rightarrow> nat" where
  "flips m [] = 0"
| "flips m (e # es) =
     (if hm_mostly_zero (fst (health_step m e)) = hm_mostly_zero m then 0 else 1)
     + flips (fst (health_step m e)) es"

definition grown :: "nat \<Rightarrow> CaptureHealthMonitor \<Rightarrow> bool" where
  "grown n m \<longleftrightarrow> unat (hm_longest_gap_ms m) < 2 ^ 63 \<and> hm_reported_gap_ms m \<le> hm_longest_gap_ms m \<and>
     (n \<noteq> 0 \<longrightarrow> 1000 * 2 ^ n \<le> unat (hm_reported_gap_ms m))"

lemma grown_bound:
  assumes "grown n m"
  shows "n \<le> 53"
proof (rule ccontr)
  assume "\<not> n \<le> 53"
  then have "(2 :: nat) ^ 54 \<le> 2 ^ n" "n \<noteq> 0" by (auto intro!: power_increasing simp del: power_numeral)
  then show False using assms by (simp add: grown_def word_le_nat_alt)
qed

lemma grown_cong:
  "grown n m \<Longrightarrow> hm_longest_gap_ms m' = hm_longest_gap_ms m \<Longrightarrow>
   hm_reported_gap_ms m' = hm_reported_gap_ms m \<Longrightarrow> grown n m'"
  by (simp add: grown_def)

lemma fold_gap_fields [simp]:
  "hm_reported_gap_ms (fold_gap now m) = hm_reported_gap_ms m"
  "hm_mostly_zero (fold_gap now m) = hm_mostly_zero m"
  by (simp_all add: fold_gap_def split: option.splits)

lemma fold_gap_grown:
  assumes "grown n m" "unat now < 2 ^ 63"
  shows "grown n (fold_gap now m)"
proof -
  have "unat (hm_longest_gap_ms (fold_gap now m)) < 2 ^ 63
      \<and> hm_longest_gap_ms m \<le> hm_longest_gap_ms (fold_gap now m)"
    using assms
    by (auto simp: fold_gap_def grown_def max_def unat_sat_sub less_imp_diff_less split: option.splits)
  then show ?thesis using assms by (auto simp: grown_def)
qed

lemma health_report_grown:
  assumes "grown n m" "health_report changed m = (m', r)"
  shows "(r = None \<and> grown n m' \<or> grown (Suc n) m' \<or> changed \<and> grown n m')
     \<and> hm_mostly_zero m' = hm_mostly_zero m"
proof (cases "hm_longest_gap_ms m \<ge> MIN_REPORTED_GAP_MS \<and> hm_longest_gap_ms m \<ge> sat_mul (hm_reported_gap_ms m) 2")
  case True
  then have "2000 \<le> unat (hm_longest_gap_ms m)" "min (unat (hm_reported_gap_ms m) * 2) (2 ^ 64 - 1) \<le> unat (hm_longest_gap_ms m)"
    by (simp_all add: MIN_REPORTED_GAP_MS_def word_le_nat_alt unat_sat_mul)
  then have "1000 * 2 ^ Suc n \<le> unat (hm_longest_gap_ms m)"
    using assms(1) by (cases n) (auto simp: grown_def word_le_nat_alt)
  then have "grown (Suc n) (m\<lparr>hm_reported_gap_ms := hm_longest_gap_ms m\<rparr>)"
    using assms(1) by (simp add: grown_def)
  then show ?thesis using assms(2) True by (auto simp: health_report_def)
next
  case False
  then show ?thesis using assms by (auto simp: health_report_def split: if_splits)
qed

lemma health_window_fields:
  assumes "health_window frame m = (m', changed)"
  shows "hm_longest_gap_ms m' = hm_longest_gap_ms m \<and> hm_reported_gap_ms m' = hm_reported_gap_ms m
     \<and> (changed \<longleftrightarrow> hm_mostly_zero m' \<noteq> hm_mostly_zero m)"
  using assms by (auto simp: health_window_def Let_def split_beta split: if_splits)

lemma health_step_grown:
  assumes "grown n m" "unat (event_time e) < 2 ^ 63" "health_step m e = (m', r)"
  shows "r = None \<and> grown n m' \<or> grown (Suc n) m' \<or> grown n m' \<and> hm_mostly_zero m' \<noteq> hm_mostly_zero m"
proof (cases e)
  case (H_Frame now frame)
  let ?m = "(fold_gap now m)\<lparr>hm_gap_since_ms := None, hm_audio_ends_at_ms :=
      Some (sat_add now (pcm_duration_ms (af_format frame) (length (af_bytes frame))))\<rparr>"
  obtain m3 changed where w: "health_window frame ?m = (m3, changed)" by fastforce
  have "health_report changed m3 = (m', r)"
    using assms(3) w by (simp add: H_Frame health_frame_def Let_def)
  moreover have "grown n m3"
    using health_window_fields [OF w] fold_gap_grown [OF assms(1), of now] assms(2)
    by (auto simp: H_Frame intro: grown_cong)
  ultimately show ?thesis
    using health_report_grown [of n m3 changed m' r] health_window_fields [OF w] by auto
next
  case (H_Discontinuity now)
  define d where "d = (if hm_active m \<and> hm_gap_since_ms m = None
      then m\<lparr>hm_gap_since_ms := map_option (\<lambda>ends. min ends now) (hm_audio_ends_at_ms m)\<rparr> else m)"
  have "grown n d" using assms(1) by (auto simp: d_def intro: grown_cong)
  then have "grown n (fold_gap now d)" using assms(2) by (simp add: H_Discontinuity fold_gap_grown)
  then show ?thesis
    using assms(3) health_report_grown [of n "fold_gap now d" False m' r]
    by (auto simp: H_Discontinuity health_discontinuity_def d_def Let_def)
next
  case (H_Tick now)
  then show ?thesis
    using assms health_report_grown [of n "fold_gap now m" False m' r] fold_gap_grown [of n m now]
    by (auto simp: health_tick_def)
next
  case (H_Active active now)
  then show ?thesis
    using assms fold_gap_grown [of n m now]
    by (auto simp: health_set_active_def Let_def split: if_splits intro: grown_cong)
qed

lemma reports_bounded:
  assumes "grown n m" "\<forall>e \<in> set es. unat (event_time e) < 2 ^ 63"
  shows "reports m es \<le> (53 - n) + flips m es"
  using assms
proof (induction es arbitrary: n m)
  case (Cons e es)
  obtain m' r where s: "health_step m e = (m', r)" by fastforce
  have time: "unat (event_time e) < 2 ^ 63" using Cons.prems(2) by simp
  from health_step_grown [OF Cons.prems(1) time s]
  consider "r = None" "grown n m'" | "grown (Suc n) m'" | "grown n m'" "hm_mostly_zero m' \<noteq> hm_mostly_zero m"
    by blast
  then show ?case
  proof cases
    case 1
    then show ?thesis using Cons.IH [of n m'] Cons.prems(2) s by simp
  next
    case 2
    then have "Suc n \<le> 53" by (rule grown_bound)
    then show ?thesis using Cons.IH [OF 2] Cons.prems(2) s by auto
  next
    case 3
    then show ?thesis using Cons.IH [of n m'] Cons.prems(2) s by simp
  qed
qed simp


definition one_frame :: AudioFrame where
  "one_frame = \<lparr>af_turn_id = 0, af_generation_id = 0, af_utterance_id = 0, af_sequence = 1,
     af_format = sample_format, af_bytes = [1, 0, 1, 0], af_capture_timing = None\<rparr>"

definition gap_events :: "health_event list" where
  "gap_events = [H_Frame 0 one_frame, H_Tick 1000, H_Tick 2500, H_Tick 3000, H_Tick 6000]"


end
