(* ===== verification/Recording_Format.thy ===== *)
theory Recording_Format
  imports Recording_Safety
begin

text \<open>
  The recording file format, \<^verbatim>\<open>crates/runtime/src/session_recording.rs\<close>: the header, the
  records inside the encrypted chunks, the key derived from the environment, and the capability
  issued for a finalized recording. Cryptography is a parameter (\<open>Ring\<close>). Every record the
  recorder writes is shown to decode to what was recorded.
\<close>

section \<open>Constants and errors\<close>

definition recording_configuration_error :: "string \<Rightarrow> RuntimeError" where
  "recording_configuration_error message = RuntimeError Kind_Configuration Stage_AudioCapture message"

definition adapter_error :: "string \<Rightarrow> RuntimeError" where
  "adapter_error message = RuntimeError Kind_Adapter Stage_AudioCapture message"

definition invalid_state_error :: "string \<Rightarrow> RuntimeError" where
  "invalid_state_error message = RuntimeError Kind_InvalidState Stage_AudioCapture message"

definition recovery_error :: RuntimeError where
  "recovery_error = invalid_state_error ''finalized recording authorization or content is invalid''"

definition CAPTURE_DISCONTINUITY_REASON :: rstring where
  "CAPTURE_DISCONTINUITY_REASON = str_of ''capture_discontinuity''"

definition RECORDING_FAILURE_REASON :: rstring where
  "RECORDING_FAILURE_REASON = str_of ''recording_failed''"

definition EMPTY_RECORDING_FORMAT :: string where "EMPTY_RECORDING_FORMAT = ''none''"
definition MAX_RECORDING_GAPS :: nat where "MAX_RECORDING_GAPS = 256"

definition ascii_bytes :: "string \<Rightarrow> byte list" where
  "ascii_bytes s = map (\<lambda>c. of_nat (of_char c)) s"

definition MAGIC :: "byte list" where "MAGIC = ascii_bytes ''CRSREC02''"
definition TIMED_MAGIC :: "byte list" where "TIMED_MAGIC = ascii_bytes ''CRSREC03''"
definition SUPERSEDED_MAGIC :: "byte list" where "SUPERSEDED_MAGIC = ascii_bytes ''CRSREC01''"
definition HEADER_LEN :: nat where "HEADER_LEN = 48"
definition AEAD_AES_256_GCM :: byte where "AEAD_AES_256_GCM = 1"
definition BINDING_BYTES :: nat where "BINDING_BYTES = 16"
definition HANDLE_LEN :: nat where "HANDLE_LEN = BINDING_BYTES * 2"
definition RECORDING_KEY_HEX_LEN :: nat where "RECORDING_KEY_HEX_LEN = 64"
definition MAX_CHUNK_CIPHERTEXT_BYTES :: nat where "MAX_CHUNK_CIPHERTEXT_BYTES = 128 * 1024"
definition MAX_KEY_ENV_BYTES :: nat where "MAX_KEY_ENV_BYTES = 128"
definition MAX_FINALIZED_RECORDING_BYTES :: nat where
  "MAX_FINALIZED_RECORDING_BYTES = 8 * 1024 * 1024 * 1024"

definition CHUNK_FRAME :: byte where "CHUNK_FRAME = 1"
definition CHUNK_GAP_STARTED :: byte where "CHUNK_GAP_STARTED = 2"
definition CHUNK_GAP_ENDED :: byte where "CHUNK_GAP_ENDED = 3"
definition CHUNK_ENDED :: byte where "CHUNK_ENDED = 4"
definition CHUNK_POLICY :: byte where "CHUNK_POLICY = 9"
definition CHUNK_TIMED_FRAME :: byte where "CHUNK_TIMED_FRAME = 10"
definition CHUNK_EPOCH :: byte where "CHUNK_EPOCH = 11"
definition CHUNK_CLOCK_PAIR :: byte where "CHUNK_CLOCK_PAIR = 12"
definition CHUNK_TIMING_DISCONTINUITY :: byte where "CHUNK_TIMING_DISCONTINUITY = 13"
definition CHUNK_ALIGNMENT_LIMIT :: byte where "CHUNK_ALIGNMENT_LIMIT = 14"

lemmas chunk_kinds = CHUNK_FRAME_def CHUNK_GAP_STARTED_def CHUNK_GAP_ENDED_def CHUNK_ENDED_def
  CHUNK_POLICY_def CHUNK_TIMED_FRAME_def CHUNK_EPOCH_def CHUNK_CLOCK_PAIR_def
  CHUNK_TIMING_DISCONTINUITY_def CHUNK_ALIGNMENT_LIMIT_def

definition KEY_DOMAIN :: "byte list" where
  "KEY_DOMAIN = ascii_bytes ''conversation-runtime/session-recording/key/v1'' @ [0]"
definition KEY_ID_DOMAIN :: "byte list" where
  "KEY_ID_DOMAIN = ascii_bytes ''conversation-runtime/session-recording/key-id/v1'' @ [0]"
definition CAPABILITY_DOMAIN :: "byte list" where
  "CAPABILITY_DOMAIN = ascii_bytes ''conversation-runtime/finalized-recording-capability/v1'' @ [0]"

section \<open>Hexadecimal\<close>

definition is_lowercase_hex_byte :: "byte \<Rightarrow> bool" where
  "is_lowercase_hex_byte b \<longleftrightarrow> (48 \<le> b \<and> b \<le> 57) \<or> (97 \<le> b \<and> b \<le> 102)"

text \<open>\<open>char::from_digit\<close> and \<open>char::to_digit\<close> in base 16.\<close>

definition hex_digit :: "nat \<Rightarrow> rchar" where
  "hex_digit n = (if n < 10 then 48 + n else 87 + n)"

definition to_digit :: "nat \<Rightarrow> nat option" where
  "to_digit c = (if 48 \<le> c \<and> c \<le> 57 then Some (c - 48)
                 else if 97 \<le> c \<and> c \<le> 102 then Some (c - 87)
                 else if 65 \<le> c \<and> c \<le> 70 then Some (c - 55) else None)"

definition lowercase_hex :: "byte list \<Rightarrow> rstring" where
  "lowercase_hex bytes = concat (map (\<lambda>b. [hex_digit (unat b div 16), hex_digit (unat b mod 16)]) bytes)"

fun hex_pairs :: "byte list \<Rightarrow> byte list option" where
  "hex_pairs (a # b # rest) =
     (case (to_digit (unat a), to_digit (unat b), hex_pairs rest) of
        (Some h, Some l, Some bs) \<Rightarrow> Some (byte_of (h * 16 + l) # bs)
      | _ \<Rightarrow> None)"
| "hex_pairs _ = Some []"

text \<open>\<open>decode_hex::<N>\<close>; the handle is its instance for sixteen bytes.\<close>

definition decode_hex :: "nat \<Rightarrow> rstring \<Rightarrow> byte list option" where
  "decode_hex n value =
     (if str_len value \<noteq> n * 2 \<or> \<not> list_all is_lowercase_hex_byte (as_bytes value) then None
      else hex_pairs (as_bytes value))"

definition decode_handle :: "rstring \<Rightarrow> byte list option" where
  "decode_handle handle =
     (if str_len handle \<noteq> HANDLE_LEN \<or> \<not> list_all is_lowercase_hex_byte (as_bytes handle) then None
      else hex_pairs (as_bytes handle))"

definition is_environment_name :: "rstring \<Rightarrow> bool" where
  "is_environment_name name \<longleftrightarrow>
     name \<noteq> [] \<and> str_len name \<le> MAX_KEY_ENV_BYTES
     \<and> \<not> (case name of [] \<Rightarrow> False | c # _ \<Rightarrow> 48 \<le> c \<and> c \<le> 57)
     \<and> list_all (\<lambda>b. (65 \<le> b \<and> b \<le> 90) \<or> (48 \<le> b \<and> b \<le> 57) \<or> b = 95) (as_bytes name)"

section \<open>Keys and capabilities\<close>

text \<open>The functions of the \<^verbatim>\<open>ring\<close> library that the recording uses.\<close>

record Ring =
  ring_sha256 :: "byte list \<Rightarrow> byte list"
  ring_aead_key :: "byte list \<Rightarrow> bool"
  ring_seal :: "byte list \<Rightarrow> byte list \<Rightarrow> byte list \<Rightarrow> byte list \<Rightarrow> byte list option"
  ring_open :: "byte list \<Rightarrow> byte list \<Rightarrow> byte list \<Rightarrow> byte list \<Rightarrow> byte list option"
  ring_hkdf :: "byte list \<Rightarrow> byte list \<Rightarrow> byte list \<Rightarrow> byte list option"
  ring_hmac :: "byte list \<Rightarrow> byte list \<Rightarrow> byte list"

record RecordingKey =
  rk_key :: "byte list"
  rk_key_id :: rstring
  rk_capability_key :: "byte list"

definition derive :: "Ring \<Rightarrow> byte list \<Rightarrow> byte list \<Rightarrow> byte list" where
  "derive ring domain material = ring_sha256 ring (domain @ material)"

definition to_ascii_lowercase :: "rstring \<Rightarrow> rstring" where
  "to_ascii_lowercase s = map (\<lambda>c. if 65 \<le> c \<and> c \<le> 90 then c + 32 else c) s"

text \<open>The root key decodes (\<open>decode_hex_total\<close>), so the \<^verbatim>\<open>expect\<close> on it never panics.\<close>

definition from_environment ::
  "Ring \<Rightarrow> (rstring \<Rightarrow> rstring option) \<Rightarrow> rstring \<Rightarrow> RecordingKey result" where
  "from_environment ring env key_env =
     (if \<not> is_environment_name key_env
      then Inl (recording_configuration_error ''recording key variable name is not a valid environment name'')
      else
        let unset = recording_configuration_error
              (''recording key environment variable '' @ map char_of key_env @ '' is not set'')
        in (case env key_env of
              None \<Rightarrow> Inl unset
            | Some value \<Rightarrow>
                if trim value = [] then Inl unset
                else
                  let material = to_ascii_lowercase (trim value) in
                  if str_len material \<noteq> RECORDING_KEY_HEX_LEN
                     \<or> \<not> list_all is_lowercase_hex_byte (as_bytes material)
                  then Inl (recording_configuration_error
                    (''recording key environment variable '' @ map char_of key_env
                     @ '' must hold a 256-bit key as 64 hexadecimal characters''))
                  else
                    let derived = derive ring KEY_DOMAIN (as_bytes material);
                        key_id = lowercase_hex (take 8 (derive ring KEY_ID_DOMAIN (as_bytes material)))
                    in if \<not> ring_aead_key ring derived
                       then Inl (adapter_error ''recording key could not be prepared'')
                       else (case ring_hkdf ring CAPABILITY_DOMAIN (the (decode_hex 32 material)) CAPABILITY_DOMAIN of
                               None \<Rightarrow> Inl (adapter_error ''recording authorization could not be prepared'')
                             | Some capability_key \<Rightarrow>
                                 Inr \<lparr>rk_key = derived, rk_key_id = key_id,
                                      rk_capability_key = capability_key\<rparr>)))"

record FinalizedRecordingCapability =
  fc_source_session_id :: SessionId
  fc_recording_handle :: rstring
  fc_sha256 :: rstring
  fc_key_id :: rstring
  fc_authorization :: rstring

definition capability_valid :: "FinalizedRecordingCapability \<Rightarrow> bool" where
  "capability_valid c \<longleftrightarrow>
     (let hex = (\<lambda>value n. str_len value = n \<and> list_all is_lowercase_hex_byte (as_bytes value))
      in fc_source_session_id c \<noteq> 0 \<and> hex (fc_recording_handle c) 32 \<and> hex (fc_sha256 c) 64
         \<and> hex (fc_key_id c) 16 \<and> hex (fc_authorization c) 64)"

definition capability_fields :: "FinalizedRecordingCapability \<Rightarrow> byte list result" where
  "capability_fields c =
     (if \<not> capability_valid c then Inl recovery_error
      else (case (decode_hex 16 (fc_recording_handle c), decode_hex 32 (fc_sha256 c), decode_hex 8 (fc_key_id c)) of
              (Some handle, Some sha, Some key_id) \<Rightarrow>
                Inr (CAPABILITY_DOMAIN @ u64_to_be (fc_source_session_id c) @ handle @ sha @ key_id)
            | _ \<Rightarrow> Inl recovery_error))"

definition authorize ::
  "Ring \<Rightarrow> RecordingKey \<Rightarrow> FinalizedRecordingCapability \<Rightarrow> FinalizedRecordingCapability result" where
  "authorize ring key c =
     (let c0 = c\<lparr>fc_authorization := replicate 64 48\<rparr>
      in (case capability_fields c0 of
            Inl e \<Rightarrow> Inl e
          | Inr content \<Rightarrow>
              Inr (c0\<lparr>fc_authorization := lowercase_hex (ring_hmac ring (rk_capability_key key) content)\<rparr>)))"

definition verify_capability :: "Ring \<Rightarrow> RecordingKey \<Rightarrow> FinalizedRecordingCapability \<Rightarrow> unit result" where
  "verify_capability ring key c =
     (case capability_fields c of
        Inl e \<Rightarrow> Inl e
      | Inr content \<Rightarrow>
          (case decode_hex 32 (fc_authorization c) of
             None \<Rightarrow> Inl recovery_error
           | Some tag \<Rightarrow>
               if fc_key_id c \<noteq> rk_key_id key then Inl recovery_error
               else if tag = ring_hmac ring (rk_capability_key key) content then Inr ()
               else Inl recovery_error))"

section \<open>Header\<close>

definition make_header :: "bool \<Rightarrow> SessionId \<Rightarrow> byte list \<Rightarrow> byte list \<Rightarrow> byte list" where
  "make_header timed session_id nonce_prefix binding =
     (if timed then TIMED_MAGIC else MAGIC) @ [AEAD_AES_256_GCM] @ replicate 3 0
     @ u64_to_be session_id @ nonce_prefix @ binding @ replicate 4 0"

definition read_header :: "byte list \<Rightarrow> SessionId result" where
  "read_header header =
     (if take 8 header = SUPERSEDED_MAGIC
      then Inl (adapter_error ''recording uses a superseded header layout'')
      else if (take 8 header \<noteq> MAGIC \<and> take 8 header \<noteq> TIMED_MAGIC) \<or> header ! 8 \<noteq> AEAD_AES_256_GCM
      then Inl (adapter_error ''recording header is not recognised'')
      else if take 3 (drop 9 header) \<noteq> replicate 3 0 \<or> take 4 (drop 44 header) \<noteq> replicate 4 0
      then Inl (adapter_error ''recording header reserves are not zero'')
      else Inr (u64_at header 12))"

definition is_timed :: "byte list \<Rightarrow> bool" where
  "is_timed header \<longleftrightarrow> take 8 header = TIMED_MAGIC"

definition header_binding :: "byte list \<Rightarrow> byte list" where
  "header_binding header = take 16 (drop 28 header)"

definition chunk_nonce :: "byte list \<Rightarrow> u32 \<Rightarrow> byte list" where
  "chunk_nonce header counter = take 8 (drop 20 header) @ u32_to_be counter"

definition chunk_aad :: "byte list \<Rightarrow> u32 \<Rightarrow> byte list" where
  "chunk_aad header counter = header @ u32_to_be counter"

section \<open>Records\<close>

datatype RecordedChunk =
    Rec_TimedFrame u64 PcmFormat "FrameProvenance option" "byte list"
  | Rec_TimingPolicy
  | Rec_CaptureMetadata CaptureMetadata
  | Rec_AlignmentLimit
  | Rec_Frame u64 u64 u32 u16 PcmSampleFormat "byte list"
  | Rec_GapStarted u64 rstring
  | Rec_GapEnded u64
  | Rec_Ended u64

fun sample_format_code :: "PcmSampleFormat \<Rightarrow> byte" where
  "sample_format_code Signed16LittleEndian = 1"
| "sample_format_code Float32LittleEndian = 2"

definition sample_format_from_code :: "byte \<Rightarrow> PcmSampleFormat result" where
  "sample_format_from_code code =
     (if code = 1 then Inr Signed16LittleEndian else if code = 2 then Inr Float32LittleEndian
      else Inl (adapter_error ''recording sample format is not recognised''))"

fun sample_format_name :: "PcmSampleFormat \<Rightarrow> string" where
  "sample_format_name Signed16LittleEndian = ''pcm_s16le''"
| "sample_format_name Float32LittleEndian = ''pcm_f32le''"

definition format_label :: "PcmFormat option \<Rightarrow> string" where
  "format_label format =
     (case format of
        None \<Rightarrow> EMPTY_RECORDING_FORMAT
      | Some f \<Rightarrow> sample_format_name (pf_sample_format f) @ ''/'' @ show_word (pf_sample_rate_hz f)
                  @ ''/'' @ show_word (pf_channels f))"

definition frame_record :: "u64 \<Rightarrow> AudioFrame \<Rightarrow> byte list" where
  "frame_record at_ms frame =
     [CHUNK_FRAME] @ u64_to_be at_ms @ u64_to_be (af_sequence frame)
     @ u32_to_be (pf_sample_rate_hz (af_format frame)) @ u16_to_be (pf_channels (af_format frame))
     @ [sample_format_code (pf_sample_format (af_format frame))] @ af_bytes frame"

definition timed_frame_record :: "u64 \<Rightarrow> PcmFormat \<Rightarrow> byte list option \<Rightarrow> byte list \<Rightarrow> byte list" where
  "timed_frame_record at_ms format timing bytes =
     [CHUNK_TIMED_FRAME] @ u64_to_be at_ms @ [sample_format_code (pf_sample_format format)]
     @ u32_to_be (pf_sample_rate_hz format) @ u16_to_be (pf_channels format)
     @ [if timing \<noteq> None then 1 else 0] @ (case timing of None \<Rightarrow> [] | Some t \<Rightarrow> t) @ bytes"

text \<open>The reasons are the two constants above, whose lengths fit a byte.\<close>

definition gap_started_record :: "u64 \<Rightarrow> rstring \<Rightarrow> byte list" where
  "gap_started_record at_ms reason =
     [CHUNK_GAP_STARTED] @ u64_to_be at_ms @ [byte_of (str_len reason)] @ as_bytes reason"

definition gap_ended_record :: "u64 \<Rightarrow> byte list" where
  "gap_ended_record at_ms = [CHUNK_GAP_ENDED] @ u64_to_be at_ms"

definition ended_record :: "u64 \<Rightarrow> byte list" where
  "ended_record at_ms = [CHUNK_ENDED] @ u64_to_be at_ms"

definition policy_record :: "byte list" where
  "policy_record =
     [CHUNK_POLICY] @ u64_to_be 1000000000 @ u64_to_be 5000000 @ u64_to_be 2000000000 @ u64_to_be 10000000"

fun metadata_record :: "CaptureMetadata \<Rightarrow> byte list result" where
  "metadata_record (Meta_Epoch epoch) =
     (case CaptureEpoch_encode epoch of Inl _ \<Rightarrow> Inl recovery_error | Inr body \<Rightarrow> Inr (CHUNK_EPOCH # body))"
| "metadata_record (Meta_ClockPair pair) =
     (case CaptureClockPair_encode pair of
        Inl _ \<Rightarrow> Inl recovery_error | Inr body \<Rightarrow> Inr (CHUNK_CLOCK_PAIR # body))"
| "metadata_record (Meta_Discontinuity capture_epoch reason) =
     (if capture_epoch = 0 then Inl recovery_error
      else Inr (CHUNK_TIMING_DISCONTINUITY # u64_to_be capture_epoch @ [reason_code reason]))"

definition decode_timed_frame :: "byte list \<Rightarrow> RecordedChunk result" where
  "decode_timed_frame body =
     (if length body < 16 then Inl recovery_error
      else (case sample_format_from_code (body ! 8) of Inl e \<Rightarrow> Inl e | Inr sf \<Rightarrow>
           (case PcmFormat_new (u32_at body 9) (u16_at body 13) sf of
              Inl _ \<Rightarrow> Inl recovery_error
            | Inr format \<Rightarrow>
           (case (if body ! 15 = 0 then Inr (None, 16)
                  else if body ! 15 = 1 \<and> length body \<ge> 16 + CAPTURE_TIMING_BYTES
                  then (case FrameProvenance_decode (take CAPTURE_TIMING_BYTES (drop 16 body)) of
                          Inl _ \<Rightarrow> Inl recovery_error
                        | Inr t \<Rightarrow> Inr (Some t, 16 + CAPTURE_TIMING_BYTES))
                  else Inl recovery_error) of
              Inl e \<Rightarrow> Inl e
            | Inr (timing, offset) \<Rightarrow>
                let bytes = drop offset body in
                if bytes = [] \<or> length bytes > MAX_PCM_FRAME_BYTES
                   \<or> (case frame_alignment_bytes format of Inl _ \<Rightarrow> True | Inr a \<Rightarrow> \<not> a dvd length bytes)
                then Inl recovery_error
                else if (case timing of None \<Rightarrow> False
                         | Some t \<Rightarrow> validate_pcm t format (length bytes) \<noteq> Inr ())
                then Inl recovery_error
                else Inr (Rec_TimedFrame (u64_at body 0) format timing bytes)))))"

definition decode_frame :: "byte list \<Rightarrow> RecordedChunk result" where
  "decode_frame body =
     (if length body < 23 then Inl (adapter_error ''recording frame chunk is truncated'')
      else (case sample_format_from_code (body ! 22) of
              Inl e \<Rightarrow> Inl e
            | Inr sf \<Rightarrow>
                Inr (Rec_Frame (u64_at body 0) (u64_at body 8) (u32_at body 16) (u16_at body 20)
                       sf (drop 23 body))))"

definition decode_gap_started :: "byte list \<Rightarrow> RecordedChunk result" where
  "decode_gap_started body =
     (if length body < 9 then Inl (adapter_error ''recording gap chunk is truncated'')
      else if length body < 9 + unat (body ! 8) then Inl (adapter_error ''recording gap chunk is truncated'')
      else (case from_utf8 (take (unat (body ! 8)) (drop 9 body)) of
              None \<Rightarrow> Inl (adapter_error ''recording gap reason is not text'')
            | Some reason \<Rightarrow> Inr (Rec_GapStarted (u64_at body 0) reason)))"

definition decode_chunk :: "byte list \<Rightarrow> RecordedChunk result" where
  "decode_chunk chunk =
     (case chunk of
        [] \<Rightarrow> Inl (adapter_error ''recording chunk is empty'')
      | kind # body \<Rightarrow>
          if kind = CHUNK_POLICY \<and> chunk = policy_record then Inr Rec_TimingPolicy
          else if kind = CHUNK_TIMED_FRAME then decode_timed_frame body
          else if kind = CHUNK_EPOCH
          then map_sum (\<lambda>_. recovery_error) (\<lambda>e. Rec_CaptureMetadata (Meta_Epoch e)) (CaptureEpoch_decode body)
          else if kind = CHUNK_CLOCK_PAIR
          then map_sum (\<lambda>_. recovery_error) (\<lambda>p. Rec_CaptureMetadata (Meta_ClockPair p)) (CaptureClockPair_decode body)
          else if kind = CHUNK_TIMING_DISCONTINUITY \<and> length body = 9
          then (if u64_at body 0 = 0 then Inl recovery_error
                else map_sum (\<lambda>_. recovery_error)
                  (\<lambda>r. Rec_CaptureMetadata (Meta_Discontinuity (u64_at body 0) r)) (reason_decode (body ! 8)))
          else if kind = CHUNK_ALIGNMENT_LIMIT \<and> body = [] then Inr Rec_AlignmentLimit
          else if kind = CHUNK_FRAME then decode_frame body
          else if kind = CHUNK_GAP_STARTED then decode_gap_started body
          else if kind = CHUNK_GAP_ENDED \<or> kind = CHUNK_ENDED
          then (if length body \<noteq> 8 then Inl (adapter_error ''recording chunk is truncated'')
                else Inr (if kind = CHUNK_GAP_ENDED then Rec_GapEnded (u64_at body 0) else Rec_Ended (u64_at body 0)))
          else Inl (adapter_error ''recording chunk kind is not recognised''))"

section \<open>Lemmas: hexadecimal\<close>

lemma unat_byte_lt: "unat (b :: byte) < 256"
  using unsigned_less [of b, where 'a = nat] by simp

lemma hex_digit_bounds: "n < 16 \<Longrightarrow> 48 \<le> hex_digit n \<and> hex_digit n \<le> 102 \<and> hex_digit n < 128"
  by (auto simp: hex_digit_def)

lemma to_digit_hex_digit: "n < 16 \<Longrightarrow> to_digit (hex_digit n) = Some n"
  by (auto simp: to_digit_def hex_digit_def)

lemma as_bytes_hex_digit: "n < 16 \<Longrightarrow> as_bytes (hex_digit n # s) = byte_of (hex_digit n) # as_bytes s"
  using hex_digit_bounds [of n] by (simp add: utf8_char_def)

lemma hex_digit_is_hex: "n < 16 \<Longrightarrow> is_lowercase_hex_byte (byte_of (hex_digit n))"
  by (auto simp: is_lowercase_hex_byte_def hex_digit_def word_le_nat_alt unat_byte)

lemma unat_hex_digit: "n < 16 \<Longrightarrow> unat (byte_of (hex_digit n)) = hex_digit n"
  using hex_digit_bounds [of n] by (intro unat_byte) simp

lemma lowercase_hex_simps [simp]:
  "lowercase_hex [] = []"
  "lowercase_hex (b # bs) = hex_digit (unat b div 16) # hex_digit (unat b mod 16) # lowercase_hex bs"
  by (simp_all add: lowercase_hex_def)

lemma nibbles: "unat (b :: byte) div 16 < 16" "unat b mod 16 < 16"
  using unat_byte_lt [of b] by auto

lemma lowercase_hex_facts:
  "str_len (lowercase_hex bs) = 2 * length bs
   \<and> list_all is_lowercase_hex_byte (as_bytes (lowercase_hex bs))
   \<and> hex_pairs (as_bytes (lowercase_hex bs)) = Some bs"
proof (induction bs)
  case (Cons b bs)
  have d: "len_utf8 (hex_digit n) = 1" if "n < 16" for n
    using hex_digit_bounds [OF that] by (simp add: len_utf8_def)
  show ?case
    using Cons nibbles [of b]
    by (simp add: as_bytes_hex_digit hex_digit_is_hex unat_hex_digit to_digit_hex_digit d
        del: as_bytes_simps)
qed simp

lemma decode_hex_lowercase_hex: "length bs = n \<Longrightarrow> decode_hex n (lowercase_hex bs) = Some bs"
  using lowercase_hex_facts [of bs] by (simp add: decode_hex_def)

lemma decode_handle_lowercase_hex: "length bs = 16 \<Longrightarrow> decode_handle (lowercase_hex bs) = Some bs"
  using lowercase_hex_facts [of bs] by (simp add: decode_handle_def HANDLE_LEN_def BINDING_BYTES_def)

lemma hex_byte_digit: "is_lowercase_hex_byte b \<Longrightarrow> \<exists>d. to_digit (unat b) = Some d"
  by (auto simp: is_lowercase_hex_byte_def to_digit_def word_le_nat_alt)

lemma hex_pairs_total: "list_all is_lowercase_hex_byte bs \<Longrightarrow> \<exists>out. hex_pairs bs = Some out \<and> length out = length bs div 2"
proof (induction bs rule: hex_pairs.induct)
  case (1 a b rest)
  obtain h l where "to_digit (unat a) = Some h" "to_digit (unat b) = Some l"
    using 1 hex_byte_digit by (auto dest!: hex_byte_digit)
  then show ?case using 1 by auto
qed simp_all

lemma decode_hex_total:
  "str_len s = n * 2 \<Longrightarrow> list_all is_lowercase_hex_byte (as_bytes s) \<Longrightarrow>
   \<exists>out. decode_hex n s = Some out \<and> length out = n"
  using hex_pairs_total [of "as_bytes s"] by (simp add: decode_hex_def)

section \<open>Lemmas: records\<close>

definition provenance_bytes :: "FrameProvenance \<Rightarrow> byte list" where
  "provenance_bytes f = (case FrameProvenance_encode f of Inl _ \<Rightarrow> [] | Inr b \<Rightarrow> b)"

text \<open>The record of a chunk, and the chunks that have one.\<close>

fun record_of :: "RecordedChunk \<Rightarrow> byte list" where
  "record_of (Rec_TimedFrame at_ms format timing bytes) =
     timed_frame_record at_ms format (map_option provenance_bytes timing) bytes"
| "record_of Rec_TimingPolicy = policy_record"
| "record_of (Rec_CaptureMetadata m) = (case metadata_record m of Inl _ \<Rightarrow> [] | Inr r \<Rightarrow> r)"
| "record_of Rec_AlignmentLimit = [CHUNK_ALIGNMENT_LIMIT]"
| "record_of (Rec_Frame at_ms sequence rate channels sf bytes) =
     [CHUNK_FRAME] @ u64_to_be at_ms @ u64_to_be sequence @ u32_to_be rate @ u16_to_be channels
     @ [sample_format_code sf] @ bytes"
| "record_of (Rec_GapStarted at_ms reason) = gap_started_record at_ms reason"
| "record_of (Rec_GapEnded at_ms) = gap_ended_record at_ms"
| "record_of (Rec_Ended at_ms) = ended_record at_ms"

fun metadata_text :: "CaptureMetadata \<Rightarrow> bool" where
  "metadata_text (Meta_Epoch e) = epoch_text e"
| "metadata_text (Meta_ClockPair p) = pair_text p"
| "metadata_text (Meta_Discontinuity _ _) = True"

fun chunk_ok :: "RecordedChunk \<Rightarrow> bool" where
  "chunk_ok (Rec_TimedFrame at_ms format timing bytes) =
     (pcm_ok format \<and> bytes \<noteq> [] \<and> length bytes \<le> MAX_PCM_FRAME_BYTES
      \<and> (unat (pf_channels format) * bytes_per_sample (pf_sample_format format)) dvd length bytes
      \<and> (case timing of None \<Rightarrow> True | Some t \<Rightarrow> validate_pcm t format (length bytes) = Inr ()))"
| "chunk_ok (Rec_CaptureMetadata m) = (metadata_text m \<and> (\<exists>r. metadata_record m = Inr r))"
| "chunk_ok (Rec_GapStarted at_ms reason) = (valid_str reason \<and> str_len reason < 256)"
| "chunk_ok _ = True"

lemma sample_format_from_code_iff: "sample_format_from_code c = Inr sf \<longleftrightarrow> c = sample_format_code sf"
  by (cases sf) (auto simp: sample_format_from_code_def split: if_splits)

lemma PcmFormat_new_iff:
  "PcmFormat_new rate channels sf = Inr f \<longleftrightarrow>
     pcm_ok f \<and> f = \<lparr>pf_sample_rate_hz = rate, pf_channels = channels, pf_sample_format = sf\<rparr>"
  by (auto simp: PcmFormat_new_def pcm_ok_def)

lemma validate_pcm_encodes:
  assumes "validate_pcm t format n = Inr ()"
  shows "FrameProvenance_encode t = Inr (provenance_bytes t)"
    and "FrameProvenance_decode (provenance_bytes t) = Inr t"
    and "length (provenance_bytes t) = 88"
proof -
  have "FrameProvenance_validate t = Inr ()"
    using assms by (auto simp: validate_pcm_def split: sum.splits)
  then show e: "FrameProvenance_encode t = Inr (provenance_bytes t)"
    by (auto simp: FrameProvenance_encode_def provenance_bytes_def)
  then show "FrameProvenance_decode (provenance_bytes t) = Inr t" by (simp add: frame_codec.decode_iff)
  then show "length (provenance_bytes t) = 88"
    by (auto simp: FrameProvenance_decode_def CAPTURE_TIMING_BYTES_def split: if_splits)
qed

lemma decode_timed_frame_record:
  assumes "chunk_ok (Rec_TimedFrame at_ms format timing bytes)"
  shows "decode_chunk (record_of (Rec_TimedFrame at_ms format timing bytes))
     = Inr (Rec_TimedFrame at_ms format timing bytes)"
proof -
  have f: "PcmFormat_new (pf_sample_rate_hz format) (pf_channels format) (pf_sample_format format) = Inr format"
    using assms by (simp add: PcmFormat_new_iff)
  have s: "sample_format_from_code (sample_format_code x) = Inr x" for x
    by (simp add: sample_format_from_code_iff)
  show ?thesis
  proof (cases timing)
    case None
    then show ?thesis
      using assms
      by (simp add: decode_chunk_def timed_frame_record_def chunk_kinds decode_timed_frame_def s f
          u64_at_def u32_at_def u16_at_def nth_append frame_alignment_ok Let_def)
  next
    case (Some t)
    then have "validate_pcm t format (length bytes) = Inr ()" using assms by simp
    note t = this validate_pcm_encodes [OF this]
    show ?thesis
      using assms t Some
      by (simp add: decode_chunk_def timed_frame_record_def chunk_kinds decode_timed_frame_def s f
          u64_at_def u32_at_def u16_at_def nth_append frame_alignment_ok Let_def CAPTURE_TIMING_BYTES_def)
  qed
qed

lemma decode_metadata_record:
  assumes "metadata_text m" "metadata_record m = Inr r"
  shows "decode_chunk r = Inr (Rec_CaptureMetadata m)"
proof (cases m)
  case (Meta_Epoch e)
  then obtain body where "r = CHUNK_EPOCH # body" "CaptureEpoch_decode body = Inr e"
    using assms by (auto simp: epoch_codec.decode_iff split: sum.splits)
  then show ?thesis by (simp add: decode_chunk_def chunk_kinds Meta_Epoch)
next
  case (Meta_ClockPair p)
  then obtain body where "r = CHUNK_CLOCK_PAIR # body" "CaptureClockPair_decode body = Inr p"
    using assms by (auto simp: pair_codec.decode_iff split: sum.splits)
  then show ?thesis by (simp add: decode_chunk_def chunk_kinds Meta_ClockPair)
next
  case (Meta_Discontinuity e reason)
  have "reason_decode (reason_code reason) = Inr reason" by (simp add: reason_decode_iff)
  then show ?thesis
    using assms
    by (auto simp: Meta_Discontinuity decode_chunk_def chunk_kinds u64_at_def nth_append split: if_splits)
qed

lemma decode_record:
  assumes "chunk_ok c"
  shows "decode_chunk (record_of c) = Inr c"
proof (cases c)
  case (Rec_TimedFrame at_ms format timing bytes)
  then show ?thesis using assms decode_timed_frame_record by blast
next
  case (Rec_CaptureMetadata m)
  then show ?thesis using assms decode_metadata_record [of m] by auto
next
  case (Rec_Frame at_ms sequence rate channels sf bytes)
  have "sample_format_from_code (sample_format_code sf) = Inr sf" by (simp add: sample_format_from_code_iff)
  then show ?thesis
    by (simp add: Rec_Frame decode_chunk_def chunk_kinds decode_frame_def u64_at_def u32_at_def u16_at_def
        nth_append)
next
  case (Rec_GapStarted at_ms reason)
  then show ?thesis
    using assms
    by (simp add: decode_chunk_def gap_started_record_def chunk_kinds decode_gap_started_def u64_at_def
        nth_append unat_byte from_utf8_as_bytes)
qed (simp_all add: decode_chunk_def gap_ended_record_def ended_record_def chunk_kinds policy_record_def u64_at_def)

text \<open>The check a strict reader makes before it decodes a gap record.\<close>

definition strict_ok :: "byte list \<Rightarrow> bool" where
  "strict_ok chunk \<longleftrightarrow>
     \<not> (chunk \<noteq> [] \<and> chunk ! 0 = CHUNK_GAP_STARTED
        \<and> (length chunk < 10 \<or> length chunk \<noteq> 10 + unat (chunk ! 9)))"

lemma timed_frame_slices:
  assumes "length body \<ge> 16"
  shows "body = take 8 body @ [body ! 8] @ take 4 (drop 9 body) @ take 2 (drop 13 body) @ [body ! 15] @ drop 16 body"
proof -
  have one: "drop n body = body ! n # drop (Suc n) body" if "n < 16" for n
    using assms that Cons_nth_drop_Suc [of n body] by simp
  show ?thesis
    using slice_append [of 8 0 body] slice_append [of 4 9 body] slice_append [of 2 13 body]
      one [of 8] one [of 15] by simp
qed

lemma decode_timed_frame_sound:
  assumes "decode_timed_frame body = Inr c"
  shows "chunk_ok c \<and> record_of c = CHUNK_TIMED_FRAME # body"
proof -
  have len: "length body \<ge> 16" using assms by (auto simp: decode_timed_frame_def split: if_splits)
  obtain sf format where sf: "body ! 8 = sample_format_code sf"
    and format: "pcm_ok format"
      "format = \<lparr>pf_sample_rate_hz = u32_at body 9, pf_channels = u16_at body 13, pf_sample_format = sf\<rparr>"
    and rest: "(case (if body ! 15 = 0 then Inr (None, 16)
                  else if body ! 15 = 1 \<and> length body \<ge> 16 + CAPTURE_TIMING_BYTES
                  then (case FrameProvenance_decode (take CAPTURE_TIMING_BYTES (drop 16 body)) of
                          Inl _ \<Rightarrow> Inl recovery_error
                        | Inr t \<Rightarrow> Inr (Some t, 16 + CAPTURE_TIMING_BYTES))
                  else Inl recovery_error) of
              Inl e \<Rightarrow> Inl e
            | Inr (timing, offset) \<Rightarrow>
                let bytes = drop offset body in
                if bytes = [] \<or> length bytes > MAX_PCM_FRAME_BYTES
                   \<or> (case frame_alignment_bytes format of Inl _ \<Rightarrow> True | Inr a \<Rightarrow> \<not> a dvd length bytes)
                then Inl recovery_error
                else if (case timing of None \<Rightarrow> False
                         | Some t \<Rightarrow> validate_pcm t format (length bytes) \<noteq> Inr ())
                then Inl recovery_error
                else Inr (Rec_TimedFrame (u64_at body 0) format timing bytes)) = Inr c"
    using assms len unfolding decode_timed_frame_def
    by (auto simp: sample_format_from_code_iff PcmFormat_new_iff split: sum.splits)
  have head: "body = u64_to_be (u64_at body 0) @ [sample_format_code sf] @ u32_to_be (u32_at body 9)
      @ u16_to_be (u16_at body 13) @ [body ! 15] @ drop 16 body"
    using timed_frame_slices [OF len] field_bytes [of 0 body] field_bytes [of 9 body] field_bytes [of 13 body]
      sf len by simp
  show ?thesis
  proof (cases "body ! 15 = 0")
    case True
    then have "c = Rec_TimedFrame (u64_at body 0) format None (drop 16 body)" "chunk_ok c"
      using rest format(1) by (auto simp: Let_def frame_alignment_ok split: if_splits)
    then show ?thesis using head True format(2) by (simp add: timed_frame_record_def)
  next
    case False
    then obtain t where t: "body ! 15 = 1" "length body \<ge> 104"
      "FrameProvenance_decode (take 88 (drop 16 body)) = Inr t"
      using rest by (auto simp: CAPTURE_TIMING_BYTES_def split: if_splits sum.splits)
    then have c: "c = Rec_TimedFrame (u64_at body 0) format (Some t) (drop 104 body)" "chunk_ok c"
      using rest format(1) by (auto simp: Let_def frame_alignment_ok CAPTURE_TIMING_BYTES_def split: if_splits)
    have "provenance_bytes t = take 88 (drop 16 body)"
      using t(3) by (simp add: frame_codec.decode_iff provenance_bytes_def)
    moreover have "take 88 (drop 16 body) @ drop 104 body = drop 16 body"
      using slice_append [of 88 16 body] by simp
    ultimately show ?thesis using head t(1) c format(2) by (simp add: timed_frame_record_def)
  qed
qed

lemma decode_frame_sound:
  assumes "decode_frame body = Inr c"
  shows "chunk_ok c \<and> record_of c = CHUNK_FRAME # body"
proof -
  have len: "length body \<ge> 23" using assms by (auto simp: decode_frame_def split: if_splits)
  then obtain sf where sf: "body ! 22 = sample_format_code sf"
    and c: "c = Rec_Frame (u64_at body 0) (u64_at body 8) (u32_at body 16) (u16_at body 20) sf (drop 23 body)"
    using assms by (auto simp: decode_frame_def sample_format_from_code_iff split: sum.splits if_splits)
  have "drop 22 body = body ! 22 # drop 23 body" using len Cons_nth_drop_Suc [of 22 body] by simp
  then have "body = take 8 body @ take 8 (drop 8 body) @ take 4 (drop 16 body) @ take 2 (drop 20 body)
      @ [body ! 22] @ drop 23 body"
    using slice_append [of 8 0 body] slice_append [of 8 8 body] slice_append [of 4 16 body]
      slice_append [of 2 20 body] by simp
  then show ?thesis
    using field_bytes [of 0 body] field_bytes [of 8 body] field_bytes [of 16 body] field_bytes [of 20 body]
      len sf c by simp
qed

lemma decode_gap_sound:
  assumes "decode_gap_started body = Inr c" "length body = 9 + unat (body ! 8)"
  shows "chunk_ok c \<and> record_of c = CHUNK_GAP_STARTED # body"
proof -
  have len: "length body \<ge> 9" using assms(1) by (auto simp: decode_gap_started_def split: if_splits)
  then obtain reason where r: "from_utf8 (drop 9 body) = Some reason" "c = Rec_GapStarted (u64_at body 0) reason"
    using assms by (auto simp: decode_gap_started_def split: option.splits if_splits)
  then have u: "valid_str reason" "as_bytes reason = drop 9 body" by (auto simp: from_utf8_iff)
  then have n: "str_len reason = unat (body ! 8)" using assms(2) by (metis diff_add_inverse length_as_bytes length_drop)
  have "drop 8 body = body ! 8 # drop 9 body" using len Cons_nth_drop_Suc [of 8 body] by simp
  then have "body = take 8 body @ [body ! 8] @ drop 9 body"
    using slice_append [of 8 0 body] by simp
  then show ?thesis
    using field_bytes [of 0 body] len r u n unat_byte_lt [of "body ! 8"]
    by (simp add: gap_started_record_def)
qed

lemma decode_metadata_sound:
  assumes "kind = CHUNK_EPOCH \<or> kind = CHUNK_CLOCK_PAIR \<or> kind = CHUNK_TIMING_DISCONTINUITY"
    and "decode_chunk (kind # body) = Inr c"
  shows "chunk_ok c \<and> record_of c = kind # body"
  using assms(1)
proof (elim disjE)
  assume k: "kind = CHUNK_EPOCH"
  then obtain e where "CaptureEpoch_decode body = Inr e" "c = Rec_CaptureMetadata (Meta_Epoch e)"
    using assms(2) by (cases "CaptureEpoch_decode body") (auto simp: decode_chunk_def chunk_kinds)
  then show ?thesis using k by (auto simp: epoch_codec.decode_iff)
next
  assume k: "kind = CHUNK_CLOCK_PAIR"
  then obtain p where "CaptureClockPair_decode body = Inr p" "c = Rec_CaptureMetadata (Meta_ClockPair p)"
    using assms(2) by (cases "CaptureClockPair_decode body") (auto simp: decode_chunk_def chunk_kinds)
  then show ?thesis using k by (auto simp: pair_codec.decode_iff)
next
  assume k: "kind = CHUNK_TIMING_DISCONTINUITY"
  then have len: "length body = 9" and e: "u64_at body 0 \<noteq> 0"
    using assms(2) by (auto simp: decode_chunk_def chunk_kinds split: if_splits)
  then obtain r where r: "reason_decode (body ! 8) = Inr r"
      "c = Rec_CaptureMetadata (Meta_Discontinuity (u64_at body 0) r)"
    using assms(2) k by (cases "reason_decode (body ! 8)") (auto simp: decode_chunk_def chunk_kinds)
  have "drop 8 body = [body ! 8]" using len Cons_nth_drop_Suc [of 8 body] by simp
  then have "body = take 8 body @ [body ! 8]" by (metis append_take_drop_id)
  then show ?thesis
    using field_bytes [of 0 body] len k r e by (simp add: reason_decode_iff)
qed

lemma decode_ended_sound:
  assumes "kind = CHUNK_GAP_ENDED \<or> kind = CHUNK_ENDED" "decode_chunk (kind # body) = Inr c"
  shows "chunk_ok c \<and> record_of c = kind # body"
proof -
  have "length body = 8" using assms by (auto simp: decode_chunk_def chunk_kinds split: if_splits)
  then have "u64_to_be (u64_at body 0) = body" using field_bytes [of 0 body] by simp
  then show ?thesis
    using assms by (auto simp: decode_chunk_def chunk_kinds gap_ended_record_def ended_record_def split: if_splits)
qed

lemma decode_chunk_sound:
  assumes "decode_chunk chunk = Inr c" "strict_ok chunk"
  shows "chunk_ok c \<and> record_of c = chunk"
proof (cases chunk)
  case (Cons kind body)
  note k = decode_metadata_sound [of kind body c] decode_ended_sound [of kind body c]
    decode_timed_frame_sound [of body c] decode_frame_sound [of body c]
  consider "kind = CHUNK_POLICY" | "kind = CHUNK_TIMED_FRAME" | "kind = CHUNK_FRAME" | "kind = CHUNK_GAP_STARTED"
    | "kind = CHUNK_ALIGNMENT_LIMIT"
    | "kind = CHUNK_EPOCH \<or> kind = CHUNK_CLOCK_PAIR \<or> kind = CHUNK_TIMING_DISCONTINUITY"
    | "kind = CHUNK_GAP_ENDED \<or> kind = CHUNK_ENDED"
    using assms(1) Cons by (auto simp: decode_chunk_def split: if_splits)
  then show ?thesis
  proof cases
    case 4
    then have "decode_gap_started body = Inr c" "length body = 9 + unat (body ! 8)"
      using assms Cons by (auto simp: decode_chunk_def chunk_kinds strict_ok_def split: if_splits)
    then show ?thesis using decode_gap_sound Cons 4 by simp
  qed (use assms(1) Cons k in \<open>auto simp: decode_chunk_def chunk_kinds split: if_splits\<close>)
qed (use assms(1) in \<open>simp add: decode_chunk_def\<close>)

lemma record_of_strict: "chunk_ok c \<Longrightarrow> strict_ok (record_of c)"
proof (cases c)
  case (Rec_CaptureMetadata m)
  then show "chunk_ok c \<Longrightarrow> ?thesis"
    by (cases m) (auto simp: strict_ok_def chunk_kinds split: sum.splits if_splits)
qed (simp_all add: strict_ok_def chunk_kinds timed_frame_record_def policy_record_def gap_started_record_def
    gap_ended_record_def ended_record_def nth_append unat_byte)

definition strict_decode :: "byte list \<Rightarrow> RecordedChunk result" where
  "strict_decode chunk = (if strict_ok chunk then decode_chunk chunk else Inl recovery_error)"

definition chunk_encode :: "RecordedChunk \<Rightarrow> byte list result" where
  "chunk_encode c = (if chunk_ok c then Inr (record_of c) else Inl recovery_error)"

interpretation chunk_codec: canonical chunk_encode strict_decode "\<lambda>_. True"
proof
  fix bs c
  show "strict_decode bs = Inr c \<longleftrightarrow> chunk_encode c = Inr bs \<and> True"
    using decode_chunk_sound [of bs c] decode_record [of c] record_of_strict [of c]
    by (auto simp: strict_decode_def chunk_encode_def)
qed

text \<open>
  C19: Recording records are canonical for a strict reader. A record that passes the strict check
  decodes to a chunk exactly when it is that chunk's one record, for all eight kinds of chunk; so
  nothing a recovery reader accepts can mean two things, and no two different records mean the same.
\<close>

theorem chunk_records_canonical:
  assumes "strict_ok chunk"
  shows "decode_chunk chunk = Inr c \<longleftrightarrow> chunk_ok c \<and> record_of c = chunk"
  using chunk_codec.decode_iff [of chunk c] assms by (auto simp: strict_decode_def chunk_encode_def)

lemma nat_to_be_numeral [simp]:
  "nat_to_be (numeral k) n = nat_to_be (pred_numeral k) (n div 256) @ [of_nat (n mod 256)]"
  by (metis nat_to_be.simps(2) numeral_eq_Suc)

theorem chunk_records_canonical_witness:
  "strict_ok [3, 0, 0, 0, 0, 0, 0, 0, 5] \<and> decode_chunk [3, 0, 0, 0, 0, 0, 0, 0, 5] = Inr (Rec_GapEnded 5)"
proof -
  have "u64_to_be 5 = [0, 0, 0, 0, 0, 0, 0, 5]" by (simp add: u64_to_be_def)
  then show ?thesis
    using chunk_records_canonical [of "[3, 0, 0, 0, 0, 0, 0, 0, 5]" "Rec_GapEnded 5"]
    by (simp add: strict_ok_def chunk_kinds gap_ended_record_def)
qed

section \<open>Capabilities\<close>

lemma hex_byte_canonical:
  assumes "is_lowercase_hex_byte b" "to_digit (unat b) = Some d"
  shows "d < 16 \<and> byte_of (hex_digit d) = b"
proof -
  have "d < 16 \<and> hex_digit d = unat b"
    using assms by (auto simp: is_lowercase_hex_byte_def to_digit_def hex_digit_def word_le_nat_alt split: if_splits)
  then show ?thesis by simp
qed

lemma hex_pairs_canonical:
  "list_all is_lowercase_hex_byte bs \<Longrightarrow> even (length bs) \<Longrightarrow> hex_pairs bs = Some t \<Longrightarrow>
   bs = as_bytes (lowercase_hex t)"
proof (induction bs arbitrary: t rule: hex_pairs.induct)
  case (1 a b rest)
  obtain h l u where d: "to_digit (unat a) = Some h" "to_digit (unat b) = Some l" "hex_pairs rest = Some u"
    and t: "t = byte_of (h * 16 + l) # u"
    using 1(4) by (auto split: option.splits)
  have hl: "h < 16" "l < 16" "byte_of (hex_digit h) = a" "byte_of (hex_digit l) = b"
    using hex_byte_canonical d 1(2) by auto
  then have "unat (byte_of (h * 16 + l)) = h * 16 + l" by (intro unat_byte) simp
  then show ?case
    using 1(1) [OF _ _ d(3)] 1(2,3) hl by (simp add: t as_bytes_hex_digit del: as_bytes_simps)
qed (auto simp: as_bytes_def)

lemma valid_str_lowercase_hex: "valid_str (lowercase_hex t)"
proof -
  have "scalar (hex_digit k)" if "k < 16" for k using hex_digit_bounds [OF that] by (simp add: scalar_def)
  then show ?thesis using nibbles by (induction t) (simp_all add: valid_str_def)
qed

lemma decode_hex_iff:
  assumes "valid_str v"
  shows "decode_hex n v = Some t \<longleftrightarrow> length t = n \<and> v = lowercase_hex t"
proof
  assume d: "decode_hex n v = Some t"
  then have v: "str_len v = n * 2" "list_all is_lowercase_hex_byte (as_bytes v)" "hex_pairs (as_bytes v) = Some t"
    by (auto simp: decode_hex_def split: if_splits)
  then have "as_bytes v = as_bytes (lowercase_hex t)" by (intro hex_pairs_canonical) simp_all
  moreover have "valid_str (lowercase_hex t)" by (rule valid_str_lowercase_hex)
  ultimately have "v = lowercase_hex t" using assms by (metis from_utf8_as_bytes option.inject)
  then show "length t = n \<and> v = lowercase_hex t" using v(1) lowercase_hex_facts [of t] by simp
qed (use decode_hex_lowercase_hex in blast)

lemma capability_fields_auth:
  assumes "str_len a = 64" "list_all is_lowercase_hex_byte (as_bytes a)"
  shows "capability_fields (c\<lparr>fc_authorization := a\<rparr>) = Inr x \<longleftrightarrow>
    (\<exists>handle sha key_id. fc_source_session_id c \<noteq> 0 \<and>
      decode_hex 16 (fc_recording_handle c) = Some handle \<and> decode_hex 32 (fc_sha256 c) = Some sha \<and>
      decode_hex 8 (fc_key_id c) = Some key_id \<and>
      x = CAPABILITY_DOMAIN @ u64_to_be (fc_source_session_id c) @ handle @ sha @ key_id)"
  using assms by (auto simp: capability_fields_def capability_valid_def Let_def decode_hex_def split: option.splits if_splits)

lemma zero_authorization: "str_len (replicate 64 48) = 64" "list_all is_lowercase_hex_byte (as_bytes (replicate 64 48))"
proof -
  have "str_len (replicate n 48) = n" for n by (induction n) (simp_all add: len_utf8_def)
  then show "str_len (replicate 64 48) = 64" .
  have "list_all is_lowercase_hex_byte (as_bytes (replicate n 48))" for n
    by (induction n) (simp_all add: utf8_char_def is_lowercase_hex_byte_def byte_of_def)
  then show "list_all is_lowercase_hex_byte (as_bytes (replicate 64 48))" .
qed

lemma authorized_fields:
  assumes "capability_valid c"
  shows "capability_fields c = capability_fields (c\<lparr>fc_authorization := replicate 64 48\<rparr>)"
proof -
  have "str_len (fc_authorization c) = 64" "list_all is_lowercase_hex_byte (as_bytes (fc_authorization c))"
    using assms by (auto simp: capability_valid_def Let_def)
  then have "capability_fields c = Inr x \<longleftrightarrow> capability_fields (c\<lparr>fc_authorization := replicate 64 48\<rparr>) = Inr x" for x
    using capability_fields_auth [of "fc_authorization c" c x] capability_fields_auth [OF zero_authorization, of c x] by simp
  moreover have "capability_fields d = Inl e \<Longrightarrow> e = recovery_error" for d e
    by (auto simp: capability_fields_def split: if_splits option.splits)
  ultimately show ?thesis by (metis obj_sumE)
qed

lemma verify_iff_issued:
  assumes "\<And>k m. length (ring_hmac ring k m) = 32" "valid_str (fc_authorization c)"
  shows "verify_capability ring key c = Inr () \<longleftrightarrow> fc_key_id c = rk_key_id key \<and> authorize ring key c = Inr c"
proof (cases "capability_valid c")
  case True
  note f = authorized_fields [OF True]
  show ?thesis
  proof (cases "capability_fields c")
    case (Inr x)
    then have a: "authorize ring key c = Inr (c\<lparr>fc_authorization := lowercase_hex (ring_hmac ring (rk_capability_key key) x)\<rparr>)"
      using f by (simp add: authorize_def)
    have u: "c\<lparr>fc_authorization := t\<rparr> = c \<longleftrightarrow> fc_authorization c = t" for t by (cases c) auto
    have "verify_capability ring key c = Inr () \<longleftrightarrow> fc_key_id c = rk_key_id key
        \<and> decode_hex 32 (fc_authorization c) = Some (ring_hmac ring (rk_capability_key key) x)"
      by (cases "decode_hex 32 (fc_authorization c)") (simp_all add: verify_capability_def Inr)
    then show ?thesis
      unfolding a sum.inject u decode_hex_iff [OF assms(2)] assms(1) by simp
  qed (use f in \<open>simp add: verify_capability_def authorize_def\<close>)
next
  case False
  have "authorize ring key c \<noteq> Inr c"
  proof
    assume a: "authorize ring key c = Inr c"
    then obtain x where x: "capability_fields (c\<lparr>fc_authorization := replicate 64 48\<rparr>) = Inr x"
      "c\<lparr>fc_authorization := lowercase_hex (ring_hmac ring (rk_capability_key key) x)\<rparr> = c"
      by (auto simp: authorize_def Let_def split: sum.splits)
    have "fc_authorization c = lowercase_hex (ring_hmac ring (rk_capability_key key) x)"
      using arg_cong [OF x(2), of fc_authorization] by simp
    then have "capability_valid c"
      using x(1) lowercase_hex_facts [of "ring_hmac ring (rk_capability_key key) x"] assms(1) 
      by (auto simp: capability_fields_def capability_valid_def Let_def split: if_splits)
    then show False using False by blast
  qed
  then show ?thesis using False by (simp add: verify_capability_def capability_fields_def)
qed

lemma issued_verifies:
  assumes "\<And>k m. length (ring_hmac ring k m) = 32" "authorize ring key c = Inr issued" "fc_key_id c = rk_key_id key"
  shows "verify_capability ring key issued = Inr ()"
proof -
  obtain x where x: "capability_fields (c\<lparr>fc_authorization := replicate 64 48\<rparr>) = Inr x"
    "issued = c\<lparr>fc_authorization := lowercase_hex (ring_hmac ring (rk_capability_key key) x)\<rparr>"
    using assms(2) by (auto simp: authorize_def Let_def split: sum.splits)
  then have "authorize ring key issued = Inr issued" by (simp add: authorize_def Let_def)
  moreover have "valid_str (fc_authorization issued)" "fc_key_id issued = rk_key_id key"
    using x(2) assms(3) by (simp_all add: valid_str_lowercase_hex)
  ultimately show ?thesis using verify_iff_issued [of ring issued key] assms(1) by simp
qed

text \<open>
  C21: A finalized recording's capability verifies exactly when it is the one the same key issues for
  its own fields: the key identifier is the key's, and authorizing the capability again reproduces
  it. (The message authentication code yields 32 bytes.)
\<close>

theorem capability_verifies_iff_issued:
  assumes "\<And>k m. length (ring_hmac ring k m) = 32" "valid_str (fc_authorization c)"
  shows "verify_capability ring key c = Inr () \<longleftrightarrow> fc_key_id c = rk_key_id key \<and> authorize ring key c = Inr c"
  using assms by (rule verify_iff_issued)

text \<open>A small library in place of \<^verbatim>\<open>ring\<close>: the tag of a sealed chunk is a constant.\<close>

definition plain_ring :: Ring where
  "plain_ring = \<lparr>ring_sha256 = (\<lambda>m. take 32 (m @ replicate 32 0)), ring_aead_key = (\<lambda>k. length k = 32),
     ring_seal = (\<lambda>k n a p. Some (p @ replicate 16 7)),
     ring_open = (\<lambda>k n a c. if 16 \<le> length c \<and> drop (length c - 16) c = replicate 16 7
                            then Some (take (length c - 16) c) else None),
     ring_hkdf = (\<lambda>salt root info. Some (take 32 (root @ replicate 32 0))),
     ring_hmac = (\<lambda>k m. replicate 32 5)\<rparr>"

definition plain_key :: RecordingKey where
  "plain_key = \<lparr>rk_key = replicate 32 1, rk_key_id = lowercase_hex (replicate 8 2), rk_capability_key = replicate 32 3\<rparr>"

definition plain_capability :: FinalizedRecordingCapability where
  "plain_capability = \<lparr>fc_source_session_id = 1, fc_recording_handle = lowercase_hex (replicate 16 9),
     fc_sha256 = lowercase_hex (replicate 32 4), fc_key_id = rk_key_id plain_key,
     fc_authorization = lowercase_hex (replicate 32 5)\<rparr>"

theorem capability_verifies_iff_issued_witness:
  "verify_capability plain_ring plain_key plain_capability = Inr ()"
proof -
  have v: "valid_str (fc_authorization plain_capability)"
    by (simp add: plain_capability_def valid_str_lowercase_hex)
  have "capability_fields (plain_capability\<lparr>fc_authorization := replicate 64 48\<rparr>)
      = Inr (CAPABILITY_DOMAIN @ u64_to_be 1 @ replicate 16 9 @ replicate 32 4 @ replicate 8 2)"
    by (subst capability_fields_auth [OF zero_authorization])
      (simp add: plain_capability_def plain_key_def decode_hex_lowercase_hex)
  then have "authorize plain_ring plain_key plain_capability = Inr plain_capability"
    by (simp add: authorize_def Let_def plain_ring_def) (simp add: plain_capability_def)
  then show ?thesis
    using capability_verifies_iff_issued [of plain_ring plain_capability plain_key] v
    by (simp add: plain_ring_def plain_capability_def)
qed

end
