(* ===== verification/Recording_Timeline.thy ===== *)
theory Recording_Timeline
  imports Recording_Format
begin

text \<open>
  What a recording's chunks mean, \<^verbatim>\<open>crates/runtime/src/session_recording.rs\<close>: the validation
  of timed chunks (\<open>TimedValidation\<close>), the media timeline rebuilt from chunks (\<open>MediaTimeline\<close>) and
  the summary stated from it.
\<close>

definition MAX_RECORDING_TIMING_RECORDS :: u64 where "MAX_RECORDING_TIMING_RECORDS = 1000000"
definition MAX_RECORDING_TIMING_BYTES :: u64 where "MAX_RECORDING_TIMING_BYTES = 128 * 1024 * 1024"

section \<open>Gaps and summaries\<close>

record RecordingGap =
  rg_started_at_ms :: u64
  rg_ended_at_ms :: "u64 option"
  rg_reason :: rstring

record RecordingSummary =
  su_recording_handle :: rstring
  su_encrypted_path :: rstring
  su_sha256 :: rstring
  su_duration_ms :: u64
  su_format :: string
  su_key_id :: rstring
  su_gaps :: "RecordingGap list"

definition clamped_gaps :: "RecordingGap list \<Rightarrow> u64 \<Rightarrow> RecordingGap list" where
  "clamped_gaps gaps duration =
     map (\<lambda>gap. \<lparr>rg_started_at_ms = min (rg_started_at_ms gap) duration,
                 rg_ended_at_ms = map_option (\<lambda>ended. min ended duration) (rg_ended_at_ms gap),
                 rg_reason = rg_reason gap\<rparr>) gaps"

text \<open>\<open>gaps.last_mut()\<close>: an update of the last gap, if there is one.\<close>

definition update_last :: "('a \<Rightarrow> 'a) \<Rightarrow> 'a list \<Rightarrow> 'a list" where
  "update_last f xs = (if xs = [] then [] else butlast xs @ [f (last xs)])"

definition open_gap :: "u64 \<Rightarrow> RecordingGap list \<Rightarrow> RecordingGap list" where
  "open_gap media_ms gaps =
     (if length gaps < MAX_RECORDING_GAPS
      then gaps @ [\<lparr>rg_started_at_ms = media_ms, rg_ended_at_ms = None, rg_reason = CAPTURE_DISCONTINUITY_REASON\<rparr>]
      else update_last (\<lambda>gap. gap\<lparr>rg_ended_at_ms := None\<rparr>) gaps)"

definition close_gap :: "u64 \<Rightarrow> RecordingGap list \<Rightarrow> RecordingGap list" where
  "close_gap media_ms gaps = update_last (\<lambda>gap. gap\<lparr>rg_ended_at_ms := Some media_ms\<rparr>) gaps"

definition exact_media_ms :: "u64 \<Rightarrow> u32 \<Rightarrow> u64 \<Rightarrow> u64 result" where
  "exact_media_ms samples rate gap_ms =
     (if rate = 0 then Inl recovery_error
      else (case try_word (unat samples * 1000 div unat rate) of
              None \<Rightarrow> Inl recovery_error
            | Some audio \<Rightarrow>
                (case checked_add audio gap_ms of None \<Rightarrow> Inl recovery_error | Some ms \<Rightarrow> Inr ms)))"

section \<open>Validation of timed chunks\<close>

record TimedValidation =
  tv_policy :: bool
  tv_exhausted :: bool
  tv_records :: u64
  tv_bytes :: u64
  tv_epoch :: "CaptureEpoch option"
  tv_domains :: CaptureDomainHistory
  tv_sequence :: u64
  tv_output_end :: "u64 option"
  tv_pair :: "CaptureClockPair option"

definition TimedValidation_default :: TimedValidation where
  "TimedValidation_default =
     \<lparr>tv_policy = False, tv_exhausted = False, tv_records = 0, tv_bytes = 0, tv_epoch = None,
      tv_domains = CaptureDomainHistory_default, tv_sequence = 0, tv_output_end = None, tv_pair = None\<rparr>"

definition frame_boundary :: "TimedValidation \<Rightarrow> (u64 \<times> u64) option" where
  "frame_boundary v = map_option (\<lambda>output_end. (tv_sequence v, output_end)) (tv_output_end v)"

definition accept_provenance :: "FrameProvenance \<Rightarrow> TimedValidation \<Rightarrow> TimedValidation result" where
  "accept_provenance timing v =
     (case tv_epoch v of
        None \<Rightarrow> Inl recovery_error
      | Some epoch \<Rightarrow>
          if fp_capture_epoch timing \<noteq> ep_capture_epoch epoch \<or> fp_sequence timing \<le> tv_sequence v
             \<or> (case tv_output_end v of None \<Rightarrow> False | Some e \<Rightarrow> fp_output_start_sample timing < e)
          then Inl recovery_error
          else (case checked_add (fp_output_start_sample timing) (ucast (fp_sample_count timing)) of
                  None \<Rightarrow> Inl recovery_error
                | Some e \<Rightarrow> Inr (v\<lparr>tv_sequence := fp_sequence timing, tv_output_end := Some e\<rparr>)))"

definition accept_epoch :: "CaptureEpoch \<Rightarrow> TimedValidation \<Rightarrow> TimedValidation result" where
  "accept_epoch epoch v =
     (case admit (tv_domains v) (ep_clock_domain_id epoch) of
        (_, Inl _) \<Rightarrow> Inl recovery_error
      | (domains, Inr _) \<Rightarrow>
          let v1 = v\<lparr>tv_domains := domains\<rparr> in
          (case tv_epoch v of
             None \<Rightarrow> Inr (v1\<lparr>tv_epoch := Some epoch\<rparr>)
           | Some prior \<Rightarrow>
               if ep_bridge_session_id prior \<noteq> ep_bridge_session_id epoch then Inl recovery_error
               else if ep_clock_domain_id prior = ep_clock_domain_id epoch
               then (if ep_capture_epoch epoch < ep_capture_epoch prior then Inl recovery_error
                     else if ep_capture_epoch epoch > ep_capture_epoch prior
                     then Inr (v1\<lparr>tv_sequence := 0, tv_output_end := None, tv_epoch := Some epoch\<rparr>)
                     else Inr (v1\<lparr>tv_epoch := Some epoch\<rparr>))
               else Inr (v1\<lparr>tv_sequence := 0, tv_output_end := None, tv_pair := None, tv_epoch := Some epoch\<rparr>)))"

definition accept_pair :: "CaptureClockPair \<Rightarrow> TimedValidation \<Rightarrow> TimedValidation result" where
  "accept_pair pair v =
     (if (case tv_epoch v of None \<Rightarrow> True | Some epoch \<Rightarrow> ep_clock_domain_id epoch \<noteq> cp_clock_domain_id pair)
      then Inl recovery_error
      else if (case tv_pair v of
                 None \<Rightarrow> False
               | Some prior \<Rightarrow> cp_sequence pair \<le> cp_sequence prior
                   \<or> midpoint_twice pair \<le> midpoint_twice prior \<or> cp_wall_epoch pair < cp_wall_epoch prior)
      then Inl recovery_error
      else Inr (v\<lparr>tv_pair := Some pair\<rparr>))"

definition accept_discontinuity :: "u64 \<Rightarrow> TimedValidation \<Rightarrow> TimedValidation result" where
  "accept_discontinuity capture_epoch v =
     (if (case tv_epoch v of None \<Rightarrow> True | Some epoch \<Rightarrow> ep_capture_epoch epoch \<noteq> capture_epoch)
      then Inl recovery_error else Inr v)"

text \<open>The budget for timing metadata, charged for every record that carries some.\<close>

definition charge_timing :: "nat \<Rightarrow> TimedValidation \<Rightarrow> TimedValidation result" where
  "charge_timing metadata_bytes v =
     (if tv_exhausted v then Inl recovery_error
      else (case checked_add (tv_records v) 1 of
              None \<Rightarrow> Inl recovery_error
            | Some records \<Rightarrow>
                (case checked_add (tv_bytes v) (of_nat metadata_bytes) of
                   None \<Rightarrow> Inl recovery_error
                 | Some bytes \<Rightarrow>
                     if records > MAX_RECORDING_TIMING_RECORDS \<or> bytes > MAX_RECORDING_TIMING_BYTES
                     then Inl recovery_error
                     else Inr (v\<lparr>tv_records := records, tv_bytes := bytes\<rparr>))))"

definition accept_metadata :: "CaptureMetadata \<Rightarrow> TimedValidation \<Rightarrow> TimedValidation result" where
  "accept_metadata metadata v =
     (case (case metadata of
              Meta_Epoch epoch \<Rightarrow> accept_epoch epoch v
            | Meta_ClockPair pair \<Rightarrow> accept_pair pair v
            | Meta_Discontinuity capture_epoch _ \<Rightarrow> accept_discontinuity capture_epoch v) of
        Inl e \<Rightarrow> Inl e
      | Inr v1 \<Rightarrow>
          (case metadata_record metadata of
             Inl e \<Rightarrow> Inl e | Inr chunk \<Rightarrow> charge_timing (length chunk - 1) v1))"

definition accept :: "TimedValidation \<Rightarrow> RecordedChunk \<Rightarrow> TimedValidation result" where
  "accept v chunk =
     (if \<not> tv_policy v
      then (if chunk \<noteq> Rec_TimingPolicy then Inl recovery_error else Inr (v\<lparr>tv_policy := True\<rparr>))
      else (case chunk of
              Rec_TimingPolicy \<Rightarrow> Inl recovery_error
            | Rec_Frame _ _ _ _ _ _ \<Rightarrow> Inl recovery_error
            | Rec_AlignmentLimit \<Rightarrow>
                if tv_exhausted v then Inl recovery_error else Inr (v\<lparr>tv_exhausted := True\<rparr>)
            | Rec_TimedFrame _ _ (Some timing) _ \<Rightarrow>
                (case accept_provenance timing v of
                   Inl e \<Rightarrow> Inl e | Inr v1 \<Rightarrow> charge_timing CAPTURE_TIMING_BYTES v1)
            | Rec_CaptureMetadata metadata \<Rightarrow> accept_metadata metadata v
            | _ \<Rightarrow> Inr v))"

section \<open>The media timeline\<close>

record MediaTimeline =
  mt_format :: "PcmFormat option"
  mt_media_ms :: u64
  mt_timed_samples :: u64
  mt_timed_gap_ms :: u64
  mt_open_gap_at_ms :: "u64 option"
  mt_gaps :: "RecordingGap list"

definition MediaTimeline_default :: MediaTimeline where
  "MediaTimeline_default =
     \<lparr>mt_format = None, mt_media_ms = 0, mt_timed_samples = 0, mt_timed_gap_ms = 0,
      mt_open_gap_at_ms = None, mt_gaps = []\<rparr>"

definition timeline_frame :: "PcmFormat \<Rightarrow> nat \<Rightarrow> MediaTimeline \<Rightarrow> MediaTimeline" where
  "timeline_frame format bytes t =
     t\<lparr>mt_format := Some format, mt_media_ms := sat_add (mt_media_ms t) (pcm_duration_ms format bytes)\<rparr>"

definition timeline_timed_frame :: "PcmFormat \<Rightarrow> nat \<Rightarrow> MediaTimeline \<Rightarrow> MediaTimeline result" where
  "timeline_timed_frame format bytes t =
     (case frame_alignment_bytes format of
        Inl _ \<Rightarrow> Inl recovery_error
      | Inr alignment \<Rightarrow>
          (case try_word (bytes div alignment) of
             None \<Rightarrow> Inl recovery_error
           | Some samples \<Rightarrow>
               (case checked_add (mt_timed_samples t) samples of
                  None \<Rightarrow> Inl recovery_error
                | Some samples_total \<Rightarrow>
                    (case exact_media_ms samples_total (pf_sample_rate_hz format) (mt_timed_gap_ms t) of
                       Inl e \<Rightarrow> Inl e
                     | Inr media \<Rightarrow>
                         Inr (t\<lparr>mt_media_ms := media, mt_timed_samples := samples_total, mt_format := Some format\<rparr>)))))"

definition timeline_gap_started :: "u64 \<Rightarrow> MediaTimeline \<Rightarrow> MediaTimeline" where
  "timeline_gap_started at_ms t =
     t\<lparr>mt_open_gap_at_ms := Some at_ms, mt_gaps := open_gap (mt_media_ms t) (mt_gaps t)\<rparr>"

definition timeline_gap_ended :: "u64 \<Rightarrow> bool \<Rightarrow> MediaTimeline \<Rightarrow> MediaTimeline result" where
  "timeline_gap_ended at_ms timed t =
     (case mt_open_gap_at_ms t of
        None \<Rightarrow> Inl recovery_error
      | Some opened_at_ms \<Rightarrow>
          let t1 = t\<lparr>mt_open_gap_at_ms := None\<rparr>;
              len = sat_sub at_ms opened_at_ms in
          (case (if mt_format t = None then Inr t1
                 else if timed
                 then (case checked_add (mt_timed_gap_ms t) len of
                         None \<Rightarrow> Inl recovery_error
                       | Some gap_ms \<Rightarrow>
                           Inr (t1\<lparr>mt_timed_gap_ms := gap_ms, mt_media_ms := sat_add (mt_media_ms t) len\<rparr>))
                 else Inr (t1\<lparr>mt_media_ms := sat_add (mt_media_ms t) len\<rparr>)) of
             Inl e \<Rightarrow> Inl e
           | Inr t2 \<Rightarrow> Inr (t2\<lparr>mt_gaps := close_gap (mt_media_ms t2) (mt_gaps t2)\<rparr>)))"

definition timeline_duration :: "MediaTimeline \<Rightarrow> u64" where
  "timeline_duration t = (if mt_format t \<noteq> None then mt_media_ms t else 0)"

definition timeline_summary ::
  "MediaTimeline \<Rightarrow> rstring \<Rightarrow> rstring \<Rightarrow> rstring \<Rightarrow> rstring \<Rightarrow> RecordingSummary" where
  "timeline_summary t path handle sha256 key_id =
     \<lparr>su_recording_handle = handle, su_encrypted_path = path, su_sha256 = sha256,
      su_duration_ms = timeline_duration t, su_format = format_label (mt_format t),
      su_key_id = key_id, su_gaps = clamped_gaps (mt_gaps t) (timeline_duration t)\<rparr>"

end
