(* ===== verification/Session_Recorder.thy ===== *)
theory Session_Recorder
  imports Recording_Timeline
begin

text \<open>
  The recorder, \<^verbatim>\<open>SessionRecorder\<close> of \<^verbatim>\<open>crates/runtime/src/session_recording.rs\<close>. An operation
  takes the recorder and returns it changed, together with its result; on an error the changes made
  before the error stay, as they do in the code. The world the recorder runs in (clock, free disk
  space, failing writes, what a later open of the file reads) is an argument.
\<close>

section \<open>World\<close>

text \<open>
  The clock gives the recorder's elapsed milliseconds at its n-th reading. The n-th operation on
  the sink succeeds (\<open>None\<close>) or fails after some bytes reached the file. \<open>w_reread\<close> is what opening
  the path again reads, given what was written.
\<close>

record World =
  w_clock :: "nat \<Rightarrow> u64"
  w_free :: "nat \<Rightarrow> u64 option"
  w_sink :: "nat \<Rightarrow> nat option"
  w_reread :: "byte list \<Rightarrow> byte list option"

definition sink_op :: "World \<Rightarrow> byte list \<Rightarrow> byte list \<times> nat \<Rightarrow> (byte list \<times> nat) \<times> bool" where
  "sink_op w bytes = (\<lambda>(disk, io).
     case w_sink w io of
       None \<Rightarrow> ((disk @ bytes, Suc io), True)
     | Some k \<Rightarrow> ((disk @ take k bytes, Suc io), False))"

text \<open>A chain of writes; it ends at the first that fails.\<close>

fun sink_ops :: "World \<Rightarrow> byte list list \<Rightarrow> byte list \<times> nat \<Rightarrow> (byte list \<times> nat) \<times> bool" where
  "sink_ops w [] s = (s, True)"
| "sink_ops w (b # bs) s = (let (s', ok) = sink_op w b s in if ok then sink_ops w bs s' else (s', False))"

text \<open>The operator \<open>?\<close> on an operation with state.\<close>

definition try_then :: "'s \<times> ('e + 'a) \<Rightarrow> ('s \<Rightarrow> 'a \<Rightarrow> 's \<times> ('e + 'b)) \<Rightarrow> 's \<times> ('e + 'b)" where
  "try_then m k = (case snd m of Inl e \<Rightarrow> (fst m, Inl e) | Inr a \<Rightarrow> k (fst m) a)"

section \<open>Settings\<close>

record RecordingSettings =
  rs_directory :: rstring
  rs_key_env :: rstring
  rs_limits :: RecordingLimits

definition RecordingSettings_new :: "rstring \<Rightarrow> rstring \<Rightarrow> RecordingSettings result" where
  "RecordingSettings_new directory key_env =
     (if \<not> (case directory of [] \<Rightarrow> False | c # _ \<Rightarrow> c = 47)
      then Inl (recording_configuration_error ''recording directory must be absolute'')
      else if \<not> is_environment_name key_env
      then Inl (recording_configuration_error ''recording key variable name is not a valid environment name'')
      else Inr \<lparr>rs_directory = directory, rs_key_env = key_env, rs_limits = RecordingLimits_default\<rparr>)"

definition with_limits :: "RecordingSettings \<Rightarrow> RecordingLimits \<Rightarrow> RecordingSettings" where
  "with_limits settings limits = settings\<lparr>rs_limits := limits\<rparr>"

definition recording_path :: "rstring \<Rightarrow> rstring \<Rightarrow> rstring" where
  "recording_path directory handle =
     (if directory \<noteq> [] \<and> last directory = 47 then directory else directory @ [47]) @ handle @ str_of ''.crsr''"

section \<open>State\<close>

record TimingBudget =
  tb_records :: u64
  tb_bytes :: u64
  tb_maximum_records :: u64
  tb_maximum_bytes :: u64
  tb_exhausted :: bool

definition TimingBudget_default :: TimingBudget where
  "TimingBudget_default =
     \<lparr>tb_records = 0, tb_bytes = 0, tb_maximum_records = MAX_RECORDING_TIMING_RECORDS,
      tb_maximum_bytes = MAX_RECORDING_TIMING_BYTES, tb_exhausted = False\<rparr>"

text \<open>
  \<open>sr_reads\<close> counts readings of the clock, \<open>sr_io\<close> operations on the sink; \<open>sr_disk\<close> is the file.
  \<open>sr_sealed\<close> is what the running digest has been fed.
\<close>

record SessionRecorder =
  sr_session_id :: SessionId
  sr_handle :: rstring
  sr_path :: rstring
  sr_key :: RecordingKey
  sr_header :: "byte list"
  sr_file :: bool
  sr_counter :: u32
  sr_reads :: nat
  sr_format :: "PcmFormat option"
  sr_gaps :: "RecordingGap list"
  sr_open_gap_at_ms :: "u64 option"
  sr_media_ms :: u64
  sr_ended :: bool
  sr_failure_recorded :: bool
  sr_summary :: "RecordingSummary option"
  sr_recording_failed :: bool
  sr_sealed :: "byte list"
  sr_capability_poisoned :: bool
  sr_timing_budget :: "TimingBudget option"
  sr_timed_samples :: u64
  sr_timed_gap_ms :: u64
  sr_timed_validation :: "TimedValidation option"
  sr_safety :: RecordingSafetyGuard
  sr_written_bytes :: u64
  sr_limit_notices :: "LimitNotice list"
  sr_disk :: "byte list"
  sr_io :: nat

definition elapsed_ms :: "World \<Rightarrow> SessionRecorder \<Rightarrow> u64" where
  "elapsed_ms w r = w_clock w (sr_reads r)"

definition tick :: "SessionRecorder \<Rightarrow> SessionRecorder" where
  "tick r = r\<lparr>sr_reads := Suc (sr_reads r)\<rparr>"

definition is_finalized :: "SessionRecorder \<Rightarrow> bool" where
  "is_finalized r \<longleftrightarrow> sr_summary r \<noteq> None"

definition is_closed :: "SessionRecorder \<Rightarrow> bool" where
  "is_closed r \<longleftrightarrow> sr_ended r"

definition is_incomplete :: "SessionRecorder \<Rightarrow> bool" where
  "is_incomplete r \<longleftrightarrow> sr_recording_failed r \<or> sr_capability_poisoned r"

definition media_duration_ms :: "SessionRecorder \<Rightarrow> u64" where
  "media_duration_ms r = (if sr_format r \<noteq> None then sr_media_ms r else 0)"

definition take_limit_notices :: "SessionRecorder \<Rightarrow> SessionRecorder \<times> LimitNotice list" where
  "take_limit_notices r = (r\<lparr>sr_limit_notices := []\<rparr>, sr_limit_notices r)"

section \<open>Appending a chunk\<close>

text \<open>The validation a timed recorder makes before it writes; its result is kept only on success.\<close>

definition next_validation :: "SessionRecorder \<Rightarrow> byte list \<Rightarrow> TimedValidation option result" where
  "next_validation r chunk =
     (case sr_timed_validation r of
        None \<Rightarrow> Inr None
      | Some v \<Rightarrow>
          (case decode_chunk chunk of
             Inl e \<Rightarrow> Inl e
           | Inr c \<Rightarrow> (case accept v c of Inl e \<Rightarrow> Inl e | Inr v' \<Rightarrow> Inr (Some v'))))"

definition write_chunk :: "World \<Rightarrow> byte list \<Rightarrow> SessionRecorder \<Rightarrow> SessionRecorder \<times> bool" where
  "write_chunk w sealed r =
     (let ((disk, io), ok) = sink_ops w [u32_to_be (of_nat (length sealed)), sealed, []] (sr_disk r, sr_io r)
      in (r\<lparr>sr_disk := disk, sr_io := io\<rparr>, ok))"

definition append_chunk :: "Ring \<Rightarrow> World \<Rightarrow> byte list \<Rightarrow> SessionRecorder \<Rightarrow> SessionRecorder \<times> unit result" where
  "append_chunk ring w chunk r =
     (case next_validation r chunk of
        Inl e \<Rightarrow> (r, Inl e)
      | Inr timing_state \<Rightarrow>
          if \<not> sr_file r then (r, Inl (invalid_state_error ''recording is already finalized''))
          else if sr_ended r then (r, Inl (invalid_state_error ''recording is closed''))
          else
            let previously_poisoned = sr_capability_poisoned r;
                r1 = r\<lparr>sr_capability_poisoned := True\<rparr>;
                counter = sr_counter r in
            (case checked_add counter 1 of
               None \<Rightarrow> (r1, Inl (adapter_error ''recording exceeded its chunk limit''))
             | Some next \<Rightarrow>
                 let r2 = r1\<lparr>sr_counter := next\<rparr> in
                 (case ring_seal ring (rk_key (sr_key r)) (chunk_nonce (sr_header r) counter)
                         (chunk_aad (sr_header r) counter) chunk of
                    None \<Rightarrow> (r2, Inl (adapter_error ''recording chunk could not be encrypted''))
                  | Some sealed \<Rightarrow>
                      if length sealed > MAX_CHUNK_CIPHERTEXT_BYTES
                      then (r2, Inl (adapter_error ''recording chunk exceeded its size limit''))
                      else
                        let (r3, ok) = write_chunk w sealed r2 in
                        if \<not> ok then (r3, Inl (adapter_error ''recording chunk could not be written''))
                        else (r3\<lparr>sr_sealed := sr_sealed r3 @ u32_to_be (of_nat (length sealed)) @ sealed,
                                 sr_written_bytes :=
                                   sat_add (sat_add (sr_written_bytes r3) 4) (of_nat (length sealed)),
                                 sr_capability_poisoned := previously_poisoned,
                                 sr_timed_validation := timing_state\<rparr>, Inr ()))))"

section \<open>Limits\<close>

definition frame_duration_ms :: "AudioFrame \<Rightarrow> u64" where
  "frame_duration_ms frame = pcm_duration_ms (af_format frame) (length (af_bytes frame))"

definition limit_notices_for ::
  "World \<Rightarrow> AudioFrame option \<Rightarrow> SessionRecorder \<Rightarrow> SessionRecorder \<times> LimitNotice list" where
  "limit_notices_for w frame r =
     (case frame of
        None \<Rightarrow> (r, observe_write (sr_safety r) (sr_written_bytes r))
      | Some f \<Rightarrow>
          let (safety, notices) =
                observe (sr_safety r)
                  \<lparr>fo_media_ms = media_duration_ms r, fo_bytes = sr_written_bytes r,
                   fo_frame_ms = frame_duration_ms f, fo_quiet = frame_is_quiet f\<rparr>
                  (w_free w (sr_reads r))
          in (r\<lparr>sr_safety := safety\<rparr>, notices))"

definition enforce_limits ::
  "Ring \<Rightarrow> World \<Rightarrow> AudioFrame option \<Rightarrow> SessionRecorder \<Rightarrow> SessionRecorder \<times> unit result" where
  "enforce_limits ring w frame r =
     (let (r1, notices) = limit_notices_for w frame r;
          notify = (\<lambda>r. (r\<lparr>sr_limit_notices := sr_limit_notices r @ notices\<rparr>, Inr ()))
      in if stops notices
         then try_then (append_chunk ring w (ended_record (elapsed_ms w r1)) (tick r1))
                (\<lambda>r _. notify (r\<lparr>sr_ended := True\<rparr>))
         else notify r1)"

section \<open>Frames\<close>

definition admit_timing ::
  "Ring \<Rightarrow> World \<Rightarrow> nat \<Rightarrow> SessionRecorder \<Rightarrow> SessionRecorder \<times> bool result" where
  "admit_timing ring w bytes r =
     (case sr_timing_budget r of
        None \<Rightarrow> (r, Inr False)
      | Some budget \<Rightarrow>
          if tb_exhausted budget then (r, Inr False)
          else (case try_word bytes of
                  None \<Rightarrow> (r, Inl recovery_error)
                | Some amount \<Rightarrow>
                    if tb_records budget \<ge> tb_maximum_records budget
                       \<or> (case checked_add (tb_bytes budget) amount of
                            None \<Rightarrow> True | Some sum_bytes \<Rightarrow> sum_bytes > tb_maximum_bytes budget)
                    then try_then
                           (append_chunk ring w [CHUNK_ALIGNMENT_LIMIT]
                              (r\<lparr>sr_timing_budget := Some (budget\<lparr>tb_exhausted := True\<rparr>)\<rparr>))
                           (\<lambda>r _. (r, Inr False))
                    else (r\<lparr>sr_timing_budget := Some (budget\<lparr>tb_records := tb_records budget + 1,
                                                           tb_bytes := tb_bytes budget + amount\<rparr>)\<rparr>,
                          Inr True)))"

definition record_timed_frame ::
  "Ring \<Rightarrow> World \<Rightarrow> AudioFrame \<Rightarrow> u64 \<Rightarrow> SessionRecorder \<Rightarrow> SessionRecorder \<times> unit result" where
  "record_timed_frame ring w frame at_ms r =
     (case (case af_capture_timing frame of
              None \<Rightarrow> Inr None
            | Some timing \<Rightarrow> map_sum (\<lambda>_. recovery_error) Some (FrameProvenance_encode (tc_frame timing))) of
        Inl e \<Rightarrow> (r, Inl e)
      | Inr encoded \<Rightarrow>
          try_then
            (if encoded \<noteq> None
             then try_then (admit_timing ring w CAPTURE_TIMING_BYTES r)
                    (\<lambda>r admitted. (r, Inr (if admitted then encoded else None)))
             else (r, Inr None))
            (\<lambda>r timing.
               let format = af_format frame in
               (case frame_alignment_bytes format of
                  Inl _ \<Rightarrow> (r, Inl recovery_error)
                | Inr alignment \<Rightarrow>
                    (case try_word (length (af_bytes frame) div alignment) of
                       None \<Rightarrow> (r, Inl recovery_error)
                     | Some samples \<Rightarrow>
                         (case checked_add (sr_timed_samples r) samples of
                            None \<Rightarrow> (r, Inl recovery_error)
                          | Some samples_total \<Rightarrow>
                              (case exact_media_ms samples_total (pf_sample_rate_hz format) (sr_timed_gap_ms r) of
                                 Inl e \<Rightarrow> (r, Inl e)
                               | Inr duration \<Rightarrow>
                                   try_then
                                     (append_chunk ring w
                                        (timed_frame_record at_ms format timing (af_bytes frame)) r)
                                     (\<lambda>r _. (r\<lparr>sr_timed_samples := samples_total, sr_media_ms := duration\<rparr>,
                                            Inr ()))))))))"

text \<open>The part of \<open>record_frame\<close> that closes an open gap.\<close>

definition charge_gap :: "bool \<Rightarrow> u64 \<Rightarrow> SessionRecorder \<Rightarrow> SessionRecorder \<times> unit result" where
  "charge_gap had_media len r =
     (if \<not> had_media then (r, Inr ())
      else if sr_timing_budget r \<noteq> None
      then (case checked_add (sr_timed_gap_ms r) len of
              None \<Rightarrow> (r, Inl recovery_error)
            | Some gap_ms \<Rightarrow>
                (r\<lparr>sr_timed_gap_ms := gap_ms, sr_media_ms := sat_add (sr_media_ms r) len\<rparr>, Inr ()))
      else (r\<lparr>sr_media_ms := sat_add (sr_media_ms r) len\<rparr>, Inr ()))"

definition end_gap ::
  "Ring \<Rightarrow> World \<Rightarrow> bool \<Rightarrow> u64 \<Rightarrow> SessionRecorder \<Rightarrow> SessionRecorder \<times> unit result" where
  "end_gap ring w had_media at_ms r =
     (case sr_open_gap_at_ms r of
        None \<Rightarrow> (r, Inr ())
      | Some opened_at_ms \<Rightarrow>
          try_then (append_chunk ring w (gap_ended_record at_ms) r)
            (\<lambda>r _. try_then (charge_gap had_media (sat_sub at_ms opened_at_ms) (r\<lparr>sr_open_gap_at_ms := None\<rparr>))
               (\<lambda>r _. (r\<lparr>sr_gaps := close_gap (sr_media_ms r) (sr_gaps r)\<rparr>, Inr ()))))"

definition write_frame ::
  "Ring \<Rightarrow> World \<Rightarrow> AudioFrame \<Rightarrow> u64 \<Rightarrow> SessionRecorder \<Rightarrow> SessionRecorder \<times> unit result" where
  "write_frame ring w frame at_ms r =
     (if sr_timing_budget r \<noteq> None then record_timed_frame ring w frame at_ms r
      else try_then (append_chunk ring w (frame_record at_ms frame) r)
             (\<lambda>r _. (r\<lparr>sr_media_ms := sat_add (sr_media_ms r) (frame_duration_ms frame)\<rparr>, Inr ())))"

definition record_frame ::
  "Ring \<Rightarrow> World \<Rightarrow> AudioFrame \<Rightarrow> SessionRecorder \<Rightarrow> SessionRecorder \<times> unit result" where
  "record_frame ring w frame r =
     (let had_media = sr_format r \<noteq> None in
      if had_media \<and> sr_format r \<noteq> Some (af_format frame)
      then (r, Inl (adapter_error ''recording capture format changed mid-session''))
      else
        let r1 = r\<lparr>sr_format := Some (af_format frame)\<rparr>; at_ms = elapsed_ms w r1 in
        try_then (end_gap ring w had_media at_ms (tick r1))
          (\<lambda>r _. try_then (write_frame ring w frame at_ms r)
             (\<lambda>r _. enforce_limits ring w (Some frame) r)))"

section \<open>Metadata, gaps and the capture boundary\<close>

definition record_capture_metadata ::
  "Ring \<Rightarrow> World \<Rightarrow> CaptureMetadata \<Rightarrow> SessionRecorder \<Rightarrow> SessionRecorder \<times> unit result" where
  "record_capture_metadata ring w metadata r =
     (if sr_timing_budget r = None
      then (r, Inl (invalid_state_error ''legacy recording does not accept timing''))
      else (case metadata_record metadata of
              Inl e \<Rightarrow> (r, Inl e)
            | Inr chunk \<Rightarrow>
                try_then (admit_timing ring w (length chunk - 1) r)
                  (\<lambda>r admitted.
                     try_then (if admitted then append_chunk ring w chunk r else (r, Inr ()))
                       (\<lambda>r _. enforce_limits ring w None r))))"

definition record_capture_gap :: "Ring \<Rightarrow> World \<Rightarrow> SessionRecorder \<Rightarrow> SessionRecorder \<times> unit result" where
  "record_capture_gap ring w r =
     (if sr_open_gap_at_ms r \<noteq> None then (r, Inr ())
      else
        let at_ms = elapsed_ms w r in
        try_then (append_chunk ring w (gap_started_record at_ms CAPTURE_DISCONTINUITY_REASON) (tick r))
          (\<lambda>r _. enforce_limits ring w None
             (r\<lparr>sr_open_gap_at_ms := Some at_ms, sr_gaps := open_gap (sr_media_ms r) (sr_gaps r)\<rparr>)))"

definition confirm_capture_boundary ::
  "World \<Rightarrow> CaptureFinishBoundary \<Rightarrow> SessionRecorder \<Rightarrow> SessionRecorder \<times> unit result" where
  "confirm_capture_boundary w boundary r =
     (case sr_timed_validation r of
        None \<Rightarrow> (r, Inl recovery_error)
      | Some v \<Rightarrow>
          if fb_session_id boundary \<noteq> sr_session_id r \<or> sr_recording_failed r \<or> sr_capability_poisoned r
             \<or> sr_ended r \<or> sr_summary r \<noteq> None \<or> \<not> sr_file r
             \<or> (case sr_timing_budget r of None \<Rightarrow> True | Some b \<Rightarrow> tb_exhausted b)
             \<or> tv_exhausted v
             \<or> (case tv_epoch v of None \<Rightarrow> True | Some e \<Rightarrow> ep_capture_epoch e \<noteq> fb_capture_epoch boundary)
             \<or> frame_boundary v \<noteq> fb_frame boundary
             \<or> (case tv_pair v of None \<Rightarrow> True
                | Some p \<Rightarrow> cp_sequence p \<noteq> fb_final_clock_pair_sequence boundary)
          then (r, Inl recovery_error)
          else
            let ((disk, io), ok) = sink_op w [] (sr_disk r, sr_io r);
                r1 = r\<lparr>sr_disk := disk, sr_io := io, sr_capability_poisoned := True\<rparr>
            in if \<not> ok then (r1, Inl (adapter_error ''recording file could not be flushed''))
               else (r1\<lparr>sr_capability_poisoned := False\<rparr>, Inr ()))"

definition mark_incomplete :: "SessionRecorder \<Rightarrow> SessionRecorder" where
  "mark_incomplete r =
     (if sr_recording_failed r then r
      else
        let failure = \<lparr>rg_started_at_ms = media_duration_ms r, rg_ended_at_ms = None,
                       rg_reason = RECORDING_FAILURE_REASON\<rparr>
        in r\<lparr>sr_recording_failed := True,
             sr_gaps := (if length (sr_gaps r) < MAX_RECORDING_GAPS then sr_gaps r @ [failure]
                         else update_last (\<lambda>_. failure) (sr_gaps r))\<rparr>)"

section \<open>Starting\<close>

text \<open>
  The two random values are arguments; creating the directory and the file is one outcome of the
  world, given as \<open>created\<close>. The header is written by two operations on the sink.
\<close>

definition start_format ::
  "Ring \<Rightarrow> World \<Rightarrow> (rstring \<Rightarrow> rstring option) \<Rightarrow> (byte list \<times> byte list) option \<Rightarrow> bool \<Rightarrow>
   RecordingSettings \<Rightarrow> SessionId \<Rightarrow> bool \<Rightarrow> SessionRecorder result" where
  "start_format ring w env random created settings session_id timed =
     (case from_environment ring env (rs_key_env settings) of
        Inl e \<Rightarrow> Inl e
      | Inr key \<Rightarrow>
          (case random of
             None \<Rightarrow> Inl (adapter_error ''recording randomness was unavailable'')
           | Some (binding, nonce_prefix) \<Rightarrow>
               let handle = lowercase_hex binding;
                   header = make_header timed session_id nonce_prefix binding in
               if \<not> created then Inl (adapter_error ''recording file could not be created'')
               else
                 let ((disk, io), ok) = sink_ops w [header, []] ([], 0) in
                 if \<not> ok then Inl (adapter_error ''recording header could not be written'')
                 else Inr \<lparr>sr_session_id = session_id, sr_handle = handle,
                   sr_path = recording_path (rs_directory settings) handle, sr_key = key, sr_header = header,
                   sr_file = True, sr_counter = 0, sr_reads = 0, sr_format = None, sr_gaps = [],
                   sr_open_gap_at_ms = None, sr_media_ms = 0, sr_ended = False, sr_failure_recorded = False,
                   sr_summary = None, sr_recording_failed = False, sr_sealed = header,
                   sr_capability_poisoned = False,
                   sr_timing_budget = (if timed then Some TimingBudget_default else None),
                   sr_timed_samples = 0, sr_timed_gap_ms = 0,
                   sr_timed_validation = (if timed then Some TimedValidation_default else None),
                   sr_safety = SafetyGuard_new (rs_limits settings),
                   sr_written_bytes = of_nat HEADER_LEN, sr_limit_notices = [], sr_disk = disk, sr_io = io\<rparr>))"

definition start ::
  "Ring \<Rightarrow> World \<Rightarrow> (rstring \<Rightarrow> rstring option) \<Rightarrow> (byte list \<times> byte list) option \<Rightarrow> bool \<Rightarrow>
   RecordingSettings \<Rightarrow> SessionId \<Rightarrow> SessionRecorder result" where
  "start ring w env random created settings session_id =
     start_format ring w env random created settings session_id False"

definition start_timed ::
  "Ring \<Rightarrow> World \<Rightarrow> (rstring \<Rightarrow> rstring option) \<Rightarrow> (byte list \<times> byte list) option \<Rightarrow> bool \<Rightarrow>
   RecordingSettings \<Rightarrow> SessionId \<Rightarrow> SessionRecorder result" where
  "start_timed ring w env random created settings session_id =
     (case start_format ring w env random created settings session_id True of
        Inl e \<Rightarrow> Inl e
      | Inr recorder \<Rightarrow>
          (case append_chunk ring w policy_record recorder of
             (_, Inl e) \<Rightarrow> Inl e | (r, Inr _) \<Rightarrow> Inr r))"

section \<open>Finalizing\<close>

definition sha256_hex :: "Ring \<Rightarrow> byte list \<Rightarrow> rstring" where
  "sha256_hex ring content = lowercase_hex (ring_sha256 ring content)"

text \<open>
  \<open>file_digest\<close> reads whatever the path holds; the recovery source must be a regular file of at
  most 8 GiB.
\<close>

definition file_digest :: "Ring \<Rightarrow> World \<Rightarrow> byte list \<Rightarrow> rstring result" where
  "file_digest ring w disk =
     (case w_reread w disk of
        None \<Rightarrow> Inl (adapter_error ''recording could not be read'')
      | Some content \<Rightarrow> Inr (sha256_hex ring content))"

definition open_recovery_source :: "World \<Rightarrow> byte list \<Rightarrow> byte list result" where
  "open_recovery_source w disk =
     (case w_reread w disk of
        None \<Rightarrow> Inl recovery_error
      | Some content \<Rightarrow>
          if length content > MAX_FINALIZED_RECORDING_BYTES then Inl recovery_error else Inr content)"

definition recovery_digest :: "Ring \<Rightarrow> World \<Rightarrow> byte list \<Rightarrow> rstring result" where
  "recovery_digest ring w disk = map_sum id (sha256_hex ring) (open_recovery_source w disk)"

definition close_recording :: "Ring \<Rightarrow> World \<Rightarrow> SessionRecorder \<Rightarrow> SessionRecorder \<times> unit result" where
  "close_recording ring w r =
     (if sr_ended r then (r, Inr ())
      else
        try_then
          (if is_incomplete r \<and> \<not> sr_failure_recorded r
           then try_then (append_chunk ring w (gap_started_record (elapsed_ms w r) RECORDING_FAILURE_REASON) (tick r))
                  (\<lambda>r _. (r\<lparr>sr_failure_recorded := True\<rparr>, Inr ()))
           else (r, Inr ()))
          (\<lambda>r _. try_then (append_chunk ring w (ended_record (elapsed_ms w r)) (tick r))
             (\<lambda>r _. (r\<lparr>sr_ended := True\<rparr>, Inr ()))))"

definition flush_recording :: "World \<Rightarrow> SessionRecorder \<Rightarrow> SessionRecorder \<times> unit result" where
  "flush_recording w r =
     (if \<not> sr_file r then (r, Inr ())
      else
        let ((disk, io), ok) = sink_ops w [[], []] (sr_disk r, sr_io r) in
        (r\<lparr>sr_disk := disk, sr_io := io\<rparr>,
         if ok then Inr () else Inl (adapter_error ''recording file could not be flushed'')))"

definition recorder_summary :: "SessionRecorder \<Rightarrow> rstring \<Rightarrow> RecordingSummary" where
  "recorder_summary r sha256 =
     \<lparr>su_recording_handle = sr_handle r, su_encrypted_path = sr_path r, su_sha256 = sha256,
      su_duration_ms = media_duration_ms r, su_format = format_label (sr_format r),
      su_key_id = rk_key_id (sr_key r), su_gaps = clamped_gaps (sr_gaps r) (media_duration_ms r)\<rparr>"

definition finalize_using ::
  "Ring \<Rightarrow> World \<Rightarrow> bool \<Rightarrow> SessionRecorder \<Rightarrow> SessionRecorder \<times> RecordingSummary result" where
  "finalize_using ring w recovery r =
     (case sr_summary r of
        Some summary \<Rightarrow> (r, Inr summary)
      | None \<Rightarrow>
          try_then (close_recording ring w r)
            (\<lambda>r _. try_then (flush_recording w r)
               (\<lambda>r _.
                  (case (if recovery then recovery_digest ring w (sr_disk r) else file_digest ring w (sr_disk r)) of
                     Inl e \<Rightarrow> (r, Inl e)
                   | Inr sha256 \<Rightarrow>
                       let summary = recorder_summary r sha256
                       in (r\<lparr>sr_file := False, sr_summary := Some summary\<rparr>, Inr summary)))))"

definition finalize :: "Ring \<Rightarrow> World \<Rightarrow> SessionRecorder \<Rightarrow> SessionRecorder \<times> RecordingSummary result" where
  "finalize ring w r = finalize_using ring w False r"

definition finalize_with_capability ::
  "Ring \<Rightarrow> World \<Rightarrow> SessionRecorder \<Rightarrow>
   SessionRecorder \<times> (RecordingSummary \<times> FinalizedRecordingCapability) result" where
  "finalize_with_capability ring w r =
     (if sr_recording_failed r \<or> sr_capability_poisoned r then (r, Inl recovery_error)
      else (case open_recovery_source w (sr_disk r) of
              Inl e \<Rightarrow> (r, Inl e)
            | Inr _ \<Rightarrow>
                try_then (finalize_using ring w True r)
                  (\<lambda>r summary.
                     if su_sha256 summary \<noteq> sha256_hex ring (sr_sealed r) then (r, Inl recovery_error)
                     else (case authorize ring (sr_key r)
                                  \<lparr>fc_source_session_id = sr_session_id r,
                                   fc_recording_handle = su_recording_handle summary,
                                   fc_sha256 = su_sha256 summary, fc_key_id = su_key_id summary,
                                   fc_authorization = []\<rparr> of
                             Inl e \<Rightarrow> (r, Inl e)
                           | Inr capability \<Rightarrow> (r, Inr (summary, capability))))))"

end
