(* ===== verification/Recording_Reader.thy ===== *)
theory Recording_Reader
  imports Session_Recorder
begin

text \<open>
  The readers of \<^verbatim>\<open>crates/runtime/src/session_recording.rs\<close>: the chunk reader with its handling of
  torn tails, the authenticated walk that rebuilds the timeline, the preflight of a capability and
  the adoption of a closed recording. A file is its bytes; a cancellation token is either cancelled
  for the whole call or not at all.
\<close>

section \<open>Reading chunks\<close>

record RecordedChunks =
  rc_remaining :: "byte list"
  rc_key :: RecordingKey
  rc_header :: "byte list"
  rc_session_id :: SessionId
  rc_counter :: u32
  rc_truncated :: bool
  rc_finished :: bool
  rc_strict :: bool

definition tear :: "RecordedChunks \<Rightarrow> RecordedChunks \<times> RecordedChunk option result" where
  "tear c = (c\<lparr>rc_finished := True, rc_truncated := True\<rparr>, Inr None)"

text \<open>\<open>fill\<close> for a buffer of n bytes: what arrived, and the reader behind it.\<close>

definition fill :: "nat \<Rightarrow> RecordedChunks \<Rightarrow> byte list \<times> RecordedChunks" where
  "fill n c = (take n (rc_remaining c), c\<lparr>rc_remaining := drop n (rc_remaining c)\<rparr>)"

text \<open>The checks on an opened record before it is decoded.\<close>

definition admissible :: "bool \<Rightarrow> bool \<Rightarrow> byte list \<Rightarrow> bool" where
  "admissible timed strict chunk \<longleftrightarrow>
     chunk \<noteq> [] \<and> \<not> (timed \<and> chunk ! 0 = CHUNK_FRAME) \<and> \<not> (\<not> timed \<and> chunk ! 0 \<ge> CHUNK_POLICY)
     \<and> (strict \<longrightarrow> strict_ok chunk)"

definition next_chunk :: "Ring \<Rightarrow> RecordedChunks \<Rightarrow> RecordedChunks \<times> RecordedChunk option result" where
  "next_chunk ring c =
     (if rc_finished c then (c, Inr None)
      else
        let (prefix, c1) = fill 4 c in
        if prefix = [] then (c1\<lparr>rc_finished := True\<rparr>, Inr None)
        else if length prefix \<noteq> 4 then tear c1
        else
          let len = unat (u32_from_be prefix) in
          if len > MAX_CHUNK_CIPHERTEXT_BYTES
          then (c1, Inl (adapter_error ''recording chunk exceeded its size limit''))
          else
            let (buffer, c2) = fill len c1 in
            if length buffer \<noteq> len then tear c2
            else (case ring_open ring (rk_key (rc_key c)) (chunk_nonce (rc_header c) (rc_counter c))
                         (chunk_aad (rc_header c) (rc_counter c)) buffer of
                    None \<Rightarrow> (c2, Inl (adapter_error ''recording chunk could not be decrypted''))
                  | Some chunk \<Rightarrow>
                      if \<not> admissible (is_timed (rc_header c)) (rc_strict c) chunk
                      then (c2, Inl recovery_error)
                      else (case decode_chunk chunk of
                              Inl e \<Rightarrow> (c2, Inl e)
                            | Inr decoded \<Rightarrow>
                                (case checked_add (rc_counter c) 1 of
                                   None \<Rightarrow> (c2, Inl (adapter_error ''recording exceeded its chunk limit''))
                                 | Some next \<Rightarrow> (c2\<lparr>rc_counter := next\<rparr>, Inr (Some decoded))))))"

lemma next_chunk_shorter:
  assumes "next_chunk ring c = (c', Inr (Some x))"
  shows "length (rc_remaining c') < length (rc_remaining c)"
proof -
  have "rc_remaining c \<noteq> []"
    using assms by (auto simp: next_chunk_def fill_def Let_def split: if_splits)
  then show ?thesis
    using assms
    by (auto simp: next_chunk_def fill_def tear_def Let_def split: if_splits option.splits sum.splits)
qed

record RecordedSession =
  rn_session_id :: SessionId
  rn_chunks :: "RecordedChunk list"
  rn_truncated :: bool

function read_chunks :: "Ring \<Rightarrow> RecordedChunks \<Rightarrow> RecordedChunk list \<Rightarrow> RecordedSession result" where
  "read_chunks ring c chunks =
     (case next_chunk ring c of
        (c', Inl e) \<Rightarrow> Inl e
      | (c', Inr None) \<Rightarrow>
          Inr \<lparr>rn_session_id = rc_session_id c', rn_chunks = chunks, rn_truncated = rc_truncated c'\<rparr>
      | (c', Inr (Some chunk)) \<Rightarrow> read_chunks ring c' (chunks @ [chunk]))"
  by pat_completeness auto
termination
  by (relation "measure (\<lambda>(ring, c, chunks). length (rc_remaining c))") (auto dest: next_chunk_shorter [OF sym])

declare read_chunks.simps [simp del]

definition open_session_recording ::
  "Ring \<Rightarrow> (rstring \<Rightarrow> rstring option) \<Rightarrow> byte list \<Rightarrow> rstring \<Rightarrow> RecordedChunks result" where
  "open_session_recording ring env content key_env =
     (case from_environment ring env key_env of
        Inl e \<Rightarrow> Inl e
      | Inr key \<Rightarrow>
          if length content < HEADER_LEN then Inl (adapter_error ''recording header is incomplete'')
          else (case read_header (take HEADER_LEN content) of
                  Inl e \<Rightarrow> Inl e
                | Inr session_id \<Rightarrow>
                    Inr \<lparr>rc_remaining = drop HEADER_LEN content, rc_key = key, rc_header = take HEADER_LEN content,
                         rc_session_id = session_id, rc_counter = 0, rc_truncated = False, rc_finished = False,
                         rc_strict = False\<rparr>))"

definition read_session_recording ::
  "Ring \<Rightarrow> (rstring \<Rightarrow> rstring option) \<Rightarrow> byte list \<Rightarrow> rstring \<Rightarrow> RecordedSession result" where
  "read_session_recording ring env content key_env =
     (case open_session_recording ring env content key_env of
        Inl e \<Rightarrow> Inl e | Inr c \<Rightarrow> read_chunks ring c [])"

text \<open>\<open>file\<close> is what the path of the handle holds, if it can be opened.\<close>

definition resolve_recording_handle :: "rstring \<Rightarrow> rstring \<Rightarrow> byte list option \<Rightarrow> rstring result" where
  "resolve_recording_handle directory handle file =
     (case decode_handle handle of
        None \<Rightarrow> Inl (recording_configuration_error ''recording handle is not a valid handle'')
      | Some binding \<Rightarrow>
          (case file of
             None \<Rightarrow> Inl (adapter_error ''recording could not be opened'')
           | Some content \<Rightarrow>
               if length content < HEADER_LEN then Inl (adapter_error ''recording header could not be read'')
               else (case read_header (take HEADER_LEN content) of
                       Inl e \<Rightarrow> Inl e
                     | Inr _ \<Rightarrow>
                         if header_binding (take HEADER_LEN content) \<noteq> binding
                         then Inl (invalid_state_error ''recording does not answer to that handle'')
                         else Inr (recording_path directory handle))))"

section \<open>The authenticated walk\<close>

record WalkState =
  wk_ended :: bool
  wk_format :: "PcmFormat option"
  wk_gap :: "u64 option"
  wk_last_at_ms :: u64
  wk_validation :: TimedValidation
  wk_timeline :: MediaTimeline

definition WalkState_new :: WalkState where
  "WalkState_new =
     \<lparr>wk_ended = False, wk_format = None, wk_gap = None, wk_last_at_ms = 0,
      wk_validation = TimedValidation_default, wk_timeline = MediaTimeline_default\<rparr>"

text \<open>A step goes on, or stops at the recorder's failure record.\<close>

datatype walk_outcome = Walk_On WalkState | Walk_Incomplete MediaTimeline

definition walk_at :: "u64 \<Rightarrow> WalkState \<Rightarrow> walk_outcome result" where
  "walk_at at_ms s =
     (if at_ms < wk_last_at_ms s then Inl recovery_error else Inr (Walk_On (s\<lparr>wk_last_at_ms := at_ms\<rparr>)))"

definition format_differs :: "WalkState \<Rightarrow> PcmFormat \<Rightarrow> bool" where
  "format_differs s current \<longleftrightarrow> (case wk_format s of None \<Rightarrow> False | Some prior \<Rightarrow> prior \<noteq> current)"

definition walk_step :: "bool \<Rightarrow> WalkState \<Rightarrow> RecordedChunk \<Rightarrow> walk_outcome result" where
  "walk_step timed s chunk =
     (if wk_ended s then Inl recovery_error
      else (case (if timed then accept (wk_validation s) chunk else Inr (wk_validation s)) of
        Inl e \<Rightarrow> Inl e
      | Inr v \<Rightarrow>
          let s = s\<lparr>wk_validation := v\<rparr> in
          (case chunk of
             Rec_TimedFrame at_ms current _ bytes \<Rightarrow>
               if wk_gap s \<noteq> None \<or> format_differs s current \<or> bytes = [] then Inl recovery_error
               else (case timeline_timed_frame current (length bytes) (wk_timeline s) of
                       Inl e \<Rightarrow> Inl e
                     | Inr t \<Rightarrow> walk_at at_ms (s\<lparr>wk_format := Some current, wk_timeline := t\<rparr>))
           | Rec_Frame at_ms _ rate channels sf bytes \<Rightarrow>
               (case PcmFormat_new rate channels sf of
                  Inl _ \<Rightarrow> Inl recovery_error
                | Inr current \<Rightarrow>
                    (case frame_alignment_bytes current of
                       Inl _ \<Rightarrow> Inl recovery_error
                     | Inr alignment \<Rightarrow>
                         if wk_gap s \<noteq> None \<or> format_differs s current \<or> bytes = []
                            \<or> length bytes mod alignment \<noteq> 0
                         then Inl recovery_error
                         else walk_at at_ms
                                (s\<lparr>wk_format := Some current,
                                   wk_timeline := timeline_frame current (length bytes) (wk_timeline s)\<rparr>)))
           | Rec_GapStarted at_ms reason \<Rightarrow>
               if reason = RECORDING_FAILURE_REASON then Inr (Walk_Incomplete (wk_timeline s))
               else if wk_gap s \<noteq> None \<or> reason \<noteq> CAPTURE_DISCONTINUITY_REASON then Inl recovery_error
               else walk_at at_ms
                      (s\<lparr>wk_gap := Some at_ms, wk_timeline := timeline_gap_started at_ms (wk_timeline s)\<rparr>)
           | Rec_GapEnded at_ms \<Rightarrow>
               if wk_gap s = None then Inl recovery_error
               else (case timeline_gap_ended at_ms timed (wk_timeline s) of
                       Inl e \<Rightarrow> Inl e
                     | Inr t \<Rightarrow> walk_at at_ms (s\<lparr>wk_gap := None, wk_timeline := t\<rparr>))
           | Rec_Ended at_ms \<Rightarrow> walk_at at_ms (s\<lparr>wk_ended := True\<rparr>)
           | _ \<Rightarrow> Inr (Walk_On s))))"

record CompletedWalk =
  cw_ended :: bool
  cw_incomplete :: bool
  cw_timeline :: MediaTimeline

definition cancelled_error :: RuntimeError where
  "cancelled_error = invalid_state_error ''recording recovery was cancelled''"

function walk_chunks ::
  "Ring \<Rightarrow> bool \<Rightarrow> RecordedChunks \<Rightarrow> WalkState \<Rightarrow> RecordedChunks \<times> CompletedWalk result" where
  "walk_chunks ring cancelled c s =
     (if cancelled then (c, Inl cancelled_error)
      else (case next_chunk ring c of
              (c', Inl e) \<Rightarrow> (c', Inl e)
            | (c', Inr None) \<Rightarrow>
                (c', Inr \<lparr>cw_ended = wk_ended s, cw_incomplete = False, cw_timeline = wk_timeline s\<rparr>)
            | (c', Inr (Some chunk)) \<Rightarrow>
                (case walk_step (is_timed (rc_header c)) s chunk of
                   Inl e \<Rightarrow> (c', Inl e)
                 | Inr (Walk_Incomplete t) \<Rightarrow>
                     (c', Inr \<lparr>cw_ended = False, cw_incomplete = True, cw_timeline = t\<rparr>)
                 | Inr (Walk_On s') \<Rightarrow> walk_chunks ring cancelled c' s')))"
  by pat_completeness auto
termination
  by (relation "measure (\<lambda>(ring, cancelled, c, s). length (rc_remaining c))") (auto dest: next_chunk_shorter [OF sym])

declare walk_chunks.simps [simp del]

definition walk_completed_chunks ::
  "Ring \<Rightarrow> bool \<Rightarrow> RecordedChunks \<Rightarrow> RecordedChunks \<times> CompletedWalk result" where
  "walk_completed_chunks ring cancelled c = walk_chunks ring cancelled c WalkState_new"

section \<open>Snapshots, preflight and adoption\<close>

text \<open>What the path of a recording holds. \<open>snapshot_ok\<close> below: a private copy could be made.\<close>

datatype stored_file = File_Missing | File_Unreachable | File_Special | File_Bytes "byte list"

definition snapshot_recording ::
  "Ring \<Rightarrow> bool \<Rightarrow> bool \<Rightarrow> RecordingKey \<Rightarrow> stored_file \<Rightarrow> (RecordedChunks \<times> byte list \<times> rstring) result" where
  "snapshot_recording ring snapshot_ok cancelled key file =
     (case file of
        File_Bytes content \<Rightarrow>
          if length content > MAX_FINALIZED_RECORDING_BYTES \<or> \<not> snapshot_ok then Inl recovery_error
          else if cancelled then Inl cancelled_error
          else if length content < HEADER_LEN then Inl recovery_error
          else (case read_header (take HEADER_LEN content) of
                  Inl e \<Rightarrow> Inl e
                | Inr session_id \<Rightarrow>
                    Inr (\<lparr>rc_remaining = drop HEADER_LEN content, rc_key = key,
                          rc_header = take HEADER_LEN content, rc_session_id = session_id, rc_counter = 0,
                          rc_truncated = False, rc_finished = False, rc_strict = True\<rparr>,
                         content, sha256_hex ring content))
      | _ \<Rightarrow> Inl recovery_error)"

definition rewind_verified_snapshot ::
  "Ring \<Rightarrow> bool \<Rightarrow> byte list \<Rightarrow> rstring \<Rightarrow> RecordedChunks \<Rightarrow> RecordedChunks result" where
  "rewind_verified_snapshot ring cancelled content sha256 c =
     (if cancelled then Inl cancelled_error
      else if sha256_hex ring content \<noteq> sha256 then Inl recovery_error
      else Inr (c\<lparr>rc_remaining := drop HEADER_LEN content, rc_counter := 0, rc_finished := False,
                  rc_truncated := False\<rparr>))"

definition validate_completed_chunks :: "Ring \<Rightarrow> bool \<Rightarrow> RecordedChunks \<Rightarrow> RecordedChunks result" where
  "validate_completed_chunks ring cancelled c =
     (case walk_completed_chunks ring cancelled c of
        (_, Inl e) \<Rightarrow> Inl e
      | (c', Inr walk) \<Rightarrow>
          if cw_incomplete walk \<or> \<not> cw_ended walk \<or> rc_truncated c' then Inl recovery_error else Inr c')"

definition snapshot_finalized_recording ::
  "Ring \<Rightarrow> (rstring \<Rightarrow> rstring option) \<Rightarrow> bool \<Rightarrow> bool \<Rightarrow> RecordingSettings \<Rightarrow>
   FinalizedRecordingCapability \<Rightarrow> stored_file \<Rightarrow> (RecordedChunks \<times> byte list) result" where
  "snapshot_finalized_recording ring env snapshot_ok cancelled settings capability file =
     (if cancelled then Inl cancelled_error
      else (case from_environment ring env (rs_key_env settings) of
        Inl e \<Rightarrow> Inl e
      | Inr key \<Rightarrow>
     (case verify_capability ring key capability of
        Inl e \<Rightarrow> Inl e
      | Inr _ \<Rightarrow>
     (case decode_handle (fc_recording_handle capability) of
        None \<Rightarrow> Inl recovery_error
      | Some binding \<Rightarrow>
     (case snapshot_recording ring snapshot_ok cancelled key file of
        Inl e \<Rightarrow> Inl e
      | Inr (chunks, content, sha256) \<Rightarrow>
          if sha256 \<noteq> fc_sha256 capability \<or> rc_session_id chunks \<noteq> fc_source_session_id capability
             \<or> header_binding (rc_header chunks) \<noteq> binding
          then Inl recovery_error else Inr (chunks, content))))))"

definition preflight_finalized_recording ::
  "Ring \<Rightarrow> (rstring \<Rightarrow> rstring option) \<Rightarrow> bool \<Rightarrow> bool \<Rightarrow> RecordingSettings \<Rightarrow>
   FinalizedRecordingCapability \<Rightarrow> stored_file \<Rightarrow> RecordedChunks result" where
  "preflight_finalized_recording ring env snapshot_ok cancelled settings capability file =
     (case snapshot_finalized_recording ring env snapshot_ok cancelled settings capability file of
        Inl e \<Rightarrow> Inl e
      | Inr (chunks, content) \<Rightarrow>
     (case validate_completed_chunks ring cancelled chunks of
        Inl e \<Rightarrow> Inl e
      | Inr chunks' \<Rightarrow> rewind_verified_snapshot ring cancelled content (fc_sha256 capability) chunks'))"

datatype RecordingAdoptionError =
    Adopt_NotFound | Adopt_Unreadable | Adopt_NotClosed | Adopt_Incomplete | Adopt_IdentityMismatch
  | Adopt_Unavailable RuntimeError

definition unavailable_or :: "bool \<Rightarrow> RecordingAdoptionError \<Rightarrow> RuntimeError \<Rightarrow> RecordingAdoptionError" where
  "unavailable_or cancelled refusal error = (if cancelled then Adopt_Unavailable error else refusal)"

definition adopt_closed_recording ::
  "Ring \<Rightarrow> (rstring \<Rightarrow> rstring option) \<Rightarrow> bool \<Rightarrow> bool \<Rightarrow> RecordingSettings \<Rightarrow> SessionId \<Rightarrow> rstring \<Rightarrow>
   stored_file \<Rightarrow> RecordingAdoptionError + (RecordingSummary \<times> FinalizedRecordingCapability)" where
  "adopt_closed_recording ring env snapshot_ok cancelled settings source_session_id handle file =
     (case decode_handle handle of
        None \<Rightarrow> Inl Adopt_NotFound
      | Some binding \<Rightarrow>
     if cancelled then Inl (Adopt_Unavailable cancelled_error)
     else
     (case from_environment ring env (rs_key_env settings) of
        Inl e \<Rightarrow> Inl (Adopt_Unavailable e)
      | Inr key \<Rightarrow>
     if file = File_Missing then Inl Adopt_NotFound
     else if file = File_Unreachable then Inl Adopt_Unreadable
     else
     (case snapshot_recording ring snapshot_ok cancelled key file of
        Inl e \<Rightarrow> Inl (unavailable_or cancelled Adopt_Unreadable e)
      | Inr (chunks, content, sha256) \<Rightarrow>
     if header_binding (rc_header chunks) \<noteq> binding \<or> rc_session_id chunks \<noteq> source_session_id
     then Inl Adopt_IdentityMismatch
     else
     (case walk_completed_chunks ring cancelled chunks of
        (_, Inl e) \<Rightarrow> Inl (unavailable_or cancelled Adopt_Unreadable e)
      | (chunks', Inr walk) \<Rightarrow>
     if cw_incomplete walk then Inl Adopt_Incomplete
     else if \<not> cw_ended walk then Inl Adopt_NotClosed
     else if rc_truncated chunks' then Inl Adopt_Unreadable
     else
     (case rewind_verified_snapshot ring cancelled content sha256 chunks' of
        Inl e \<Rightarrow> Inl (unavailable_or cancelled Adopt_Unreadable e)
      | Inr _ \<Rightarrow>
          let summary = timeline_summary (cw_timeline walk) (recording_path (rs_directory settings) handle)
                          handle sha256 (rk_key_id key)
          in (case authorize ring key
                     \<lparr>fc_source_session_id = rc_session_id chunks,
                      fc_recording_handle = su_recording_handle summary,
                      fc_sha256 = su_sha256 summary, fc_key_id = su_key_id summary,
                      fc_authorization = []\<rparr> of
                Inl e \<Rightarrow> Inl (Adopt_Unavailable e)
              | Inr capability \<Rightarrow> Inr (summary, capability)))))))"

section \<open>Streams of sealed chunks\<close>

text \<open>What the library promises of a sealed chunk: it opens to what was sealed.\<close>

definition aead_ok :: "Ring \<Rightarrow> bool" where
  "aead_ok ring \<longleftrightarrow>
     (\<forall>k n a p c. ring_seal ring k n a p = Some c \<longrightarrow> ring_open ring k n a c = Some p)"

fun kind_ok :: "bool \<Rightarrow> RecordedChunk \<Rightarrow> bool" where
  "kind_ok timed (Rec_Frame _ _ _ _ _ _) = (\<not> timed)"
| "kind_ok timed (Rec_GapStarted _ _) = True"
| "kind_ok timed (Rec_GapEnded _) = True"
| "kind_ok timed (Rec_Ended _) = True"
| "kind_ok timed _ = timed"

definition sealed_chunk ::
  "Ring \<Rightarrow> byte list \<Rightarrow> byte list \<Rightarrow> u32 \<Rightarrow> RecordedChunk \<Rightarrow> byte list \<Rightarrow> u32 \<Rightarrow> bool" where
  "sealed_chunk ring key header n c ct n' \<longleftrightarrow>
     chunk_ok c \<and> kind_ok (is_timed header) c \<and>
     ring_seal ring key (chunk_nonce header n) (chunk_aad header n) (record_of c) = Some ct \<and>
     length ct \<le> MAX_CHUNK_CIPHERTEXT_BYTES \<and> checked_add n 1 = Some n'"

inductive sealed_stream ::
  "Ring \<Rightarrow> byte list \<Rightarrow> byte list \<Rightarrow> u32 \<Rightarrow> RecordedChunk list \<Rightarrow> byte list \<Rightarrow> u32 \<Rightarrow> bool"
  for ring key header where
  Empty: "sealed_stream ring key header n [] [] n"
| Chunk: "sealed_chunk ring key header n c ct n' \<Longrightarrow> sealed_stream ring key header n' cs bs m \<Longrightarrow>
    sealed_stream ring key header n (c # cs) (u32_to_be (of_nat (length ct)) @ ct @ bs) m"

inductive_cases sealed_stream_NilE: "sealed_stream ring key header n [] bs m"
inductive_cases sealed_stream_ConsE: "sealed_stream ring key header n (c # cs) bs m"

lemma sealed_stream_snoc:
  "sealed_stream ring key header n cs bs m \<Longrightarrow> sealed_chunk ring key header m c ct m' \<Longrightarrow>
   sealed_stream ring key header n (cs @ [c]) (bs @ u32_to_be (of_nat (length ct)) @ ct) m'"
proof (induction rule: sealed_stream.induct)
  case (Empty n)
  then show ?case using sealed_stream.Chunk [OF _ sealed_stream.Empty] by fastforce
next
  case (Chunk n c' ct' n' cs bs m)
  then show ?case using sealed_stream.Chunk [OF Chunk.hyps(1)] by simp
qed

lemma sealed_stream_prefix_unique:
  "sealed_stream ring key header n cs bs m \<Longrightarrow> sealed_stream ring key header n cs bs' m' \<Longrightarrow> bs = bs' \<and> m = m'"
proof (induction arbitrary: bs' m' rule: sealed_stream.induct)
  case (Empty n)
  then show ?case by (auto elim: sealed_stream_NilE)
next
  case (Chunk n c ct n' cs bs m)
  from Chunk.prems obtain ct2 n2 bs2 where
    "sealed_chunk ring key header n c ct2 n2" "sealed_stream ring key header n2 cs bs2 m'"
    "bs' = u32_to_be (of_nat (length ct2)) @ ct2 @ bs2"
    by (auto elim: sealed_stream_ConsE)
  moreover then have "ct2 = ct" "n2 = n'" using Chunk.hyps(1) by (auto simp: sealed_chunk_def)
  ultimately show ?case using Chunk.IH by blast
qed

lemma record_kind:
  assumes "chunk_ok c" "kind_ok timed c"
  shows "admissible timed strict (record_of c)"
proof -
  have "strict_ok (record_of c)" using assms(1) by (rule record_of_strict)
  moreover have "record_of c \<noteq> [] \<and> \<not> (timed \<and> record_of c ! 0 = CHUNK_FRAME)
      \<and> \<not> (\<not> timed \<and> record_of c ! 0 \<ge> CHUNK_POLICY)"
  proof (cases c)
    case (Rec_CaptureMetadata m)
    then show ?thesis
      using assms by (cases m) (auto simp: chunk_kinds split: sum.splits if_splits)
  qed (use assms in \<open>auto simp: chunk_kinds timed_frame_record_def policy_record_def
        gap_started_record_def gap_ended_record_def ended_record_def word_le_nat_alt\<close>)
  ultimately show ?thesis by (simp add: admissible_def)
qed

lemma unat_chunk_length:
  "length ct \<le> MAX_CHUNK_CIPHERTEXT_BYTES \<Longrightarrow> unat (of_nat (length ct) :: u32) = length ct"
  by (simp add: MAX_CHUNK_CIPHERTEXT_BYTES_def unat_of_nat take_bit_nat_eq_self)

lemma u32_to_be_not_Nil: "u32_to_be x \<noteq> []"
proof -
  have "length (u32_to_be x) = 4" by simp
  then show ?thesis by (metis list.size(3) zero_neq_numeral)
qed

lemma next_chunk_sealed:
  assumes "aead_ok ring" "sealed_chunk ring (rk_key (rc_key c)) (rc_header c) (rc_counter c) x ct n'"
    and "rc_remaining c = u32_to_be (of_nat (length ct)) @ ct @ rest" "\<not> rc_finished c"
  shows "next_chunk ring c = (c\<lparr>rc_remaining := rest, rc_counter := n'\<rparr>, Inr (Some x))"
proof -
  have x: "chunk_ok x" "kind_ok (is_timed (rc_header c)) x" "checked_add (rc_counter c) 1 = Some n'"
    "length ct \<le> MAX_CHUNK_CIPHERTEXT_BYTES"
    using assms(2) by (auto simp: sealed_chunk_def)
  have o: "ring_open ring (rk_key (rc_key c)) (chunk_nonce (rc_header c) (rc_counter c))
             (chunk_aad (rc_header c) (rc_counter c)) ct = Some (record_of x)"
    using assms(1,2) by (auto simp: sealed_chunk_def aead_ok_def)
  note l = unat_chunk_length [OF x(4)]
  have p: "u32_to_be (of_nat (length ct)) \<noteq> []" by (rule u32_to_be_not_Nil)
  show ?thesis
    using assms(3,4) p x(3,4)
    by (simp add: next_chunk_def fill_def Let_def l o record_kind [OF x(1,2)] decode_record [OF x(1)])
qed

lemma next_chunk_torn:
  assumes "sealed_chunk ring (rk_key (rc_key c)) (rc_header c) (rc_counter c) x ct n'"
    and "rc_remaining c = take k (u32_to_be (of_nat (length ct)) @ ct @ rest)" "\<not> rc_finished c"
    and "0 < k" "k < 4 + length ct"
  shows "\<exists>c'. next_chunk ring c = (c', Inr None) \<and> rc_truncated c' \<and> rc_session_id c' = rc_session_id c"
proof -
  have len: "length ct \<le> MAX_CHUNK_CIPHERTEXT_BYTES" using assms(1) by (simp add: sealed_chunk_def)
  note l = unat_chunk_length [OF len]
  show ?thesis
  proof (cases "k < 4")
    case True
    then show ?thesis
      using assms(2-4) u32_to_be_not_Nil by (simp add: next_chunk_def fill_def tear_def Let_def min_def)
  next
    case False
    then have "\<not> length ct \<le> k - 4" using assms(5) by linarith
    then show ?thesis
      using False assms(2,3,5) u32_to_be_not_Nil len l
      by (simp add: next_chunk_def fill_def tear_def Let_def min_def)
  qed
qed

text \<open>
  Reading a prefix of a stream returns the chunks that lie wholly within it, and reports a torn
  tail exactly when the prefix does not end between two chunks.
\<close>

lemma read_chunks_prefix:
  assumes "sealed_stream ring (rk_key (rc_key c)) (rc_header c) (rc_counter c) cs bs m" "aead_ok ring"
    and "rc_remaining c = take k bs" "\<not> rc_finished c" "\<not> rc_truncated c"
  shows "\<exists>j bs' m'. j \<le> length cs \<and>
    sealed_stream ring (rk_key (rc_key c)) (rc_header c) (rc_counter c) (take j cs) bs' m' \<and> prefix bs' (take k bs) \<and>
    (j < length cs \<longrightarrow> (\<forall>bs'' m''. sealed_stream ring (rk_key (rc_key c)) (rc_header c) (rc_counter c) (take (Suc j) cs) bs'' m''
       \<longrightarrow> k < length bs'')) \<and>
    read_chunks ring c acc = Inr \<lparr>rn_session_id = rc_session_id c, rn_chunks = acc @ take j cs,
      rn_truncated = (bs' \<noteq> take k bs)\<rparr>"
  using assms
proof (induction cs arbitrary: c acc k bs)
  case Nil
  then have "bs = []" by (auto elim: sealed_stream_NilE)
  then have "read_chunks ring c acc = Inr \<lparr>rn_session_id = rc_session_id c, rn_chunks = acc, rn_truncated = False\<rparr>"
    using Nil.prems by (subst read_chunks.simps) (simp add: next_chunk_def fill_def Let_def)
  then show ?case using \<open>bs = []\<close> sealed_stream.Empty by fastforce
next
  case (Cons x cs)
  let ?key = "rk_key (rc_key c)" and ?h = "rc_header c" and ?n = "rc_counter c"
  from Cons.prems(1) obtain ct n' rest where
    x: "sealed_chunk ring ?key ?h ?n x ct n'" and rest: "sealed_stream ring ?key ?h n' cs rest m"
    and bs: "bs = u32_to_be (of_nat (length ct)) @ ct @ rest"
    by (auto elim: sealed_stream_ConsE)
  have one: "sealed_stream ring ?key ?h ?n [x] bs'' m'' \<Longrightarrow> length bs'' = 4 + length ct" for bs'' m''
    using sealed_stream_prefix_unique [OF sealed_stream.Chunk [OF x sealed_stream.Empty]] by fastforce
  show ?case
  proof (cases "k < 4 + length ct")
    case True
    have "read_chunks ring c acc = Inr \<lparr>rn_session_id = rc_session_id c, rn_chunks = acc, rn_truncated = (take k bs \<noteq> [])\<rparr>"
    proof (cases "k = 0")
      case True
      then show ?thesis
        using Cons.prems by (subst read_chunks.simps) (simp add: next_chunk_def fill_def Let_def)
    next
      case False
      then obtain c' where "next_chunk ring c = (c', Inr None)" "rc_truncated c'" "rc_session_id c' = rc_session_id c"
        using next_chunk_torn [OF x, of k rest] Cons.prems bs True by auto
      then show ?thesis using False bs u32_to_be_not_Nil by (subst read_chunks.simps) simp
    qed
    then show ?thesis
      using True one by (intro exI [of _ 0] exI [of _ "[]"] exI [of _ ?n]) (auto intro: sealed_stream.Empty)
  next
    case False
    define c' where "c' = c\<lparr>rc_remaining := take (k - (4 + length ct)) rest, rc_counter := n'\<rparr>"
    have take: "take k bs = u32_to_be (of_nat (length ct)) @ ct @ take (k - (4 + length ct)) rest"
      using False by (simp add: bs)
    have step: "next_chunk ring c = (c', Inr (Some x))"
      unfolding c'_def using Cons.prems x take by (intro next_chunk_sealed) simp_all
    have "\<exists>j bs' m'. j \<le> length cs \<and> sealed_stream ring ?key ?h n' (take j cs) bs' m'
        \<and> prefix bs' (take (k - (4 + length ct)) rest) \<and>
        (j < length cs \<longrightarrow> (\<forall>bs'' m''. sealed_stream ring ?key ?h n' (take (Suc j) cs) bs'' m''
           \<longrightarrow> k - (4 + length ct) < length bs'')) \<and>
        read_chunks ring c' (acc @ [x]) = Inr \<lparr>rn_session_id = rc_session_id c, rn_chunks = (acc @ [x]) @ take j cs,
          rn_truncated = (bs' \<noteq> take (k - (4 + length ct)) rest)\<rparr>"
      using Cons.IH [of c' rest "k - (4 + length ct)" "acc @ [x]"] rest Cons.prems by (simp add: c'_def)
    then obtain j bs' m' where j: "j \<le> length cs" "sealed_stream ring ?key ?h n' (take j cs) bs' m'"
        "prefix bs' (take (k - (4 + length ct)) rest)"
        "j < length cs \<Longrightarrow> sealed_stream ring ?key ?h n' (take (Suc j) cs) bs'' m'' \<Longrightarrow> k - (4 + length ct) < length bs''"
        "read_chunks ring c' (acc @ [x]) = Inr \<lparr>rn_session_id = rc_session_id c, rn_chunks = (acc @ [x]) @ take j cs,
          rn_truncated = (bs' \<noteq> take (k - (4 + length ct)) rest)\<rparr>" for bs'' m''
      by blast
    have longer: "k < length bs''" if "j < length cs" "sealed_stream ring ?key ?h ?n (x # take (Suc j) cs) bs'' m''" for bs'' m''
    proof -
      from that(2) obtain ct2 n2 b2 where
        "sealed_chunk ring ?key ?h ?n x ct2 n2" "sealed_stream ring ?key ?h n2 (take (Suc j) cs) b2 m''"
        "bs'' = u32_to_be (of_nat (length ct2)) @ ct2 @ b2"
        by (auto elim: sealed_stream_ConsE)
      moreover then have "ct2 = ct" "n2 = n'" using x by (auto simp: sealed_chunk_def)
      ultimately show ?thesis using j(4) [OF that(1)] False by fastforce
    qed
    have "read_chunks ring c acc = read_chunks ring c' (acc @ [x])"
      by (subst read_chunks.simps) (simp add: step)
    then show ?thesis
      using j take longer sealed_stream.Chunk [OF x j(2)]
      by (intro exI [of _ "Suc j"] exI [of _ "u32_to_be (of_nat (length ct)) @ ct @ bs'"] exI [of _ m']) simp
  qed
qed

section \<open>Walking a stream\<close>

fun walk_all :: "bool \<Rightarrow> WalkState \<Rightarrow> RecordedChunk list \<Rightarrow> walk_outcome result" where
  "walk_all timed s [] = Inr (Walk_On s)"
| "walk_all timed s (c # cs) =
     (case walk_step timed s c of
        Inl e \<Rightarrow> Inl e
      | Inr (Walk_Incomplete t) \<Rightarrow> Inr (Walk_Incomplete t)
      | Inr (Walk_On s') \<Rightarrow> walk_all timed s' cs)"

lemma walk_all_append:
  "walk_all timed s cs = Inr (Walk_On s') \<Longrightarrow> walk_all timed s (cs @ ds) = walk_all timed s' ds"
  by (induction timed s cs rule: walk_all.induct) (auto split: sum.splits walk_outcome.splits)

lemma walk_chunks_stream:
  assumes "sealed_stream ring (rk_key (rc_key c)) (rc_header c) (rc_counter c) cs bs m" "aead_ok ring"
    and "rc_remaining c = bs" "\<not> rc_finished c" "\<not> rc_truncated c"
    and "walk_all (is_timed (rc_header c)) s cs = Inr (Walk_On s')"
  shows "walk_chunks ring False c s =
      (c\<lparr>rc_remaining := [], rc_counter := m, rc_finished := True\<rparr>,
       Inr \<lparr>cw_ended = wk_ended s', cw_incomplete = False, cw_timeline = wk_timeline s'\<rparr>)"
  using assms
proof (induction cs arbitrary: c s bs)
  case Nil
  then have "bs = []" "m = rc_counter c" by (auto elim: sealed_stream_NilE)
  then show ?case
    using Nil.prems by (subst walk_chunks.simps) (simp add: next_chunk_def fill_def Let_def)
next
  case (Cons x cs)
  from Cons.prems(1) obtain ct n' rest where
    x: "sealed_chunk ring (rk_key (rc_key c)) (rc_header c) (rc_counter c) x ct n'"
    and rest: "sealed_stream ring (rk_key (rc_key c)) (rc_header c) n' cs rest m"
    and bs: "bs = u32_to_be (of_nat (length ct)) @ ct @ rest"
    by (auto elim: sealed_stream_ConsE)
  define c1 where "c1 = c\<lparr>rc_remaining := rest, rc_counter := n'\<rparr>"
  have step: "next_chunk ring c = (c1, Inr (Some x))"
    unfolding c1_def using Cons.prems x bs by (intro next_chunk_sealed) simp_all
  from Cons.prems(6) obtain s1 where s1: "walk_step (is_timed (rc_header c)) s x = Inr (Walk_On s1)"
    "walk_all (is_timed (rc_header c)) s1 cs = Inr (Walk_On s')"
    by (auto split: sum.splits walk_outcome.splits)
  have "walk_chunks ring False c1 s1 =
      (c1\<lparr>rc_remaining := [], rc_counter := m, rc_finished := True\<rparr>,
       Inr \<lparr>cw_ended = wk_ended s', cw_incomplete = False, cw_timeline = wk_timeline s'\<rparr>)"
    using Cons.prems s1(2) rest by (intro Cons.IH) (simp_all add: c1_def)
  moreover have "walk_chunks ring False c s = walk_chunks ring False c1 s1"
    by (subst walk_chunks.simps) (simp add: step s1(1))
  ultimately show ?case by (simp add: c1_def)
qed

lemma walk_chunks_incomplete:
  assumes "sealed_stream ring (rk_key (rc_key c)) (rc_header c) (rc_counter c) cs bs m" "aead_ok ring"
    and "rc_remaining c = bs" "\<not> rc_finished c" "\<not> rc_truncated c"
    and "walk_all (is_timed (rc_header c)) s cs = Inr (Walk_Incomplete t)"
  shows "\<exists>c'. walk_chunks ring False c s = (c', Inr \<lparr>cw_ended = False, cw_incomplete = True, cw_timeline = t\<rparr>)"
  using assms
proof (induction cs arbitrary: c s bs)
  case (Cons x cs)
  from Cons.prems(1) obtain ct n' rest where
    x: "sealed_chunk ring (rk_key (rc_key c)) (rc_header c) (rc_counter c) x ct n'"
    and rest: "sealed_stream ring (rk_key (rc_key c)) (rc_header c) n' cs rest m"
    and bs: "bs = u32_to_be (of_nat (length ct)) @ ct @ rest"
    by (auto elim: sealed_stream_ConsE)
  define c1 where "c1 = c\<lparr>rc_remaining := rest, rc_counter := n'\<rparr>"
  have step: "next_chunk ring c = (c1, Inr (Some x))"
    unfolding c1_def using Cons.prems x bs by (intro next_chunk_sealed) simp_all
  from Cons.prems(6) consider "walk_step (is_timed (rc_header c)) s x = Inr (Walk_Incomplete t)"
    | s1 where "walk_step (is_timed (rc_header c)) s x = Inr (Walk_On s1)"
        "walk_all (is_timed (rc_header c)) s1 cs = Inr (Walk_Incomplete t)"
    by (auto split: sum.splits walk_outcome.splits)
  then show ?case
  proof cases
    case 1
    then show ?thesis by (subst walk_chunks.simps) (simp add: step)
  next
    case 2
    have "\<exists>c'. walk_chunks ring False c1 s1 = (c', Inr \<lparr>cw_ended = False, cw_incomplete = True, cw_timeline = t\<rparr>)"
      using Cons.prems 2(2) rest by (intro Cons.IH) (simp_all add: c1_def)
    moreover have "walk_chunks ring False c s = walk_chunks ring False c1 s1"
      by (subst walk_chunks.simps) (simp add: step 2(1))
    ultimately show ?thesis by simp
  qed
qed simp

end
