(* ===== verification/Recording_Adoption.thy ===== *)
theory Recording_Adoption
  imports Recording_Reader
begin

text \<open>
  The recorder and the readers together. Every operation of the recorder that returns success
  appends sealed chunks whose walk rebuilds the recorder's own state, so a closed file states what
  its recorder would have stated: adoption returns the summary and the capability that a live
  finalize returns, the capability passes the preflight, and a file cut off anywhere reads back as
  the chunks it wholly contains.
\<close>

section \<open>Appending\<close>

lemma sink_ops_ok: "sink_ops w bs (d, io) = ((d', io'), True) \<Longrightarrow> d' = d @ concat bs"
proof (induction bs arbitrary: d io)
  case (Cons b bs)
  then show ?case using Cons.IH [of "d @ b" "Suc io"] by (auto simp: sink_op_def split: option.splits)
qed simp

lemma try_then_ok:
  "try_then m k = (r', Inr y) \<longleftrightarrow> (\<exists>r a. m = (r, Inr a) \<and> k r a = (r', Inr y))"
  by (cases m; cases "snd m") (auto simp: try_then_def)

text \<open>A successful append changes only the fields named here.\<close>

lemma append_chunk_ok:
  assumes "append_chunk ring w chunk r = (r', Inr u)"
  shows "\<exists>ct v io. next_validation r chunk = Inr v \<and> sr_file r \<and> \<not> sr_ended r
     \<and> checked_add (sr_counter r) 1 = Some (sr_counter r')
     \<and> ring_seal ring (rk_key (sr_key r)) (chunk_nonce (sr_header r) (sr_counter r))
         (chunk_aad (sr_header r) (sr_counter r)) chunk = Some ct
     \<and> length ct \<le> MAX_CHUNK_CIPHERTEXT_BYTES
     \<and> r' = r\<lparr>sr_counter := sr_counter r', sr_disk := sr_disk r @ u32_to_be (of_nat (length ct)) @ ct,
             sr_io := io, sr_sealed := sr_sealed r @ u32_to_be (of_nat (length ct)) @ ct,
             sr_written_bytes := sat_add (sat_add (sr_written_bytes r) 4) (of_nat (length ct)),
             sr_timed_validation := v\<rparr>"
proof -
  obtain v where v: "next_validation r chunk = Inr v"
    using assms by (auto simp: append_chunk_def split: sum.splits)
  have f: "sr_file r" "\<not> sr_ended r" using assms v by (auto simp: append_chunk_def split: if_splits)
  obtain succ where succ: "checked_add (sr_counter r) 1 = Some succ"
    using assms v f by (auto simp: append_chunk_def Let_def split: option.splits)
  obtain ct where ct: "ring_seal ring (rk_key (sr_key r)) (chunk_nonce (sr_header r) (sr_counter r))
         (chunk_aad (sr_header r) (sr_counter r)) chunk = Some ct" "length ct \<le> MAX_CHUNK_CIPHERTEXT_BYTES"
    using assms v f succ by (auto simp: append_chunk_def Let_def split: option.splits if_splits)
  obtain d io ok where s: "sink_ops w [u32_to_be (of_nat (length ct)), ct, []] (sr_disk r, sr_io r) = ((d, io), ok)"
    by (metis surj_pair)
  have ok: "ok" using assms v f succ ct s
    by (auto simp: append_chunk_def Let_def write_chunk_def split: if_splits)
  then have d: "d = sr_disk r @ u32_to_be (of_nat (length ct)) @ ct"
    using sink_ops_ok [of w "[u32_to_be (of_nat (length ct)), ct, []]" "sr_disk r" "sr_io r" d io] s by simp
  have "r' = r\<lparr>sr_counter := succ, sr_disk := d, sr_io := io,
      sr_sealed := sr_sealed r @ u32_to_be (of_nat (length ct)) @ ct,
      sr_written_bytes := sat_add (sat_add (sr_written_bytes r) 4) (of_nat (length ct)),
      sr_timed_validation := v\<rparr>"
    using assms v f succ ct s ok by (auto simp: append_chunk_def Let_def write_chunk_def)
  then show ?thesis using v f succ ct d by auto
qed

section \<open>The recorder simulates the walk\<close>

text \<open>What the walk of the chunks written so far has to reach: the recorder's own state.\<close>

definition walk_view :: "PcmFormat option \<Rightarrow> u64 \<Rightarrow> SessionRecorder \<Rightarrow> WalkState" where
  "walk_view fmt last_at r =
     \<lparr>wk_ended = sr_ended r, wk_format = fmt, wk_gap = sr_open_gap_at_ms r, wk_last_at_ms = last_at,
      wk_validation = (case sr_timed_validation r of None \<Rightarrow> TimedValidation_default | Some v \<Rightarrow> v),
      wk_timeline = \<lparr>mt_format = fmt, mt_media_ms = sr_media_ms r, mt_timed_samples = sr_timed_samples r,
        mt_timed_gap_ms = sr_timed_gap_ms r, mt_open_gap_at_ms = sr_open_gap_at_ms r, mt_gaps = sr_gaps r\<rparr>\<rparr>"

definition disk_ok :: "Ring \<Rightarrow> SessionRecorder \<Rightarrow> RecordedChunk list \<Rightarrow> bool" where
  "disk_ok ring r cs \<longleftrightarrow>
     length (sr_header r) = 48 \<and>
     (\<exists>bs. sr_disk r = sr_header r @ bs \<and>
        sealed_stream ring (rk_key (sr_key r)) (sr_header r) 0 cs bs (sr_counter r)) \<and>
     sr_sealed r = sr_disk r \<and> \<not> sr_capability_poisoned r \<and> \<not> sr_recording_failed r \<and>
     sr_summary r = None \<and> sr_file r \<and>
     (sr_timed_validation r \<noteq> None \<longleftrightarrow> is_timed (sr_header r)) \<and>
     (sr_timing_budget r \<noteq> None \<longleftrightarrow> is_timed (sr_header r))"

definition sim ::
  "Ring \<Rightarrow> World \<Rightarrow> SessionRecorder \<Rightarrow> RecordedChunk list \<Rightarrow> PcmFormat option \<Rightarrow> u64 \<Rightarrow> bool" where
  "sim ring w r cs fmt last_at \<longleftrightarrow>
     disk_ok ring r cs \<and> walk_all (is_timed (sr_header r)) WalkState_new cs = Inr (Walk_On (walk_view fmt last_at r)) \<and>
     last_at \<le> w_clock w (sr_reads r)"

text \<open>The identity of a recorder: what its operations never change.\<close>

definition same_recorder :: "SessionRecorder \<Rightarrow> SessionRecorder \<Rightarrow> bool" where
  "same_recorder r r' \<longleftrightarrow>
     sr_session_id r' = sr_session_id r \<and> sr_handle r' = sr_handle r \<and> sr_path r' = sr_path r \<and>
     sr_key r' = sr_key r \<and> sr_header r' = sr_header r \<and> sr_failure_recorded r' = sr_failure_recorded r \<and>
     sr_reads r \<le> sr_reads r'"

definition clock_ok :: "World \<Rightarrow> bool" where
  "clock_ok w \<longleftrightarrow> (\<forall>i j. i \<le> j \<longrightarrow> w_clock w i \<le> w_clock w j)"

lemma same_recorder_refl [simp]: "same_recorder r r"
  by (simp add: same_recorder_def)

lemma same_recorder_trans: "same_recorder a b \<Longrightarrow> same_recorder b c \<Longrightarrow> same_recorder a c"
  by (simp add: same_recorder_def)

lemma sim_tick:
  assumes "clock_ok w" "sim ring w r cs fmt last_at"
  shows "sim ring w (tick r) cs fmt last_at"
proof -
  have "w_clock w (sr_reads r) \<le> w_clock w (Suc (sr_reads r))" using assms(1) by (simp add: clock_ok_def)
  then show ?thesis using assms(2) by (auto simp: sim_def disk_ok_def walk_view_def tick_def)
qed

lemma append_validation:
  assumes "next_validation r (record_of c) = Inr v" "chunk_ok c" "sr_timed_validation r \<noteq> None \<longleftrightarrow> timed"
  shows "(if timed then accept (wk_validation (walk_view fmt last_at r)) c
          else Inr (wk_validation (walk_view fmt last_at r)))
         = Inr (case v of None \<Rightarrow> TimedValidation_default | Some x \<Rightarrow> x) \<and> (v \<noteq> None \<longleftrightarrow> timed)"
  using assms decode_record [OF assms(2)]
  by (auto simp: next_validation_def walk_view_def split: option.splits sum.splits)

text \<open>
  An append as the walk sees it: the recorder \<open>r'\<close> behind it, the longer stream, and the step of the
  walk reduced to the part that follows the validation.
\<close>

lemma sim_append:
  assumes "sim ring w r cs fmt last_at" "append_chunk ring w (record_of c) r = (r', Inr u)"
    and "chunk_ok c" "kind_ok (is_timed (sr_header r)) c"
  shows "disk_ok ring r' (cs @ [c])"
    and "walk_all (is_timed (sr_header r)) WalkState_new (cs @ [c]) =
           walk_step (is_timed (sr_header r)) (walk_view fmt last_at r) c"
    and "(if is_timed (sr_header r) then accept (wk_validation (walk_view fmt last_at r)) c
          else Inr (wk_validation (walk_view fmt last_at r)))
         = Inr (wk_validation (walk_view fmt last_at r'))"
    and "\<exists>counter disk io sealed bytes v. r' = r\<lparr>sr_counter := counter, sr_disk := disk, sr_io := io,
           sr_sealed := sealed, sr_written_bytes := bytes, sr_timed_validation := v\<rparr>"
    and "\<not> sr_ended r"
proof -
  obtain ct v io where a: "next_validation r (record_of c) = Inr v" "\<not> sr_ended r"
      "checked_add (sr_counter r) 1 = Some (sr_counter r')"
      "ring_seal ring (rk_key (sr_key r)) (chunk_nonce (sr_header r) (sr_counter r))
         (chunk_aad (sr_header r) (sr_counter r)) (record_of c) = Some ct"
      "length ct \<le> MAX_CHUNK_CIPHERTEXT_BYTES"
      "r' = r\<lparr>sr_counter := sr_counter r', sr_disk := sr_disk r @ u32_to_be (of_nat (length ct)) @ ct,
             sr_io := io, sr_sealed := sr_sealed r @ u32_to_be (of_nat (length ct)) @ ct,
             sr_written_bytes := sat_add (sat_add (sr_written_bytes r) 4) (of_nat (length ct)),
             sr_timed_validation := v\<rparr>"
    using append_chunk_ok [OF assms(2)] by blast
  have d: "disk_ok ring r cs" using assms(1) by (simp add: sim_def)
  have "sealed_chunk ring (rk_key (sr_key r)) (sr_header r) (sr_counter r) c ct (sr_counter r')"
    using a assms(3,4) by (simp add: sealed_chunk_def)
  then have st: "\<exists>bs. sr_disk r @ u32_to_be (of_nat (length ct)) @ ct = sr_header r @ bs \<and>
      sealed_stream ring (rk_key (sr_key r)) (sr_header r) 0 (cs @ [c]) bs (sr_counter r')"
    using d sealed_stream_snoc by (fastforce simp: disk_ok_def)
  have v: "(v \<noteq> None) = is_timed (sr_header r)"
    "(if is_timed (sr_header r) then accept (wk_validation (walk_view fmt last_at r)) c
          else Inr (wk_validation (walk_view fmt last_at r)))
      = Inr (case v of None \<Rightarrow> TimedValidation_default | Some x \<Rightarrow> x)"
    using append_validation [OF a(1) assms(3)] d by (auto simp: disk_ok_def)
  have eqs: "sr_header r' = sr_header r" "sr_key r' = sr_key r"
    "sr_disk r' = sr_disk r @ u32_to_be (of_nat (length ct)) @ ct"
    "sr_sealed r' = sr_sealed r @ u32_to_be (of_nat (length ct)) @ ct"
    "sr_capability_poisoned r' = sr_capability_poisoned r" "sr_recording_failed r' = sr_recording_failed r"
    "sr_summary r' = sr_summary r" "sr_file r' = sr_file r" "sr_timed_validation r' = v"
    "sr_timing_budget r' = sr_timing_budget r"
    by (subst a(6), simp)+
  show "disk_ok ring r' (cs @ [c])" unfolding disk_ok_def eqs using d st v(1) by (simp add: disk_ok_def)
  show "walk_all (is_timed (sr_header r)) WalkState_new (cs @ [c]) =
           walk_step (is_timed (sr_header r)) (walk_view fmt last_at r) c"
    using assms(1) walk_all_append [of "is_timed (sr_header r)" WalkState_new cs]
    by (simp add: sim_def split: sum.splits walk_outcome.splits)
  show "(if is_timed (sr_header r) then accept (wk_validation (walk_view fmt last_at r)) c
          else Inr (wk_validation (walk_view fmt last_at r)))
         = Inr (wk_validation (walk_view fmt last_at r'))"
    unfolding v(2) by (simp add: walk_view_def eqs)
  show "\<exists>counter disk io sealed bytes v. r' = r\<lparr>sr_counter := counter, sr_disk := disk, sr_io := io,
           sr_sealed := sealed, sr_written_bytes := bytes, sr_timed_validation := v\<rparr>"
    using a(6) by blast
  show "\<not> sr_ended r" by (rule a(2))
qed

text \<open>Updates that the walk does not see.\<close>

lemma disk_ok_updates [simp]:
  "disk_ok ring (r\<lparr>sr_ended := a\<rparr>) cs = disk_ok ring r cs"
  "disk_ok ring (r\<lparr>sr_limit_notices := b\<rparr>) cs = disk_ok ring r cs"
  "disk_ok ring (r\<lparr>sr_safety := c\<rparr>) cs = disk_ok ring r cs"
  "disk_ok ring (r\<lparr>sr_media_ms := d\<rparr>) cs = disk_ok ring r cs"
  "disk_ok ring (r\<lparr>sr_timed_gap_ms := e\<rparr>) cs = disk_ok ring r cs"
  "disk_ok ring (r\<lparr>sr_gaps := f\<rparr>) cs = disk_ok ring r cs"
  "disk_ok ring (r\<lparr>sr_open_gap_at_ms := g\<rparr>) cs = disk_ok ring r cs"
  "disk_ok ring (r\<lparr>sr_timed_samples := h\<rparr>) cs = disk_ok ring r cs"
  "disk_ok ring (r\<lparr>sr_format := i\<rparr>) cs = disk_ok ring r cs"
  by (simp_all add: disk_ok_def)

lemma sim_updates [simp]:
  "sim ring w (r\<lparr>sr_limit_notices := b\<rparr>) cs fmt last_at = sim ring w r cs fmt last_at"
  "sim ring w (r\<lparr>sr_safety := c\<rparr>) cs fmt last_at = sim ring w r cs fmt last_at"
  "sim ring w (r\<lparr>sr_format := i\<rparr>) cs fmt last_at = sim ring w r cs fmt last_at"
  by (simp_all add: sim_def walk_view_def)

lemma sim_ended:
  assumes "sim ring w r cs fmt last_at" "last_at \<le> at_ms" "at_ms \<le> w_clock w (sr_reads r)"
    and "append_chunk ring w (ended_record at_ms) r = (r', Inr u)"
  shows "sim ring w (r'\<lparr>sr_ended := True\<rparr>) (cs @ [Rec_Ended at_ms]) fmt at_ms"
proof -
  note a = sim_append [OF assms(1), of "Rec_Ended at_ms" r' u] 
  obtain x1 x2 x3 x4 x5 x6 where r': "r' = r\<lparr>sr_counter := x1, sr_disk := x2, sr_io := x3,
           sr_sealed := x4, sr_written_bytes := x5, sr_timed_validation := x6\<rparr>"
    using a(4) assms(4) by auto
  have v: "walk_view fmt at_ms (r'\<lparr>sr_ended := True\<rparr>) =
      (walk_view fmt last_at r)\<lparr>wk_ended := True, wk_last_at_ms := at_ms,
        wk_validation := wk_validation (walk_view fmt last_at r')\<rparr>"
    by (simp add: walk_view_def r')
  have "walk_step (is_timed (sr_header r)) (walk_view fmt last_at r) (Rec_Ended at_ms)
      = Inr (Walk_On (walk_view fmt at_ms (r'\<lparr>sr_ended := True\<rparr>)))"
    unfolding walk_step_def using a(3,5) assms(2,4)
    by (simp add: walk_at_def v) (simp add: walk_view_def)
  then show ?thesis
    using a(1,2) assms(3,4) by (simp add: sim_def r')
qed

lemma limit_notices_shape: "\<exists>safety notices. limit_notices_for w frame r = (r\<lparr>sr_safety := safety\<rparr>, notices)"
proof (cases frame)
  case None
  then show ?thesis
    by (intro exI [of _ "sr_safety r"]) (simp add: limit_notices_for_def)
next
  case (Some f)
  then show ?thesis by (auto simp: limit_notices_for_def Let_def split_beta)
qed

lemma enforce_limits_sim:
  assumes "clock_ok w" "sim ring w r cs fmt last_at" "enforce_limits ring w frame r = (r', Inr u)"
  shows "\<exists>ds last_at'. sim ring w r' (cs @ ds) fmt last_at' \<and> same_recorder r r' \<and> sr_format r' = sr_format r"
proof -
  obtain safety notices where n: "limit_notices_for w frame r = (r\<lparr>sr_safety := safety\<rparr>, notices)"
    using limit_notices_shape [of w frame r] by blast
  let ?r = "r\<lparr>sr_safety := safety\<rparr>"
  show ?thesis
  proof (cases "stops notices")
    case False
    then show ?thesis
      using assms(2,3) n
      by (intro exI [of _ "[]"] exI [of _ last_at]) (auto simp: enforce_limits_def same_recorder_def)
  next
    case True
    then obtain r1 where r1: "append_chunk ring w (ended_record (elapsed_ms w ?r)) (tick ?r) = (r1, Inr ())"
      and r': "r' = r1\<lparr>sr_ended := True, sr_limit_notices := sr_limit_notices r1 @ notices\<rparr>"
      using assms(3) n by (auto simp: enforce_limits_def try_then_ok)
    have t: "sim ring w (tick ?r) cs fmt last_at" using sim_tick [OF assms(1)] assms(2) by simp
    have c: "last_at \<le> elapsed_ms w ?r" "elapsed_ms w ?r \<le> w_clock w (sr_reads (tick ?r))"
      using assms(1,2) by (auto simp: sim_def elapsed_ms_def tick_def clock_ok_def)
    have "sim ring w (r1\<lparr>sr_ended := True\<rparr>) (cs @ [Rec_Ended (elapsed_ms w ?r)]) fmt (elapsed_ms w ?r)"
      using sim_ended [OF t c r1] .
    moreover have "same_recorder r r1 \<and> sr_format r1 = sr_format r"
      using sim_append(4) [OF t, of "Rec_Ended (elapsed_ms w ?r)" r1] r1
      by (auto simp: same_recorder_def tick_def)
    ultimately show ?thesis by (auto simp: r' same_recorder_def)
  qed
qed

lemma end_gap_sim:
  assumes "sim ring w r cs fmt last_at" "last_at \<le> at_ms" "at_ms \<le> w_clock w (sr_reads r)"
    and "end_gap ring w (fmt \<noteq> None) at_ms r = (r', Inr u)"
  shows "\<exists>ds last_at'. sim ring w r' (cs @ ds) fmt last_at' \<and> last_at' \<le> at_ms \<and> sr_open_gap_at_ms r' = None
     \<and> same_recorder r r' \<and> sr_reads r' = sr_reads r \<and> sr_format r' = sr_format r"
proof (cases "sr_open_gap_at_ms r")
  case None
  then show ?thesis
    using assms by (intro exI [of _ "[]"] exI [of _ last_at]) (auto simp: end_gap_def)
next
  case (Some opened)
  let ?c = "Rec_GapEnded at_ms" and ?len = "sat_sub at_ms opened" and ?timed = "is_timed (sr_header r)"
  obtain r1 r2 where r1: "append_chunk ring w (record_of ?c) r = (r1, Inr ())"
    and r2: "charge_gap (fmt \<noteq> None) ?len (r1\<lparr>sr_open_gap_at_ms := None\<rparr>) = (r2, Inr ())"
    and r': "r' = r2\<lparr>sr_gaps := close_gap (sr_media_ms r2) (sr_gaps r2)\<rparr>"
    using assms(4) Some by (auto simp: end_gap_def try_then_ok)
  note a = sim_append [OF assms(1) r1]
  obtain x1 x2 x3 x4 x5 x6 where r1_eq: "r1 = r\<lparr>sr_counter := x1, sr_disk := x2, sr_io := x3,
           sr_sealed := x4, sr_written_bytes := x5, sr_timed_validation := x6\<rparr>"
    using a(4) by auto
  have budget: "sr_timing_budget r1 \<noteq> None \<longleftrightarrow> ?timed"
    using assms(1) by (simp add: sim_def disk_ok_def r1_eq)
  obtain y1 y2 where r2_eq: "r2 = r1\<lparr>sr_open_gap_at_ms := None, sr_timed_gap_ms := y1, sr_media_ms := y2\<rparr>"
    and tl: "timeline_gap_ended at_ms ?timed (wk_timeline (walk_view fmt last_at r)) =
        Inr \<lparr>mt_format = fmt, mt_media_ms = y2, mt_timed_samples = sr_timed_samples r,
             mt_timed_gap_ms = y1, mt_open_gap_at_ms = None, mt_gaps = close_gap y2 (sr_gaps r)\<rparr>"
    using r2 Some budget
    by (cases fmt; cases ?timed)
      (auto simp: charge_gap_def timeline_gap_ended_def walk_view_def r1_eq Let_def split: option.splits)
  have "walk_step ?timed (walk_view fmt last_at r) ?c = Inr (Walk_On (walk_view fmt at_ms r'))"
  proof -
    have "walk_view fmt at_ms r' = (walk_view fmt last_at r)\<lparr>wk_gap := None, wk_last_at_ms := at_ms,
        wk_validation := wk_validation (walk_view fmt last_at r1),
        wk_timeline := \<lparr>mt_format = fmt, mt_media_ms = y2, mt_timed_samples = sr_timed_samples r,
             mt_timed_gap_ms = y1, mt_open_gap_at_ms = None, mt_gaps = close_gap y2 (sr_gaps r)\<rparr>\<rparr>"
      by (simp add: walk_view_def r' r2_eq r1_eq)
    moreover have "wk_gap (walk_view fmt last_at r) = Some opened" "\<not> wk_ended (walk_view fmt last_at r)"
      "wk_last_at_ms (walk_view fmt last_at r) = last_at"
      using Some a(5) by (simp_all add: walk_view_def)
    ultimately show ?thesis
      unfolding walk_step_def using a(3) tl assms(2) by (simp add: walk_at_def)
  qed
  then have "sim ring w r' (cs @ [?c]) fmt at_ms"
    using a(1,2) assms(3) by (simp add: sim_def r' r2_eq r1_eq)
  then show ?thesis
    by (intro exI [of _ "[?c]"] exI [of _ at_ms]) (simp add: r' r2_eq r1_eq same_recorder_def)
qed

text \<open>A frame as the adapters construct it, with the timing they attach to it.\<close>

definition frame_ok :: "AudioFrame \<Rightarrow> bool" where
  "frame_ok frame \<longleftrightarrow>
     pcm_ok (af_format frame) \<and> af_bytes frame \<noteq> [] \<and> length (af_bytes frame) \<le> MAX_PCM_FRAME_BYTES \<and>
     (unat (pf_channels (af_format frame)) * bytes_per_sample (pf_sample_format (af_format frame)))
        dvd length (af_bytes frame) \<and>
     (case af_capture_timing frame of
        None \<Rightarrow> True
      | Some t \<Rightarrow> validate_pcm (tc_frame t) (af_format frame) (length (af_bytes frame)) = Inr ())"

lemma constructed_frame_ok:
  assumes "PcmFormat_new rate channels sf = Inr format"
    and "AudioFrame_new turn generation utterance sequence format bytes = Inr frame"
  shows "frame_ok frame" and "with_capture_timing frame timing = Inr timed \<Longrightarrow> frame_ok timed"
  using assms
  by (auto simp: frame_ok_def AudioFrame_new_def PcmFormat_new_iff frame_alignment_ok with_capture_timing_def
      split: if_splits sum.splits)

text \<open>What a step leaves alone.\<close>

definition quiet_step :: "SessionRecorder \<Rightarrow> SessionRecorder \<Rightarrow> bool" where
  "quiet_step r r' \<longleftrightarrow> same_recorder r r' \<and> sr_reads r' = sr_reads r \<and> sr_format r' = sr_format r \<and>
     sr_open_gap_at_ms r' = sr_open_gap_at_ms r \<and> sr_timed_samples r' = sr_timed_samples r \<and>
     sr_timed_gap_ms r' = sr_timed_gap_ms r \<and> sr_media_ms r' = sr_media_ms r"

lemma quiet_step_refl [simp]: "quiet_step r r"
  by (simp add: quiet_step_def)

lemma quiet_step_trans: "quiet_step a b \<Longrightarrow> quiet_step b c \<Longrightarrow> quiet_step a c"
  by (auto simp: quiet_step_def intro: same_recorder_trans)

lemma sim_budget:
  assumes "sr_timing_budget r = Some b"
  shows "sim ring w (r\<lparr>sr_timing_budget := Some b'\<rparr>) cs fmt last_at = sim ring w r cs fmt last_at"
  using assms by (simp add: sim_def disk_ok_def walk_view_def)

lemma sim_silent_chunk:
  assumes "sim ring w r cs fmt last_at" "append_chunk ring w (record_of c) r = (r', Inr u)"
    and "c = Rec_TimingPolicy \<or> c = Rec_AlignmentLimit \<or> (\<exists>m. c = Rec_CaptureMetadata m)" "chunk_ok c" "is_timed (sr_header r)"
  shows "sim ring w r' (cs @ [c]) fmt last_at \<and> quiet_step r r'"
proof -
  have k: "kind_ok (is_timed (sr_header r)) c" using assms(3,5) by auto
  note a = sim_append [OF assms(1,2,4) k]
  obtain x1 x2 x3 x4 x5 x6 where r': "r' = r\<lparr>sr_counter := x1, sr_disk := x2, sr_io := x3,
           sr_sealed := x4, sr_written_bytes := x5, sr_timed_validation := x6\<rparr>"
    using a(4) by auto
  have v: "walk_view fmt last_at r' = (walk_view fmt last_at r)\<lparr>wk_validation := wk_validation (walk_view fmt last_at r')\<rparr>"
    by (simp add: walk_view_def r')
  have e: "\<not> wk_ended (walk_view fmt last_at r)" using a(5) by (simp add: walk_view_def)
  have "walk_step (is_timed (sr_header r)) (walk_view fmt last_at r) c = Inr (Walk_On (walk_view fmt last_at r'))"
    unfolding walk_step_def using a(3) e assms(3) by (subst v) auto
  then show ?thesis
    using a(1,2) assms(1) by (simp add: sim_def r' quiet_step_def same_recorder_def)
qed

lemma admit_timing_sim:
  assumes "sim ring w r cs fmt last_at" "admit_timing ring w n r = (r', Inr b)"
  shows "\<exists>ds. sim ring w r' (cs @ ds) fmt last_at \<and> quiet_step r r'"
proof (cases "sr_timing_budget r")
  case None
  then show ?thesis using assms by (intro exI [of _ "[]"]) (auto simp: admit_timing_def)
next
  case (Some budget)
  then have timed: "is_timed (sr_header r)" using assms(1) by (auto simp: sim_def disk_ok_def)
  let ?r = "\<lambda>b. r\<lparr>sr_timing_budget := Some b\<rparr>"
  have q: "quiet_step r (?r b')" "sim ring w (?r b') cs fmt last_at" for b'
    using assms(1) Some by (simp_all add: quiet_step_def same_recorder_def sim_budget)
  consider "r' = r" | b' where "r' = ?r b'"
    | "append_chunk ring w (record_of Rec_AlignmentLimit) (?r (budget\<lparr>tb_exhausted := True\<rparr>)) = (r', Inr ())"
    using assms(2) Some
    by (fastforce simp: admit_timing_def try_then_ok split: if_splits option.splits)
  then show ?thesis
  proof cases
    case 1
    then show ?thesis using assms(1) by (intro exI [of _ "[]"]) simp
  next
    case 2
    then show ?thesis using q by (intro exI [of _ "[]"]) simp
  next
    case 3
    then show ?thesis
      using sim_silent_chunk [OF q(2) 3] timed quiet_step_trans [OF q(1)] by auto
  qed
qed

lemma plain_frame_sim:
  assumes "sim ring w r cs fmt last_at" "last_at \<le> at_ms" "at_ms \<le> w_clock w (sr_reads r)"
    and "sr_open_gap_at_ms r = None" "fmt = None \<or> fmt = Some (af_format frame)" "frame_ok frame"
    and "\<not> is_timed (sr_header r)" "append_chunk ring w (frame_record at_ms frame) r = (r1, Inr u)"
  shows "sim ring w (r1\<lparr>sr_media_ms := sat_add (sr_media_ms r1) (frame_duration_ms frame)\<rparr>)
    (cs @ [Rec_Frame at_ms (af_sequence frame) (pf_sample_rate_hz (af_format frame)) (pf_channels (af_format frame))
       (pf_sample_format (af_format frame)) (af_bytes frame)]) (Some (af_format frame)) at_ms
    \<and> same_recorder r r1 \<and> sr_format r1 = sr_format r"
proof -
  let ?f = "af_format frame"
  let ?c = "Rec_Frame at_ms (af_sequence frame) (pf_sample_rate_hz ?f) (pf_channels ?f) (pf_sample_format ?f) (af_bytes frame)"
  have c: "frame_record at_ms frame = record_of ?c" by (simp add: frame_record_def)
  have k: "chunk_ok ?c" "kind_ok (is_timed (sr_header r)) ?c" using assms(7) by simp_all
  note a = sim_append [OF assms(1) assms(8) [unfolded c] k]
  obtain x1 x2 x3 x4 x5 x6 where r1: "r1 = r\<lparr>sr_counter := x1, sr_disk := x2, sr_io := x3,
           sr_sealed := x4, sr_written_bytes := x5, sr_timed_validation := x6\<rparr>"
    using a(4) by auto
  let ?r = "r1\<lparr>sr_media_ms := sat_add (sr_media_ms r1) (frame_duration_ms frame)\<rparr>"
  have new: "PcmFormat_new (pf_sample_rate_hz ?f) (pf_channels ?f) (pf_sample_format ?f) = Inr ?f"
    using assms(6) by (simp add: PcmFormat_new_iff frame_ok_def)
  have view: "\<not> wk_ended (walk_view fmt last_at r)" "wk_gap (walk_view fmt last_at r) = None"
    "\<not> format_differs ((walk_view fmt last_at r)\<lparr>wk_validation := v\<rparr>) ?f" "wk_last_at_ms (walk_view fmt last_at r) = last_at" for v
    using a(5) assms(4,5) by (auto simp: walk_view_def format_differs_def)
  have next_view: "walk_view (Some ?f) at_ms ?r = (walk_view fmt last_at r)\<lparr>wk_validation := wk_validation (walk_view fmt last_at r1),
      wk_format := Some ?f, wk_timeline := timeline_frame ?f (length (af_bytes frame)) (wk_timeline (walk_view fmt last_at r)),
      wk_last_at_ms := at_ms\<rparr>"
    by (simp add: walk_view_def r1 timeline_frame_def frame_duration_ms_def)
  have "af_bytes frame \<noteq> []" "length (af_bytes frame) mod
      (unat (pf_channels ?f) * bytes_per_sample (pf_sample_format ?f)) = 0"
    using assms(6) by (auto simp: frame_ok_def)
  then have "walk_step (is_timed (sr_header r)) (walk_view fmt last_at r) ?c = Inr (Walk_On (walk_view (Some ?f) at_ms ?r))"
    unfolding walk_step_def next_view using a(3) view assms(2)
    by (simp add: new frame_alignment_ok walk_at_def)
  then show ?thesis
    using a(1,2) assms(3) by (simp add: sim_def r1 same_recorder_def)
qed

lemma timed_frame_chunk_sim:
  assumes "sim ring w r cs fmt last_at" "last_at \<le> at_ms" "at_ms \<le> w_clock w (sr_reads r)"
    and "sr_open_gap_at_ms r = None" "fmt = None \<or> fmt = Some format" "is_timed (sr_header r)"
    and "chunk_ok (Rec_TimedFrame at_ms format timing bytes)"
    and "append_chunk ring w (record_of (Rec_TimedFrame at_ms format timing bytes)) r = (r1, Inr u)"
    and "try_word (length bytes div (unat (pf_channels format) * bytes_per_sample (pf_sample_format format))) = Some samples"
    and "checked_add (sr_timed_samples r) samples = Some total_samples"
    and "exact_media_ms total_samples (pf_sample_rate_hz format) (sr_timed_gap_ms r) = Inr duration"
  shows "sim ring w (r1\<lparr>sr_timed_samples := total_samples, sr_media_ms := duration\<rparr>)
      (cs @ [Rec_TimedFrame at_ms format timing bytes]) (Some format) at_ms
    \<and> same_recorder r r1 \<and> sr_format r1 = sr_format r"
proof -
  let ?c = "Rec_TimedFrame at_ms format timing bytes"
  have k: "kind_ok (is_timed (sr_header r)) ?c" using assms(6) by simp
  note a = sim_append [OF assms(1) assms(8,7) k]
  obtain x1 x2 x3 x4 x5 x6 where r1: "r1 = r\<lparr>sr_counter := x1, sr_disk := x2, sr_io := x3,
           sr_sealed := x4, sr_written_bytes := x5, sr_timed_validation := x6\<rparr>"
    using a(4) by auto
  let ?r = "r1\<lparr>sr_timed_samples := total_samples, sr_media_ms := duration\<rparr>"
  let ?t = "(wk_timeline (walk_view fmt last_at r))\<lparr>mt_media_ms := duration, mt_timed_samples := total_samples,
      mt_format := Some format\<rparr>"
  have tl: "timeline_timed_frame format (length bytes) (wk_timeline (walk_view fmt last_at r)) = Inr ?t"
    using assms(9-11) by (simp add: timeline_timed_frame_def frame_alignment_ok walk_view_def)
  have view: "\<not> wk_ended (walk_view fmt last_at r)" "wk_gap (walk_view fmt last_at r) = None" "bytes \<noteq> []"
    "\<not> format_differs ((walk_view fmt last_at r)\<lparr>wk_validation := v\<rparr>) format" "wk_last_at_ms (walk_view fmt last_at r) = last_at" for v
    using a(5) assms(4,5,7) by (auto simp: walk_view_def format_differs_def)
  have next_view: "walk_view (Some format) at_ms ?r = (walk_view fmt last_at r)\<lparr>wk_validation := wk_validation (walk_view fmt last_at r1),
      wk_format := Some format, wk_timeline := ?t, wk_last_at_ms := at_ms\<rparr>"
    by (simp add: walk_view_def r1)
  have "walk_step (is_timed (sr_header r)) (walk_view fmt last_at r) ?c = Inr (Walk_On (walk_view (Some format) at_ms ?r))"
    unfolding walk_step_def next_view using a(3) view assms(2) tl by (simp add: walk_at_def)
  then show ?thesis
    using a(1,2) assms(3) by (simp add: sim_def r1 same_recorder_def)
qed

text \<open>The timing bytes of a timed frame are admitted or dropped before the chunk is written.\<close>

definition timed_written ::
  "Ring \<Rightarrow> World \<Rightarrow> AudioFrame \<Rightarrow> u64 \<Rightarrow> SessionRecorder \<Rightarrow> FrameProvenance option \<Rightarrow> SessionRecorder \<Rightarrow> bool" where
  "timed_written ring w frame at_ms r0 timing r' \<longleftrightarrow> (\<exists>r1 samples total_samples duration.
      append_chunk ring w (record_of (Rec_TimedFrame at_ms (af_format frame) timing (af_bytes frame))) r0 = (r1, Inr ())
      \<and> try_word (length (af_bytes frame) div
          (unat (pf_channels (af_format frame)) * bytes_per_sample (pf_sample_format (af_format frame)))) = Some samples
      \<and> checked_add (sr_timed_samples r0) samples = Some total_samples
      \<and> exact_media_ms total_samples (pf_sample_rate_hz (af_format frame)) (sr_timed_gap_ms r0) = Inr duration
      \<and> r' = r1\<lparr>sr_timed_samples := total_samples, sr_media_ms := duration\<rparr>)"

lemma record_timed_frame_ok:
  assumes "record_timed_frame ring w frame at_ms r = (r', Inr u)" "frame_ok frame"
  shows "\<exists>r0 timing. (r0 = r \<or> (\<exists>n b. admit_timing ring w n r = (r0, Inr b)))
      \<and> chunk_ok (Rec_TimedFrame at_ms (af_format frame) timing (af_bytes frame))
      \<and> timed_written ring w frame at_ms r0 timing r'"
proof -
  define body where "body r0 encoded =
     (case try_word (length (af_bytes frame) div
          (unat (pf_channels (af_format frame)) * bytes_per_sample (pf_sample_format (af_format frame)))) of
        None \<Rightarrow> (r0, Inl recovery_error)
      | Some samples \<Rightarrow>
          (case checked_add (sr_timed_samples r0) samples of
             None \<Rightarrow> (r0, Inl recovery_error)
           | Some n \<Rightarrow>
               (case exact_media_ms n (pf_sample_rate_hz (af_format frame)) (sr_timed_gap_ms r0) of
                  Inl e \<Rightarrow> (r0, Inl e)
                | Inr duration \<Rightarrow>
                    try_then (append_chunk ring w
                        (timed_frame_record at_ms (af_format frame) encoded (af_bytes frame)) r0)
                      (\<lambda>r _. (r\<lparr>sr_timed_samples := n, sr_media_ms := duration\<rparr>, Inr ())))))" for r0 encoded
  have fin: "timed_written ring w frame at_ms r0 timing r'"
    if "body r0 (map_option provenance_bytes timing) = (r', Inr u)" for r0 timing
    using that by (auto simp: timed_written_def body_def try_then_ok split: option.splits sum.splits)
  have ok: "chunk_ok (Rec_TimedFrame at_ms (af_format frame) None (af_bytes frame))"
    using assms(2) by (simp add: frame_ok_def)
  show ?thesis
  proof (cases "af_capture_timing frame")
    case None
    then have "body r (map_option provenance_bytes None) = (r', Inr u)"
      using assms(1) by (auto simp: record_timed_frame_def body_def try_then_ok frame_alignment_ok Let_def)
    then show ?thesis using fin ok by blast
  next
    case (Some t)
    then have v: "validate_pcm (tc_frame t) (af_format frame) (length (af_bytes frame)) = Inr ()"
      using assms(2) by (simp add: frame_ok_def)
    note e = validate_pcm_encodes(1) [OF v]
    have ok_t: "chunk_ok (Rec_TimedFrame at_ms (af_format frame) (Some (tc_frame t)) (af_bytes frame))"
      using assms(2) v by (simp add: frame_ok_def)
    obtain r0 b where r0: "admit_timing ring w CAPTURE_TIMING_BYTES r = (r0, Inr b)"
      and body: "body r0 (if b then Some (provenance_bytes (tc_frame t)) else None) = (r', Inr u)"
      using assms(1) Some e
      by (auto simp: record_timed_frame_def body_def try_then_ok frame_alignment_ok Let_def)
    show ?thesis
    proof (cases b)
      case True
      then have "body r0 (map_option provenance_bytes (Some (tc_frame t))) = (r', Inr u)" using body by simp
      then show ?thesis using fin r0 ok_t by blast
    next
      case False
      then have "body r0 (map_option provenance_bytes None) = (r', Inr u)" using body by simp
      then show ?thesis using fin r0 ok by blast
    qed
  qed
qed

lemma write_frame_sim:
  assumes "sim ring w r cs fmt last_at" "last_at \<le> at_ms" "at_ms \<le> w_clock w (sr_reads r)"
    and "sr_open_gap_at_ms r = None" "fmt = None \<or> fmt = Some (af_format frame)" "frame_ok frame"
    and "write_frame ring w frame at_ms r = (r', Inr u)"
  shows "\<exists>ds. sim ring w r' (cs @ ds) (Some (af_format frame)) at_ms \<and> same_recorder r r' \<and> sr_format r' = sr_format r"
proof (cases "sr_timing_budget r")
  case None
  then have nt: "\<not> is_timed (sr_header r)" using assms(1) by (simp add: sim_def disk_ok_def)
  obtain r1 where r1: "append_chunk ring w (frame_record at_ms frame) r = (r1, Inr ())"
    "r' = r1\<lparr>sr_media_ms := sat_add (sr_media_ms r1) (frame_duration_ms frame)\<rparr>"
    using assms(7) None by (auto simp: write_frame_def try_then_ok)
  show ?thesis
    using plain_frame_sim [OF assms(1-6) nt r1(1)] r1(2) by (auto simp: same_recorder_def)
next
  case (Some b)
  then have t: "is_timed (sr_header r)" using assms(1) by (auto simp: sim_def disk_ok_def)
  have "record_timed_frame ring w frame at_ms r = (r', Inr u)" using assms(7) Some by (simp add: write_frame_def)
  from record_timed_frame_ok [OF this assms(6)]
  obtain r0 timing where r0: "r0 = r \<or> (\<exists>n b. admit_timing ring w n r = (r0, Inr b))"
    and c: "chunk_ok (Rec_TimedFrame at_ms (af_format frame) timing (af_bytes frame))"
    and "timed_written ring w frame at_ms r0 timing r'" by blast
  then obtain r1 samples total_samples duration where
    r1: "append_chunk ring w (record_of (Rec_TimedFrame at_ms (af_format frame) timing (af_bytes frame))) r0 = (r1, Inr ())"
    and n: "try_word (length (af_bytes frame) div
          (unat (pf_channels (af_format frame)) * bytes_per_sample (pf_sample_format (af_format frame)))) = Some samples"
      "checked_add (sr_timed_samples r0) samples = Some total_samples"
      "exact_media_ms total_samples (pf_sample_rate_hz (af_format frame)) (sr_timed_gap_ms r0) = Inr duration"
    and r': "r' = r1\<lparr>sr_timed_samples := total_samples, sr_media_ms := duration\<rparr>"
    unfolding timed_written_def by blast
  obtain ds where s0: "sim ring w r0 (cs @ ds) fmt last_at" and q: "quiet_step r r0"
  proof (cases "r0 = r")
    case True
    then show ?thesis using that [of "[]"] assms(1) by simp
  qed (use r0 admit_timing_sim [OF assms(1)] that in blast)
  have e: "at_ms \<le> w_clock w (sr_reads r0)" "sr_open_gap_at_ms r0 = None" "is_timed (sr_header r0)"
    using assms(3,4) t q by (simp_all add: quiet_step_def same_recorder_def)
  have "same_recorder r r1 \<and> sr_format r1 = sr_format r" and
    "sim ring w r' ((cs @ ds) @ [Rec_TimedFrame at_ms (af_format frame) timing (af_bytes frame)]) (Some (af_format frame)) at_ms"
    using timed_frame_chunk_sim [OF s0 assms(2) e(1,2) assms(5) e(3) c r1 n] q
    by (auto simp: quiet_step_def r' intro: same_recorder_trans)
  then show ?thesis by (auto simp: r' same_recorder_def)
qed

section \<open>Operations\<close>

text \<open>Some walk of the chunks on disk reaches the recorder's state.\<close>

definition tracked :: "Ring \<Rightarrow> World \<Rightarrow> SessionRecorder \<Rightarrow> bool" where
  "tracked ring w r \<longleftrightarrow> (\<exists>cs last_at. sim ring w r cs (sr_format r) last_at)"

lemma record_frame_tracked:
  assumes "clock_ok w" "tracked ring w r" "frame_ok frame" "record_frame ring w frame r = (r', Inr u)"
  shows "tracked ring w r' \<and> same_recorder r r'"
proof -
  obtain cs last_at where s: "sim ring w r cs (sr_format r) last_at" using assms(2) by (auto simp: tracked_def)
  let ?r = "r\<lparr>sr_format := Some (af_format frame)\<rparr>" and ?at = "elapsed_ms w r"
  have f: "sr_format r = None \<or> sr_format r = Some (af_format frame)"
    using assms(4) by (auto simp: record_frame_def Let_def split: if_splits)
  have at: "elapsed_ms w ?r = ?at" by (simp add: elapsed_ms_def)
  obtain r1 r2 where r1: "end_gap ring w (sr_format r \<noteq> None) ?at (tick ?r) = (r1, Inr ())"
    and r2: "write_frame ring w frame ?at r1 = (r2, Inr ())"
    and r': "enforce_limits ring w (Some frame) r2 = (r', Inr u)"
    using assms(4) f by (auto simp: record_frame_def Let_def try_then_ok at split: if_splits)
  have t: "sim ring w (tick ?r) cs (sr_format r) last_at" using sim_tick [OF assms(1)] s by simp
  have c: "last_at \<le> ?at" "?at \<le> w_clock w (sr_reads (tick ?r))"
    using s assms(1) by (auto simp: sim_def elapsed_ms_def tick_def clock_ok_def)
  from end_gap_sim [OF t c r1] obtain ds last1 where
    1: "sim ring w r1 (cs @ ds) (sr_format r) last1" "last1 \<le> ?at" "sr_open_gap_at_ms r1 = None"
      "same_recorder (tick ?r) r1" "sr_reads r1 = sr_reads (tick ?r)" "sr_format r1 = sr_format (tick ?r)"
    by blast
  have c1: "?at \<le> w_clock w (sr_reads r1)" using c(2) 1(5) by simp
  from write_frame_sim [OF 1(1,2) c1 1(3) f assms(3) r2] obtain es where
    2: "sim ring w r2 ((cs @ ds) @ es) (Some (af_format frame)) ?at" "same_recorder r1 r2" "sr_format r2 = sr_format r1"
    by blast
  from enforce_limits_sim [OF assms(1) 2(1) r'] obtain gs last3 where
    3: "sim ring w r' (((cs @ ds) @ es) @ gs) (Some (af_format frame)) last3" "same_recorder r2 r'"
      "sr_format r' = sr_format r2"
    by blast
  have "sr_format r' = Some (af_format frame)" using 1(6) 2(3) 3(3) by (simp add: tick_def)
  moreover have "same_recorder r (tick ?r)" by (simp add: same_recorder_def tick_def)
  ultimately show ?thesis
    using 1(4) 2(2) 3(1,2) by (metis tracked_def same_recorder_trans)
qed

lemma discontinuity_reason_ok:
  "valid_str CAPTURE_DISCONTINUITY_REASON \<and> str_len CAPTURE_DISCONTINUITY_REASON < 256
   \<and> CAPTURE_DISCONTINUITY_REASON \<noteq> RECORDING_FAILURE_REASON"
  by (simp add: CAPTURE_DISCONTINUITY_REASON_def RECORDING_FAILURE_REASON_def str_of_def valid_str_def scalar_def
      len_utf8_def)

lemma gap_started_sim:
  assumes "sim ring w r cs fmt last_at" "last_at \<le> at_ms" "at_ms \<le> w_clock w (sr_reads r)"
    and "sr_open_gap_at_ms r = None"
    and "append_chunk ring w (gap_started_record at_ms CAPTURE_DISCONTINUITY_REASON) r = (r1, Inr u)"
  shows "sim ring w (r1\<lparr>sr_open_gap_at_ms := Some at_ms, sr_gaps := open_gap (sr_media_ms r1) (sr_gaps r1)\<rparr>)
      (cs @ [Rec_GapStarted at_ms CAPTURE_DISCONTINUITY_REASON]) fmt at_ms
    \<and> same_recorder r r1 \<and> sr_format r1 = sr_format r"
proof -
  let ?c = "Rec_GapStarted at_ms CAPTURE_DISCONTINUITY_REASON"
  have k: "chunk_ok ?c" "kind_ok (is_timed (sr_header r)) ?c" using discontinuity_reason_ok by simp_all
  have c: "gap_started_record at_ms CAPTURE_DISCONTINUITY_REASON = record_of ?c" by simp
  note a = sim_append [OF assms(1) assms(5) [unfolded c] k]
  obtain x1 x2 x3 x4 x5 x6 where r1: "r1 = r\<lparr>sr_counter := x1, sr_disk := x2, sr_io := x3,
           sr_sealed := x4, sr_written_bytes := x5, sr_timed_validation := x6\<rparr>"
    using a(4) by auto
  let ?r = "r1\<lparr>sr_open_gap_at_ms := Some at_ms, sr_gaps := open_gap (sr_media_ms r1) (sr_gaps r1)\<rparr>"
  have view: "\<not> wk_ended (walk_view fmt last_at r)" "wk_gap (walk_view fmt last_at r) = None"
    "wk_last_at_ms (walk_view fmt last_at r) = last_at"
    using a(5) assms(4) by (simp_all add: walk_view_def)
  have next_view: "walk_view fmt at_ms ?r = (walk_view fmt last_at r)\<lparr>wk_validation := wk_validation (walk_view fmt last_at r1),
      wk_gap := Some at_ms, wk_timeline := timeline_gap_started at_ms (wk_timeline (walk_view fmt last_at r)),
      wk_last_at_ms := at_ms\<rparr>"
    by (simp add: walk_view_def r1 timeline_gap_started_def)
  have "walk_step (is_timed (sr_header r)) (walk_view fmt last_at r) ?c = Inr (Walk_On (walk_view fmt at_ms ?r))"
    unfolding walk_step_def next_view using a(3) view assms(2) discontinuity_reason_ok by (simp add: walk_at_def)
  then show ?thesis
    using a(1,2) assms(3) by (simp add: sim_def r1 same_recorder_def)
qed

lemma record_capture_gap_tracked:
  assumes "clock_ok w" "tracked ring w r" "record_capture_gap ring w r = (r', Inr u)"
  shows "tracked ring w r' \<and> same_recorder r r'"
proof (cases "sr_open_gap_at_ms r")
  case None
  obtain cs last_at where s: "sim ring w r cs (sr_format r) last_at" using assms(2) by (auto simp: tracked_def)
  let ?at = "elapsed_ms w r"
  obtain r1 where r1: "append_chunk ring w (gap_started_record ?at CAPTURE_DISCONTINUITY_REASON) (tick r) = (r1, Inr ())"
    and r': "enforce_limits ring w None
        (r1\<lparr>sr_open_gap_at_ms := Some ?at, sr_gaps := open_gap (sr_media_ms r1) (sr_gaps r1)\<rparr>) = (r', Inr u)"
    using assms(3) None by (auto simp: record_capture_gap_def Let_def try_then_ok)
  have t: "sim ring w (tick r) cs (sr_format r) last_at" using sim_tick [OF assms(1) s] .
  have c: "last_at \<le> ?at" "?at \<le> w_clock w (sr_reads (tick r))" "sr_open_gap_at_ms (tick r) = None"
    using s assms(1) None by (auto simp: sim_def elapsed_ms_def tick_def clock_ok_def)
  note g = gap_started_sim [OF t c r1]
  from enforce_limits_sim [OF assms(1) conjunct1 [OF g] r']
  show ?thesis using g by (auto simp: tracked_def same_recorder_def tick_def)
next
  case (Some x)
  then show ?thesis using assms by (auto simp: record_capture_gap_def)
qed

lemma record_capture_metadata_tracked:
  assumes "clock_ok w" "tracked ring w r" "metadata_text m" "record_capture_metadata ring w m r = (r', Inr u)"
  shows "tracked ring w r' \<and> same_recorder r r'"
proof -
  obtain cs last_at where s: "sim ring w r cs (sr_format r) last_at" using assms(2) by (auto simp: tracked_def)
  obtain chunk b r1 r2 where chunk: "metadata_record m = Inr chunk" and budget: "sr_timing_budget r \<noteq> None"
    and r1: "admit_timing ring w (length chunk - 1) r = (r1, Inr b)"
    and r2: "(if b then append_chunk ring w chunk r1 else (r1, Inr ())) = (r2, Inr ())"
    and r': "enforce_limits ring w None r2 = (r', Inr u)"
    using assms(4) by (auto simp: record_capture_metadata_def try_then_ok split: if_splits sum.splits) 
  from admit_timing_sim [OF s r1] obtain ds where
    1: "sim ring w r1 (cs @ ds) (sr_format r) last_at" "quiet_step r r1" by blast
  have "is_timed (sr_header r1)"
    using s budget 1(2) by (auto simp: sim_def disk_ok_def quiet_step_def same_recorder_def)
  moreover have "chunk_ok (Rec_CaptureMetadata m)" "record_of (Rec_CaptureMetadata m) = chunk"
    using chunk assms(3) by simp_all
  ultimately have "\<exists>es. sim ring w r2 ((cs @ ds) @ es) (sr_format r) last_at \<and> quiet_step r1 r2"
    using sim_silent_chunk [OF 1(1), of "Rec_CaptureMetadata m" r2] r2 1(1)
    by (cases b) (auto intro: exI [of _ "[]"])
  then obtain es where 2: "sim ring w r2 ((cs @ ds) @ es) (sr_format r) last_at" "quiet_step r1 r2" by blast
  from enforce_limits_sim [OF assms(1) 2(1) r'] show ?thesis
    using 1(2) 2(2) by (auto simp: tracked_def quiet_step_def same_recorder_def)
qed

lemma confirm_capture_boundary_tracked:
  assumes "tracked ring w r" "confirm_capture_boundary w b r = (r', Inr u)"
  shows "tracked ring w r' \<and> same_recorder r r'"
proof -
  obtain io where "r' = r\<lparr>sr_disk := sr_disk r, sr_io := io, sr_capability_poisoned := False\<rparr>"
    using assms(2)
    by (auto simp: confirm_capture_boundary_def sink_op_def Let_def split: option.splits if_splits)
  then show ?thesis
    using assms(1) by (auto simp: tracked_def sim_def disk_ok_def walk_view_def same_recorder_def)
qed

section \<open>Starting\<close>

lemma header_facts:
  assumes "length salt = 8" "length binding = 16"
  shows "length (make_header timed session salt binding) = 48"
    and "read_header (make_header timed session salt binding) = Inr session"
    and "header_binding (make_header timed session salt binding) = binding"
    and "is_timed (make_header timed session salt binding) = timed"
  using assms
  by (simp_all add: make_header_def read_header_def header_binding_def is_timed_def MAGIC_def TIMED_MAGIC_def
      SUPERSEDED_MAGIC_def ascii_bytes_def AEAD_AES_256_GCM_def u64_at_def)

lemma start_format_tracked:
  assumes "start_format ring w env (Some (binding, salt)) created settings session timed = Inr r"
    and "length salt = 8" "length binding = 16"
  shows "\<exists>key. from_environment ring env (rs_key_env settings) = Inr key \<and> sr_key r = key
     \<and> sr_session_id r = session \<and> sr_handle r = lowercase_hex binding
     \<and> sr_path r = recording_path (rs_directory settings) (lowercase_hex binding)
     \<and> sr_header r = make_header timed session salt binding
     \<and> sim ring w r [] (sr_format r) 0"
proof -
  obtain key where key: "from_environment ring env (rs_key_env settings) = Inr key"
    using assms(1) by (auto simp: start_format_def split: sum.splits)
  obtain d io ok where s: "sink_ops w [make_header timed session salt binding, []] ([], 0) = ((d, io), ok)"
    by (metis surj_pair)
  have ok: "ok" "created" using assms(1) key s by (auto simp: start_format_def Let_def split: if_splits)
  then have d: "d = make_header timed session salt binding" 
    using s sink_ops_ok [of w "[make_header timed session salt binding, []]" "[]" 0 d io] by simp
  note h = header_facts [OF assms(2,3), of timed session]
  show ?thesis
    using assms(1) key s ok d h
    by (auto simp: start_format_def Let_def sim_def disk_ok_def walk_view_def WalkState_new_def
        MediaTimeline_default_def intro!: sealed_stream.Empty)
qed

definition start_any where
  "start_any ring w env random created settings session timed =
     (if timed then start_timed ring w env random created settings session
      else start ring w env random created settings session)"

lemma start_any_tracked:
  assumes "start_any ring w env (Some (binding, salt)) created settings session timed = Inr r"
    and "length salt = 8" "length binding = 16"
  shows "\<exists>key. from_environment ring env (rs_key_env settings) = Inr key \<and> sr_key r = key
     \<and> sr_session_id r = session \<and> sr_handle r = lowercase_hex binding
     \<and> sr_path r = recording_path (rs_directory settings) (lowercase_hex binding)
     \<and> sr_header r = make_header timed session salt binding \<and> tracked ring w r"
proof (cases timed)
  case False
  then show ?thesis
    using start_format_tracked [OF _ assms(2,3), of ring w env created settings session timed r] assms(1)
    by (auto simp: start_any_def start_def tracked_def)
next
  case True
  then obtain r0 where r0: "start_format ring w env (Some (binding, salt)) created settings session timed = Inr r0"
    and r: "append_chunk ring w (record_of Rec_TimingPolicy) r0 = (r, Inr ())"
    using assms(1) by (auto simp: start_any_def start_timed_def split: sum.splits prod.splits)
  note f = start_format_tracked [OF r0 assms(2,3)]
  then have "is_timed (sr_header r0)" "sim ring w r0 [] (sr_format r0) 0"
    using True header_facts(4) [OF assms(2,3)] by auto
  then have "sim ring w r ([] @ [Rec_TimingPolicy]) (sr_format r0) 0 \<and> quiet_step r0 r"
    using sim_silent_chunk [OF _ r, of "[]" "sr_format r0" 0] by simp
  then show ?thesis using f by (auto simp: tracked_def quiet_step_def same_recorder_def)
qed

section \<open>Runs\<close>

datatype recorder_op =
    Op_Frame AudioFrame | Op_Gap | Op_Metadata CaptureMetadata | Op_Boundary CaptureFinishBoundary | Op_Notices

text \<open>Frames come from the adapters' constructors and identifiers are text.\<close>

fun op_ok :: "recorder_op \<Rightarrow> bool" where
  "op_ok (Op_Frame frame) = frame_ok frame"
| "op_ok (Op_Metadata m) = metadata_text m"
| "op_ok _ = True"

fun recorder_step :: "Ring \<Rightarrow> World \<Rightarrow> recorder_op \<Rightarrow> SessionRecorder \<Rightarrow> SessionRecorder \<times> unit result" where
  "recorder_step ring w (Op_Frame frame) r = record_frame ring w frame r"
| "recorder_step ring w Op_Gap r = record_capture_gap ring w r"
| "recorder_step ring w (Op_Metadata m) r = record_capture_metadata ring w m r"
| "recorder_step ring w (Op_Boundary b) r = confirm_capture_boundary w b r"
| "recorder_step ring w Op_Notices r = (fst (take_limit_notices r), Inr ())"

text \<open>A run of operations, up to the first that fails.\<close>

primrec recorder_run :: "Ring \<Rightarrow> World \<Rightarrow> recorder_op list \<Rightarrow> SessionRecorder \<Rightarrow> SessionRecorder \<times> unit result" where
  "recorder_run ring w [] r = (r, Inr ())"
| "recorder_run ring w (op # ops) r =
     try_then (recorder_step ring w op r) (\<lambda>r _. recorder_run ring w ops r)"

lemma recorder_step_tracked:
  assumes "clock_ok w" "tracked ring w r" "op_ok op" "recorder_step ring w op r = (r', Inr u)"
  shows "tracked ring w r' \<and> same_recorder r r'"
proof (cases op)
  case Op_Notices
  obtain cs last_at where "sim ring w r cs (sr_format r) last_at" using assms(2) by (auto simp: tracked_def)
  then have "sim ring w (r\<lparr>sr_limit_notices := []\<rparr>) cs (sr_format (r\<lparr>sr_limit_notices := []\<rparr>)) last_at" by simp
  then have "tracked ring w (r\<lparr>sr_limit_notices := []\<rparr>)" unfolding tracked_def by blast
  moreover have "r' = r\<lparr>sr_limit_notices := []\<rparr>"
    using assms(4) by (simp add: Op_Notices take_limit_notices_def)
  ultimately show ?thesis by (simp add: same_recorder_def)
next
  case (Op_Frame frame)
  then show ?thesis using assms record_frame_tracked [OF assms(1,2), of frame r' u] by simp
next
  case Op_Gap
  then show ?thesis using assms record_capture_gap_tracked [OF assms(1,2), of r' u] by simp
next
  case (Op_Metadata m)
  then show ?thesis using assms record_capture_metadata_tracked [OF assms(1,2), of m r' u] by simp
next
  case (Op_Boundary b)
  then show ?thesis using assms confirm_capture_boundary_tracked [OF assms(2), of b r' u] by simp
qed

lemma recorder_run_tracked:
  assumes "clock_ok w" "tracked ring w r" "list_all op_ok ops" "recorder_run ring w ops r = (r', Inr u)"
  shows "tracked ring w r' \<and> same_recorder r r'"
  using assms(2-4)
proof (induction ops arbitrary: r)
  case (Cons op ops)
  from Cons.prems(3) obtain r1 where r1: "recorder_step ring w op r = (r1, Inr ())" "recorder_run ring w ops r1 = (r', Inr u)"
    by (auto simp: try_then_ok)
  have "tracked ring w r1 \<and> same_recorder r r1"
    using recorder_step_tracked [OF assms(1) Cons.prems(1) _ r1(1)] Cons.prems(2) by simp
  then show ?case using Cons.IH [OF _ _ r1(2)] Cons.prems(2) same_recorder_trans by auto
qed simp

section \<open>Finalizing\<close>

lemma flush_recording_ok:
  assumes "flush_recording w r = (r', Inr u)"
  shows "\<exists>io. r' = r\<lparr>sr_io := io\<rparr>"
proof (cases "sr_file r")
  case True
  obtain d io ok where s: "sink_ops w [[], []] (sr_disk r, sr_io r) = ((d, io), ok)" by (metis surj_pair)
  then have "ok" "d = sr_disk r"
    using assms True sink_ops_ok [of w "[[], []]" "sr_disk r" "sr_io r" d io]
    by (auto simp: flush_recording_def split: if_splits)
  then show ?thesis using assms True s by (auto simp: flush_recording_def)
next
  case False
  then have "r' = r\<lparr>sr_io := sr_io r\<rparr>" using assms by (simp add: flush_recording_def)
  then show ?thesis by blast
qed

text \<open>A closed recording: the walk of its chunks ends, in the recorder's state.\<close>

lemma close_recording_sim:
  assumes "clock_ok w" "tracked ring w r" "close_recording ring w r = (r', Inr u)"
  shows "\<exists>cs last_at. sim ring w r' cs (sr_format r') last_at \<and> sr_ended r' \<and> same_recorder r r' \<and> sr_format r' = sr_format r"
proof -
  obtain cs last_at where s: "sim ring w r cs (sr_format r) last_at" using assms(2) by (auto simp: tracked_def)
  show ?thesis
  proof (cases "sr_ended r")
    case True
    then show ?thesis using assms(3) s by (auto simp: close_recording_def)
  next
    case False
    have "\<not> is_incomplete r" using s by (simp add: sim_def disk_ok_def is_incomplete_def)
    then obtain r1 where r1: "append_chunk ring w (ended_record (elapsed_ms w r)) (tick r) = (r1, Inr ())"
      and r': "r' = r1\<lparr>sr_ended := True\<rparr>"
      using assms(3) False by (auto simp: close_recording_def try_then_ok)
    have t: "sim ring w (tick r) cs (sr_format r) last_at" using sim_tick [OF assms(1) s] .
    have c: "last_at \<le> elapsed_ms w r" "elapsed_ms w r \<le> w_clock w (sr_reads (tick r))"
      using s assms(1) by (auto simp: sim_def elapsed_ms_def tick_def clock_ok_def)
    have "same_recorder r r1 \<and> sr_format r1 = sr_format r"
      using sim_append(4) [OF t, of "Rec_Ended (elapsed_ms w r)" r1] r1 by (auto simp: same_recorder_def tick_def)
    then show ?thesis using sim_ended [OF t c r1] r' by (auto simp: same_recorder_def)
  qed
qed

lemma recorder_summary_walk:
  "recorder_summary r sha = timeline_summary (wk_timeline (walk_view (sr_format r) last_at r)) (sr_path r) (sr_handle r) sha (rk_key_id (sr_key r))"
  by (simp add: recorder_summary_def timeline_summary_def walk_view_def timeline_duration_def media_duration_ms_def)

text \<open>A live finalize with a capability, as the readers see it.\<close>

lemma finalize_with_capability_sim:
  assumes "clock_ok w" "tracked ring w r" "finalize_with_capability ring w r = (r', Inr (summary, capability))"
    and "\<And>d. w_reread w d = Some d"
  shows "\<exists>cs last_at r1. sim ring w r1 cs (sr_format r1) last_at \<and> sr_ended r1 \<and> same_recorder r r1 \<and>
     sr_disk r' = sr_disk r1 \<and> length (sr_disk r1) \<le> MAX_FINALIZED_RECORDING_BYTES \<and>
     summary = recorder_summary r1 (sha256_hex ring (sr_disk r1)) \<and>
     authorize ring (sr_key r1) \<lparr>fc_source_session_id = sr_session_id r1, fc_recording_handle = sr_handle r1,
       fc_sha256 = sha256_hex ring (sr_disk r1), fc_key_id = rk_key_id (sr_key r1), fc_authorization = []\<rparr> = Inr capability"
proof -
  have "\<not> (sr_recording_failed r \<or> sr_capability_poisoned r)"
    using assms(2) by (auto simp: tracked_def sim_def disk_ok_def)
  then have "try_then (finalize_using ring w True r) (\<lambda>r summary.
       if su_sha256 summary \<noteq> sha256_hex ring (sr_sealed r) then (r, Inl recovery_error)
       else (case authorize ring (sr_key r)
                    \<lparr>fc_source_session_id = sr_session_id r, fc_recording_handle = su_recording_handle summary,
                     fc_sha256 = su_sha256 summary, fc_key_id = su_key_id summary, fc_authorization = []\<rparr> of
               Inl e \<Rightarrow> (r, Inl e) | Inr capability \<Rightarrow> (r, Inr (summary, capability)))) = (r', Inr (summary, capability))"
    using assms(3) unfolding finalize_with_capability_def by (cases "open_recovery_source w (sr_disk r)") simp_all
  then obtain r2 s where f: "finalize_using ring w True r = (r2, Inr s)"
    and k: "(if su_sha256 s \<noteq> sha256_hex ring (sr_sealed r2) then (r2, Inl recovery_error)
       else (case authorize ring (sr_key r2)
                    \<lparr>fc_source_session_id = sr_session_id r2, fc_recording_handle = su_recording_handle s,
                     fc_sha256 = su_sha256 s, fc_key_id = su_key_id s, fc_authorization = []\<rparr> of
               Inl e \<Rightarrow> (r2, Inl e) | Inr capability \<Rightarrow> (r2, Inr (s, capability)))) = (r', Inr (summary, capability))"
    unfolding try_then_ok by (elim exE conjE)
  have "s = summary" and r2: "r' = r2" and au: "authorize ring (sr_key r2) \<lparr>fc_source_session_id = sr_session_id r2,
       fc_recording_handle = su_recording_handle s, fc_sha256 = su_sha256 s,
       fc_key_id = su_key_id s, fc_authorization = []\<rparr> = Inr capability"
    using k by (simp_all split: if_split_asm sum.split_asm)
  note f = f [unfolded \<open>s = summary\<close>] and au = au [unfolded \<open>s = summary\<close>]
  have "sr_summary r = None" using assms(2) by (auto simp: tracked_def sim_def disk_ok_def)
  then have "try_then (close_recording ring w r) (\<lambda>r _. try_then (flush_recording w r)
       (\<lambda>r _. (case recovery_digest ring w (sr_disk r) of
                 Inl e \<Rightarrow> (r, Inl e)
               | Inr sha256 \<Rightarrow>
                   (r\<lparr>sr_file := False, sr_summary := Some (recorder_summary r sha256)\<rparr>, Inr (recorder_summary r sha256)))))
      = (r2, Inr summary)"
    using f unfolding finalize_using_def Let_def by simp
  then obtain r1 r3 where r1: "close_recording ring w r = (r1, Inr ())" and r3: "flush_recording w r1 = (r3, Inr ())"
    and d: "(case recovery_digest ring w (sr_disk r3) of
                 Inl e \<Rightarrow> (r3, Inl e)
               | Inr sha256 \<Rightarrow>
                   (r3\<lparr>sr_file := False, sr_summary := Some (recorder_summary r3 sha256)\<rparr>, Inr (recorder_summary r3 sha256)))
      = (r2, Inr summary)"
    unfolding try_then_ok by (elim exE conjE) simp
  then obtain sha where sha: "recovery_digest ring w (sr_disk r3) = Inr sha" and summary: "summary = recorder_summary r3 sha"
    and r2_eq: "r2 = r3\<lparr>sr_file := False, sr_summary := Some summary\<rparr>"
    by (cases "recovery_digest ring w (sr_disk r3)") auto
  obtain io where io: "r3 = r1\<lparr>sr_io := io\<rparr>" using flush_recording_ok [OF r3] by blast
  from close_recording_sim [OF assms(1,2) r1] obtain cs last_at where
    s: "sim ring w r1 cs (sr_format r1) last_at" "sr_ended r1" "same_recorder r r1" by blast
  have "sim ring w r3 cs (sr_format r3) last_at" "sr_ended r3" "same_recorder r r3"
    using s by (simp_all add: io sim_def disk_ok_def walk_view_def same_recorder_def)
  moreover have "sha = sha256_hex ring (sr_disk r3)" "length (sr_disk r3) \<le> MAX_FINALIZED_RECORDING_BYTES"
    using sha assms(4) by (auto simp: recovery_digest_def open_recovery_source_def split: if_splits)
  moreover have "authorize ring (sr_key r3) \<lparr>fc_source_session_id = sr_session_id r3, fc_recording_handle = sr_handle r3,
       fc_sha256 = sha, fc_key_id = rk_key_id (sr_key r3), fc_authorization = []\<rparr> = Inr capability"
    using au by (simp add: r2_eq summary recorder_summary_def)
  moreover have "sr_disk r' = sr_disk r3" by (simp add: r2 r2_eq)
  ultimately show ?thesis using summary by blast
qed

section \<open>Adoption and recovery\<close>

definition snapshot_of :: "RecordingKey \<Rightarrow> SessionRecorder \<Rightarrow> RecordedChunks" where
  "snapshot_of key r =
     \<lparr>rc_remaining = drop 48 (sr_disk r), rc_key = key, rc_header = sr_header r, rc_session_id = sr_session_id r,
      rc_counter = 0, rc_truncated = False, rc_finished = False, rc_strict = True\<rparr>"

lemma snapshot_of_recorder:
  assumes "sim ring w r cs fmt last_at" "length (sr_disk r) \<le> MAX_FINALIZED_RECORDING_BYTES"
    and "read_header (sr_header r) = Inr (sr_session_id r)"
  shows "snapshot_recording ring True False key (File_Bytes (sr_disk r))
     = Inr (snapshot_of key r, sr_disk r, sha256_hex ring (sr_disk r))"
proof -
  obtain bs where d: "sr_disk r = sr_header r @ bs" "length (sr_header r) = 48"
    using assms(1) by (auto simp: sim_def disk_ok_def)
  then show ?thesis
    using assms(2,3) by (simp add: snapshot_recording_def snapshot_of_def HEADER_LEN_def)
qed

lemma walk_of_recorder:
  assumes "sim ring w r cs fmt last_at" "aead_ok ring"
  shows "walk_completed_chunks ring False (snapshot_of (sr_key r) r) =
      ((snapshot_of (sr_key r) r)\<lparr>rc_remaining := [], rc_counter := sr_counter r, rc_finished := True\<rparr>,
       Inr \<lparr>cw_ended = sr_ended r, cw_incomplete = False, cw_timeline = wk_timeline (walk_view fmt last_at r)\<rparr>)"
proof -
  obtain bs where d: "sr_disk r = sr_header r @ bs" "length (sr_header r) = 48"
    "sealed_stream ring (rk_key (sr_key r)) (sr_header r) 0 cs bs (sr_counter r)"
    using assms(1) by (auto simp: sim_def disk_ok_def)
  have "wk_ended (walk_view fmt last_at r) = sr_ended r" by (simp add: walk_view_def)
  then show ?thesis
    using walk_chunks_stream [of ring "snapshot_of (sr_key r) r" cs bs "sr_counter r" WalkState_new "walk_view fmt last_at r"]
      d assms by (simp add: snapshot_of_def walk_completed_chunks_def sim_def)
qed

lemma rewind_of_recorder:
  assumes "sha = sha256_hex ring (sr_disk r)"
  shows "rewind_verified_snapshot ring False (sr_disk r) sha
      ((snapshot_of key r)\<lparr>rc_remaining := [], rc_counter := m, rc_finished := True\<rparr>) = Inr (snapshot_of key r)"
  using assms by (simp add: rewind_verified_snapshot_def snapshot_of_def HEADER_LEN_def)

text \<open>
  A recording that was finalized with a capability: the chunks its file holds, and what adoption and
  the recovery preflight make of that file.
\<close>

lemma finalized_recorder:
  assumes "start_any ring w env (Some (binding, salt)) created settings session timed = Inr r0"
    and "length salt = 8" "length binding = 16"
    and "recorder_run ring w ops r0 = (r, Inr ())" "list_all op_ok ops"
    and "finalize_with_capability ring w r = (r', Inr (summary, capability))"
    and "clock_ok w" "\<And>d. w_reread w d = Some d" "aead_ok ring" "\<And>k m. length (ring_hmac ring k m) = 32"
  shows "\<exists>cs last_at r1. sim ring w r1 cs (sr_format r1) last_at \<and> sr_disk r' = sr_disk r1 \<and>
    from_environment ring env (rs_key_env settings) = Inr (sr_key r1) \<and>
    sr_header r1 = make_header timed session salt binding \<and>
    adopt_closed_recording ring env True False settings session (sr_handle r0) (File_Bytes (sr_disk r'))
      = Inr (summary, capability) \<and>
    preflight_finalized_recording ring env True False settings capability (File_Bytes (sr_disk r'))
      = Inr (snapshot_of (sr_key r1) r1) \<and>
    su_duration_ms summary = media_duration_ms r1"
proof -
  obtain key where key: "from_environment ring env (rs_key_env settings) = Inr key" "sr_key r0 = key"
    and r0: "sr_session_id r0 = session" "sr_handle r0 = lowercase_hex binding"
      "sr_path r0 = recording_path (rs_directory settings) (lowercase_hex binding)"
      "sr_header r0 = make_header timed session salt binding" "tracked ring w r0"
    using start_any_tracked [OF assms(1-3)] by blast
  have run: "tracked ring w r" "same_recorder r0 r"
    using recorder_run_tracked [OF assms(7) r0(5) assms(5,4)] by simp_all
  obtain cs last_at r1 where s: "sim ring w r1 cs (sr_format r1) last_at" "sr_ended r1" "same_recorder r r1"
    and disk: "sr_disk r' = sr_disk r1" "length (sr_disk r1) \<le> MAX_FINALIZED_RECORDING_BYTES"
    and summary: "summary = recorder_summary r1 (sha256_hex ring (sr_disk r1))"
    and au: "authorize ring (sr_key r1) \<lparr>fc_source_session_id = sr_session_id r1, fc_recording_handle = sr_handle r1,
       fc_sha256 = sha256_hex ring (sr_disk r1), fc_key_id = rk_key_id (sr_key r1), fc_authorization = []\<rparr> = Inr capability"
    using finalize_with_capability_sim [OF assms(7) run(1) assms(6,8)] by blast
  have same: "sr_session_id r1 = session" "sr_handle r1 = lowercase_hex binding" "sr_key r1 = key"
    "sr_path r1 = recording_path (rs_directory settings) (lowercase_hex binding)"
    "sr_header r1 = make_header timed session salt binding"
    using same_recorder_trans [OF run(2) s(3)] r0 key(2) by (auto simp: same_recorder_def)
  note h = header_facts [OF assms(2,3), of timed session]
  have handle: "decode_handle (lowercase_hex binding) = Some binding"
    using decode_handle_lowercase_hex [OF assms(3)] .
  have snap: "snapshot_recording ring True False key (File_Bytes (sr_disk r1))
      = Inr (snapshot_of key r1, sr_disk r1, sha256_hex ring (sr_disk r1))"
    using snapshot_of_recorder [OF s(1) disk(2)] h(2) same by simp
  have walk: "walk_completed_chunks ring False (snapshot_of key r1) =
      ((snapshot_of key r1)\<lparr>rc_remaining := [], rc_counter := sr_counter r1, rc_finished := True\<rparr>,
       Inr \<lparr>cw_ended = True, cw_incomplete = False, cw_timeline = wk_timeline (walk_view (sr_format r1) last_at r1)\<rparr>)"
    using walk_of_recorder [OF s(1) assms(9)] s(2) same(3) by simp
  have trunc: "\<not> rc_truncated (snapshot_of key r1)" by (simp add: snapshot_of_def)
  have ids: "header_binding (rc_header (snapshot_of key r1)) = binding" "rc_session_id (snapshot_of key r1) = session"
    using h(3) same by (simp_all add: snapshot_of_def)
  have sum_eq: "timeline_summary (wk_timeline (walk_view (sr_format r1) last_at r1))
      (recording_path (rs_directory settings) (lowercase_hex binding)) (lowercase_hex binding)
      (sha256_hex ring (sr_disk r1)) (rk_key_id key) = summary"
    using summary same recorder_summary_walk [of r1 _ last_at] by simp
  have fields: "su_recording_handle summary = lowercase_hex binding" "su_sha256 summary = sha256_hex ring (sr_disk r1)"
    "su_key_id summary = rk_key_id key" "su_duration_ms summary = media_duration_ms r1"
    using summary same by (simp_all add: recorder_summary_def)
  have cap: "fc_recording_handle capability = lowercase_hex binding" "fc_sha256 capability = sha256_hex ring (sr_disk r1)"
    "fc_source_session_id capability = session"
    using au same by (auto simp: authorize_def Let_def split: sum.splits)
  have "adopt_closed_recording ring env True False settings session (sr_handle r0) (File_Bytes (sr_disk r'))
           = Inr (summary, capability)"
    unfolding adopt_closed_recording_def disk(1) r0(2) using au same
    by (simp add: handle key(1) snap ids walk trunc sum_eq fields rewind_of_recorder Let_def)
  moreover have "verify_capability ring key capability = Inr ()"
    using issued_verifies [OF assms(10) au] same(3) by simp
  then have "preflight_finalized_recording ring env True False settings capability (File_Bytes (sr_disk r'))
      = Inr (snapshot_of key r1)"
    unfolding preflight_finalized_recording_def snapshot_finalized_recording_def disk(1)
    by (simp add: key(1) handle cap snap ids walk trunc validate_completed_chunks_def rewind_of_recorder)
  ultimately show ?thesis using s(1) disk(1) key(1) same fields(4) by blast
qed


section \<open>Incomplete recordings\<close>

text \<open>The file holds a stream, whatever the recorder thinks of itself.\<close>

definition stream_ok :: "Ring \<Rightarrow> SessionRecorder \<Rightarrow> RecordedChunk list \<Rightarrow> bool" where
  "stream_ok ring r cs \<longleftrightarrow> length (sr_header r) = 48 \<and>
     (\<exists>bs. sr_disk r = sr_header r @ bs \<and>
        sealed_stream ring (rk_key (sr_key r)) (sr_header r) 0 cs bs (sr_counter r))"

lemma stream_ok_append:
  assumes "stream_ok ring r cs" "append_chunk ring w (record_of c) r = (r', Inr u)"
    and "chunk_ok c" "kind_ok (is_timed (sr_header r)) c"
  shows "stream_ok ring r' (cs @ [c])" "sr_header r' = sr_header r" "sr_key r' = sr_key r"
    "sr_session_id r' = sr_session_id r" "sr_capability_poisoned r' = sr_capability_poisoned r"
    "sr_recording_failed r' = sr_recording_failed r"
proof -
  obtain ct v io where a: "checked_add (sr_counter r) 1 = Some (sr_counter r')"
      "ring_seal ring (rk_key (sr_key r)) (chunk_nonce (sr_header r) (sr_counter r))
         (chunk_aad (sr_header r) (sr_counter r)) (record_of c) = Some ct"
      "length ct \<le> MAX_CHUNK_CIPHERTEXT_BYTES"
      "r' = r\<lparr>sr_counter := sr_counter r', sr_disk := sr_disk r @ u32_to_be (of_nat (length ct)) @ ct,
             sr_io := io, sr_sealed := sr_sealed r @ u32_to_be (of_nat (length ct)) @ ct,
             sr_written_bytes := sat_add (sat_add (sr_written_bytes r) 4) (of_nat (length ct)),
             sr_timed_validation := v\<rparr>"
    using append_chunk_ok [OF assms(2)] by blast
  show eqs: "sr_header r' = sr_header r" "sr_key r' = sr_key r" "sr_session_id r' = sr_session_id r"
    "sr_capability_poisoned r' = sr_capability_poisoned r" "sr_recording_failed r' = sr_recording_failed r"
    by (subst a(4), simp)+
  have d: "sr_disk r' = sr_disk r @ u32_to_be (of_nat (length ct)) @ ct" by (subst a(4)) simp
  have "sealed_chunk ring (rk_key (sr_key r)) (sr_header r) (sr_counter r) c ct (sr_counter r')"
    using a(1-3) assms(3,4) by (simp add: sealed_chunk_def)
  then show "stream_ok ring r' (cs @ [c])"
    using assms(1) sealed_stream_snoc unfolding stream_ok_def eqs d by fastforce
qed

lemma failure_chunk_ok: "chunk_ok (Rec_GapStarted at RECORDING_FAILURE_REASON)"
  by (simp add: RECORDING_FAILURE_REASON_def str_of_def valid_str_def scalar_def len_utf8_def)

lemma walk_step_failure:
  assumes "next_validation r (record_of (Rec_GapStarted at RECORDING_FAILURE_REASON)) = Inr v"
    and "sr_timed_validation r \<noteq> None \<longleftrightarrow> timed" "\<not> sr_ended r"
  shows "walk_step timed (walk_view fmt last_at r) (Rec_GapStarted at RECORDING_FAILURE_REASON)
      = Inr (Walk_Incomplete (wk_timeline (walk_view fmt last_at r)))"
proof -
  from append_validation [OF assms(1) failure_chunk_ok assms(2), of fmt last_at]
  have v: "(if timed then accept (wk_validation (walk_view fmt last_at r)) (Rec_GapStarted at RECORDING_FAILURE_REASON)
      else Inr (wk_validation (walk_view fmt last_at r))) = Inr (case v of None \<Rightarrow> TimedValidation_default | Some x \<Rightarrow> x)"
    by simp
  show ?thesis unfolding walk_step_def v using assms(3) by (simp add: walk_view_def)
qed

text \<open>Closing an incomplete recorder writes the failure record before the closing chunk.\<close>

lemma close_incomplete:
  assumes "sim ring w r0 cs fmt last_at" "r = mark_incomplete r0" "\<not> sr_ended r0" "\<not> sr_failure_recorded r0"
    and "close_recording ring w r = (r', Inr u)"
  shows "\<exists>cs' t. stream_ok ring r' cs' \<and> walk_all (is_timed (sr_header r0)) WalkState_new cs' = Inr (Walk_Incomplete t) \<and>
     sr_header r' = sr_header r0 \<and> sr_key r' = sr_key r0 \<and> sr_session_id r' = sr_session_id r0"
proof -
  have d: "disk_ok ring r0 cs" "walk_all (is_timed (sr_header r0)) WalkState_new cs = Inr (Walk_On (walk_view fmt last_at r0))"
    using assms(1) by (simp_all add: sim_def)
  have r: "\<exists>g. r = r0\<lparr>sr_recording_failed := True, sr_gaps := g\<rparr>"
    using d(1) assms(2) by (auto simp: mark_incomplete_def disk_ok_def Let_def)
  let ?at = "elapsed_ms w r" let ?gap = "Rec_GapStarted ?at RECORDING_FAILURE_REASON"
  have st: "stream_ok ring (tick r) cs" "is_incomplete r" "sr_header (tick r) = sr_header r0" "sr_key (tick r) = sr_key r0"
    "sr_session_id (tick r) = sr_session_id r0" "sr_timed_validation (tick r) = sr_timed_validation r0"
    "\<not> sr_ended r" "\<not> sr_failure_recorded r" "sr_ended (tick r) = sr_ended r0" "sr_timed_validation r0 = sr_timed_validation r"
    using r d(1) assms(3,4) by (auto simp: stream_ok_def disk_ok_def tick_def is_incomplete_def)
  obtain r1 r2 where r1: "append_chunk ring w (record_of ?gap) (tick r) = (r1, Inr ())"
    and r2: "append_chunk ring w (record_of (Rec_Ended (elapsed_ms w (r1\<lparr>sr_failure_recorded := True\<rparr>))))
        (tick (r1\<lparr>sr_failure_recorded := True\<rparr>)) = (r2, Inr ())"
    and r': "r' = r2\<lparr>sr_ended := True\<rparr>"
    using assms(5) st(2,7,8) by (auto simp: close_recording_def try_then_ok)
  note a = stream_ok_append [OF st(1) r1 failure_chunk_ok]
  have "stream_ok ring (tick (r1\<lparr>sr_failure_recorded := True\<rparr>)) (cs @ [?gap])"
    using a(1) by (simp add: stream_ok_def tick_def)
  note b = stream_ok_append [OF this r2]
  obtain v where "next_validation (tick r) (record_of ?gap) = Inr v" using append_chunk_ok [OF r1] by blast
  then have "next_validation r0 (record_of ?gap) = Inr v" by (simp add: next_validation_def st)
  then have "walk_step (is_timed (sr_header r0)) (walk_view fmt last_at r0) ?gap
      = Inr (Walk_Incomplete (wk_timeline (walk_view fmt last_at r0)))"
    using d(1) assms(3) by (intro walk_step_failure) (auto simp: disk_ok_def)
  then have "walk_all (is_timed (sr_header r0)) WalkState_new ((cs @ [?gap]) @ [Rec_Ended (elapsed_ms w (r1\<lparr>sr_failure_recorded := True\<rparr>))])
      = Inr (Walk_Incomplete (wk_timeline (walk_view fmt last_at r0)))"
    by (simp add: walk_all_append [OF d(2)])
  moreover have "stream_ok ring r' ((cs @ [?gap]) @ [Rec_Ended (elapsed_ms w (r1\<lparr>sr_failure_recorded := True\<rparr>))])"
    using b(1) r' by (simp add: stream_ok_def)
  moreover have "sr_header r' = sr_header r0 \<and> sr_key r' = sr_key r0 \<and> sr_session_id r' = sr_session_id r0"
    using a(2-4) b(2-4) r' st(3-5) by (simp add: tick_def)
  ultimately show ?thesis by blast
qed

lemma start_any_failure:
  assumes "start_any ring w env random created settings session timed = Inr r"
  shows "\<not> sr_failure_recorded r"
proof -
  have f: "\<not> sr_failure_recorded x" if "start_format ring w env random created settings session timed = Inr x" for x
    using that by (auto simp: start_format_def Let_def split: sum.splits option.splits prod.splits if_splits)
  show ?thesis
  proof (cases timed)
    case True
    then obtain r0 where r0: "start_format ring w env random created settings session timed = Inr r0"
      and r: "append_chunk ring w policy_record r0 = (r, Inr ())"
      using assms by (auto simp: start_any_def start_timed_def split: sum.splits prod.splits)
    have "\<exists>a b c d e g. r = r0\<lparr>sr_counter := a, sr_disk := b, sr_io := c, sr_sealed := d, sr_written_bytes := e,
        sr_timed_validation := g\<rparr>"
      using append_chunk_ok [OF r] by blast
    then show ?thesis using f [OF r0] by (elim exE) simp
  next
    case False
    then show ?thesis using assms f by (simp add: start_any_def start_def)
  qed
qed

lemma finalize_closes:
  assumes "finalize ring w r = (r', Inr summary)" "sr_summary r = None"
  shows "\<exists>r1. close_recording ring w r = (r1, Inr ()) \<and> sr_disk r' = sr_disk r1"
proof -
  have "try_then (close_recording ring w r) (\<lambda>r _. try_then (flush_recording w r)
       (\<lambda>r _. (case file_digest ring w (sr_disk r) of
                 Inl e \<Rightarrow> (r, Inl e)
               | Inr sha256 \<Rightarrow>
                   (r\<lparr>sr_file := False, sr_summary := Some (recorder_summary r sha256)\<rparr>, Inr (recorder_summary r sha256)))))
      = (r', Inr summary)"
    using assms unfolding finalize_def finalize_using_def Let_def by simp
  then obtain r1 r3 where r1: "close_recording ring w r = (r1, Inr ())" and r3: "flush_recording w r1 = (r3, Inr ())"
    and d: "(case file_digest ring w (sr_disk r3) of
                 Inl e \<Rightarrow> (r3, Inl e)
               | Inr sha256 \<Rightarrow>
                   (r3\<lparr>sr_file := False, sr_summary := Some (recorder_summary r3 sha256)\<rparr>, Inr (recorder_summary r3 sha256)))
      = (r', Inr summary)"
    unfolding try_then_ok by (elim exE conjE) simp
  obtain io where "r3 = r1\<lparr>sr_io := io\<rparr>" using flush_recording_ok [OF r3] by blast
  then have "sr_disk r' = sr_disk r1" using d by (cases "file_digest ring w (sr_disk r3)") auto
  then show ?thesis using r1 by blast
qed


section \<open>Torn files\<close>

lemma read_chunks_whole:
  assumes "sealed_stream ring (rk_key (rc_key c)) (rc_header c) (rc_counter c) cs bs m" "aead_ok ring"
    and "rc_remaining c = bs" "\<not> rc_finished c" "\<not> rc_truncated c"
  shows "read_chunks ring c acc = Inr \<lparr>rn_session_id = rc_session_id c, rn_chunks = acc @ cs, rn_truncated = False\<rparr>"
  using assms
proof (induction cs arbitrary: c acc bs)
  case Nil
  then have "bs = []" by (auto elim: sealed_stream_NilE)
  then show ?case using Nil.prems by (subst read_chunks.simps) (simp add: next_chunk_def fill_def Let_def)
next
  case (Cons x cs)
  from Cons.prems(1) obtain ct n' rest where
    x: "sealed_chunk ring (rk_key (rc_key c)) (rc_header c) (rc_counter c) x ct n'"
    and rest: "sealed_stream ring (rk_key (rc_key c)) (rc_header c) n' cs rest m"
    and bs: "bs = u32_to_be (of_nat (length ct)) @ ct @ rest"
    by (auto elim: sealed_stream_ConsE)
  let ?c = "c\<lparr>rc_remaining := rest, rc_counter := n'\<rparr>"
  have "next_chunk ring c = (?c, Inr (Some x))"
    using Cons.prems x bs by (intro next_chunk_sealed) simp_all
  moreover have "read_chunks ring ?c (acc @ [x]) = Inr \<lparr>rn_session_id = rc_session_id ?c, rn_chunks = (acc @ [x]) @ cs, rn_truncated = False\<rparr>"
    using Cons.prems rest by (intro Cons.IH) simp_all
  ultimately show ?case by (subst read_chunks.simps) simp
qed

lemma open_cut_recording:
  assumes "from_environment ring env key_env = Inr key" "length header = 48" "read_header header = Inr session" "48 \<le> n"
  shows "open_session_recording ring env (take n (header @ bs)) key_env =
    Inr \<lparr>rc_remaining = take (n - 48) bs, rc_key = key, rc_header = header, rc_session_id = session, rc_counter = 0,
         rc_truncated = False, rc_finished = False, rc_strict = False\<rparr>"
  using assms by (simp add: open_session_recording_def HEADER_LEN_def min_def)

lemma read_whole_recording:
  assumes "sim ring w r cs fmt last_at" "from_environment ring env key_env = Inr (sr_key r)"
    and "read_header (sr_header r) = Inr session" "aead_ok ring"
  shows "read_session_recording ring env (sr_disk r) key_env
      = Inr \<lparr>rn_session_id = session, rn_chunks = cs, rn_truncated = False\<rparr>"
proof -
  obtain bs where d: "sr_disk r = sr_header r @ bs" "length (sr_header r) = 48"
    "sealed_stream ring (rk_key (sr_key r)) (sr_header r) 0 cs bs (sr_counter r)"
    using assms(1) by (auto simp: sim_def disk_ok_def)
  let ?c = "\<lparr>rc_remaining = bs, rc_key = sr_key r, rc_header = sr_header r, rc_session_id = session, rc_counter = 0,
         rc_truncated = False, rc_finished = False, rc_strict = False\<rparr>"
  have "take (48 + length bs) (sr_header r @ bs) = sr_header r @ bs" using d(2) by simp
  then show ?thesis
    using open_cut_recording [OF assms(2) d(2) assms(3), of "48 + length bs" bs]
      read_chunks_whole [of ring ?c cs bs "sr_counter r" "[]"] d assms(4)
    by (simp add: read_session_recording_def)
qed

text \<open>
  C5: A crash loses at most the chunk being written. Cut the file of any recording that has been
  written without an error at any point behind its header: reading it succeeds and returns exactly
  the chunks that lie wholly before the cut, in order, and it reports a truncated recording exactly
  when the cut is not between two chunks.
\<close>

theorem crash_keeps_whole_chunks:
  assumes "start_any ring w env (Some (binding, salt)) created settings session timed = Inr r0"
    and "length salt = 8" "length binding = 16"
    and "recorder_run ring w ops r0 = (r, Inr ())" "list_all op_ok ops"
    and "clock_ok w" "aead_ok ring" "48 \<le> n"
  shows "\<exists>cs j kept m.
    read_session_recording ring env (sr_disk r) (rs_key_env settings)
      = Inr \<lparr>rn_session_id = session, rn_chunks = cs, rn_truncated = False\<rparr> \<and>
    j \<le> length cs \<and> sealed_stream ring (rk_key (sr_key r)) (sr_header r) 0 (take j cs) kept m \<and>
    prefix (sr_header r @ kept) (take n (sr_disk r)) \<and>
    (j < length cs \<longrightarrow> (\<forall>more m'. sealed_stream ring (rk_key (sr_key r)) (sr_header r) 0 (take (Suc j) cs) more m'
       \<longrightarrow> n < 48 + length more)) \<and>
    read_session_recording ring env (take n (sr_disk r)) (rs_key_env settings)
      = Inr \<lparr>rn_session_id = session, rn_chunks = take j cs, rn_truncated = (sr_header r @ kept \<noteq> take n (sr_disk r))\<rparr>"
proof -
  obtain key where key: "from_environment ring env (rs_key_env settings) = Inr key" "sr_key r0 = key"
    and r0: "sr_header r0 = make_header timed session salt binding" "tracked ring w r0"
    using start_any_tracked [OF assms(1-3)] by blast
  have run: "tracked ring w r" "sr_key r = key" "sr_header r = make_header timed session salt binding"
    using recorder_run_tracked [OF assms(6) r0(2) assms(5,4)] key(2) r0(1) by (simp_all add: same_recorder_def)
  obtain cs fmt last_at where sm: "sim ring w r cs fmt last_at" using run(1) by (auto simp: tracked_def)
  then obtain bs where d: "sr_disk r = sr_header r @ bs" "length (sr_header r) = 48"
    "sealed_stream ring (rk_key key) (sr_header r) 0 cs bs (sr_counter r)"
    using run(2) by (auto simp: sim_def disk_ok_def)
  have h: "read_header (sr_header r) = Inr session" using header_facts(2) [OF assms(2,3)] run(3) by simp
  let ?c = "\<lambda>rest. \<lparr>rc_remaining = rest, rc_key = key, rc_header = sr_header r, rc_session_id = session, rc_counter = 0,
         rc_truncated = False, rc_finished = False, rc_strict = False\<rparr>"
  have whole: "read_session_recording ring env (sr_disk r) (rs_key_env settings)
      = Inr \<lparr>rn_session_id = session, rn_chunks = cs, rn_truncated = False\<rparr>"
    using read_whole_recording [OF sm _ h assms(7)] key(1) run(2) by simp
  obtain j kept m where j: "j \<le> length cs" "sealed_stream ring (rk_key key) (sr_header r) 0 (take j cs) kept m"
    "prefix kept (take (n - 48) bs)"
    "j < length cs \<longrightarrow> (\<forall>more m'. sealed_stream ring (rk_key key) (sr_header r) 0 (take (Suc j) cs) more m' \<longrightarrow> n - 48 < length more)"
    "read_chunks ring (?c (take (n - 48) bs)) [] = Inr \<lparr>rn_session_id = session, rn_chunks = take j cs, rn_truncated = (kept \<noteq> take (n - 48) bs)\<rparr>"
    using read_chunks_prefix [of ring "?c (take (n - 48) bs)" cs bs "sr_counter r" "n - 48" "[]"] d(3) assms(7) by auto
  have cut: "take n (sr_disk r) = sr_header r @ take (n - 48) bs" using d assms(8) by simp
  have "read_session_recording ring env (take n (sr_disk r)) (rs_key_env settings)
      = Inr \<lparr>rn_session_id = session, rn_chunks = take j cs, rn_truncated = (kept \<noteq> take (n - 48) bs)\<rparr>"
    using open_cut_recording [OF key(1) d(2) h assms(8), of bs] j(5) d(1) by (simp add: read_session_recording_def)
  moreover have "j < length cs \<longrightarrow> (\<forall>more m'. sealed_stream ring (rk_key (sr_key r)) (sr_header r) 0 (take (Suc j) cs) more m'
       \<longrightarrow> n < 48 + length more)"
    using j(4) run(2) assms(8) by (auto simp: less_diff_conv2)
  ultimately show ?thesis
    using whole j(1-3) run(2)
    by (intro exI [of _ cs] exI [of _ j] exI [of _ kept] exI [of _ m]) (simp add: cut)
qed

section \<open>Recording on a working disk\<close>

definition working :: "World \<Rightarrow> bool" where
  "working w \<longleftrightarrow> (\<forall>n. w_sink w n = None) \<and> (\<forall>d. w_reread w d = Some d)"

definition cipher_works :: "Ring \<Rightarrow> bool" where
  "cipher_works ring \<longleftrightarrow>
     (\<forall>k n a p. length p + 16 \<le> MAX_CHUNK_CIPHERTEXT_BYTES \<longrightarrow>
        (\<exists>c. ring_seal ring k n a p = Some c \<and> length c = length p + 16)) \<and>
     (\<forall>m. length (ring_sha256 ring m) = 32) \<and> (\<forall>k m. length (ring_hmac ring k m) = 32)"

text \<open>A plain recorder with room for \<open>k\<close> more chunks below the chunk and recovery limits.\<close>

definition roomy :: "nat \<Rightarrow> SessionRecorder \<Rightarrow> bool" where
  "roomy k r \<longleftrightarrow> sr_timed_validation r = None \<and> sr_timing_budget r = None \<and> sr_file r \<and>
     unat (sr_counter r) + k < 2 ^ 32 \<and>
     length (sr_disk r) + k * (4 + MAX_CHUNK_CIPHERTEXT_BYTES) \<le> MAX_FINALIZED_RECORDING_BYTES"

lemma roomy_less: "roomy (Suc k) r \<Longrightarrow> roomy k r"
  by (simp add: roomy_def)

lemma roomy_updates [simp]:
  "roomy k (tick r) = roomy k r"
  "roomy k (r\<lparr>sr_ended := a\<rparr>) = roomy k r"
  "roomy k (r\<lparr>sr_limit_notices := b\<rparr>) = roomy k r"
  "roomy k (r\<lparr>sr_safety := c\<rparr>) = roomy k r"
  "roomy k (r\<lparr>sr_media_ms := d\<rparr>) = roomy k r"
  "roomy k (r\<lparr>sr_gaps := e\<rparr>) = roomy k r"
  "roomy k (r\<lparr>sr_open_gap_at_ms := f\<rparr>) = roomy k r"
  "roomy k (r\<lparr>sr_format := g\<rparr>) = roomy k r"
  by (simp_all add: roomy_def tick_def)

lemma tick_fields [simp]: "sr_ended (tick r) = sr_ended r"
  by (simp add: tick_def)

lemma sink_ops_works:
  "working w \<Longrightarrow> sink_ops w bs (d, io) = ((d @ concat bs, io + length bs), True)"
  by (induction bs arbitrary: d io) (simp_all add: sink_op_def working_def)

lemma append_chunk_works:
  assumes "working w" "cipher_works ring" "roomy (Suc k) r" "\<not> sr_ended r"
    and "length chunk + 16 \<le> MAX_CHUNK_CIPHERTEXT_BYTES"
  shows "\<exists>r'. append_chunk ring w chunk r = (r', Inr ()) \<and> roomy k r' \<and> \<not> sr_ended r'"
proof -
  obtain ct where ct: "ring_seal ring (rk_key (sr_key r)) (chunk_nonce (sr_header r) (sr_counter r))
      (chunk_aad (sr_header r) (sr_counter r)) chunk = Some ct" "length ct = length chunk + 16"
    using assms(2,5) unfolding cipher_works_def by blast
  have "unat (sr_counter r) + 1 < 2 ^ 32" using assms(3) by (simp add: roomy_def)
  then have c: "checked_add (sr_counter r) 1 = Some (sr_counter r + 1)" "unat (sr_counter r + 1) = unat (sr_counter r) + 1"
    by (simp_all add: checked_add_def unat_word_ariths)
  have ok: "sr_timed_validation r = None" "sr_timing_budget r = None" "sr_file r" using assms(3) by (simp_all add: roomy_def)
  then have "append_chunk ring w chunk r =
      (r\<lparr>sr_counter := sr_counter r + 1, sr_disk := sr_disk r @ u32_to_be (of_nat (length ct)) @ ct, sr_io := sr_io r + 3,
         sr_sealed := sr_sealed r @ u32_to_be (of_nat (length ct)) @ ct,
         sr_written_bytes := sat_add (sat_add (sr_written_bytes r) 4) (of_nat (length ct))\<rparr>, Inr ())"
    using assms(4,5) ct c(1) sink_ops_works [OF assms(1), of "[u32_to_be (of_nat (length ct)), ct, []]" "sr_disk r" "sr_io r"]
    by (simp add: append_chunk_def next_validation_def write_chunk_def)
  moreover have "length ct \<le> MAX_CHUNK_CIPHERTEXT_BYTES" using ct(2) assms(5) by simp
  ultimately show ?thesis
    using assms(3,4) ok c(2) by (simp add: roomy_def)
qed

lemma record_lengths:
  "length (ended_record t) = 9" "length (gap_ended_record t) = 9"
  "frame_ok frame \<Longrightarrow> length (frame_record t frame) + 16 \<le> MAX_CHUNK_CIPHERTEXT_BYTES"
  by (simp_all add: ended_record_def gap_ended_record_def frame_record_def frame_ok_def MAX_PCM_FRAME_BYTES_def
      MAX_CHUNK_CIPHERTEXT_BYTES_def)

lemma enforce_limits_works:
  assumes "working w" "cipher_works ring" "roomy (Suc k) r" "\<not> sr_ended r"
  shows "\<exists>r'. enforce_limits ring w frame r = (r', Inr ()) \<and> roomy k r'"
proof -
  obtain safety notices where n: "limit_notices_for w frame r = (r\<lparr>sr_safety := safety\<rparr>, notices)"
    using limit_notices_shape by blast
  let ?r = "r\<lparr>sr_safety := safety\<rparr>"
  obtain r1 where "append_chunk ring w (ended_record (elapsed_ms w ?r)) (tick ?r) = (r1, Inr ())" "roomy k r1"
    using append_chunk_works [OF assms(1,2), of k "tick ?r" "ended_record (elapsed_ms w ?r)"] assms(3,4)
    by (auto simp: record_lengths MAX_CHUNK_CIPHERTEXT_BYTES_def)
  then show ?thesis
    using n roomy_less [OF assms(3)] by (simp add: enforce_limits_def try_then_def)
qed

lemma end_gap_works:
  assumes "working w" "cipher_works ring" "roomy (Suc k) r" "\<not> sr_ended r"
  shows "\<exists>r'. end_gap ring w had_media at_ms r = (r', Inr ()) \<and> roomy k r' \<and> \<not> sr_ended r'"
proof (cases "sr_open_gap_at_ms r")
  case None
  then show ?thesis using assms roomy_less by (simp add: end_gap_def)
next
  case (Some opened)
  obtain r1 where r1: "append_chunk ring w (gap_ended_record at_ms) r = (r1, Inr ())" "roomy k r1" "\<not> sr_ended r1"
    using append_chunk_works [OF assms, of "gap_ended_record at_ms"] by (auto simp: record_lengths MAX_CHUNK_CIPHERTEXT_BYTES_def)
  then have "sr_timing_budget r1 = None" by (simp add: roomy_def)
  then show ?thesis using Some r1 by (simp add: end_gap_def try_then_def charge_gap_def)
qed

lemma record_frame_works:
  assumes "working w" "cipher_works ring" "roomy (3 + k) r" "\<not> sr_ended r" "frame_ok frame"
    and "sr_format r = None \<or> sr_format r = Some (af_format frame)"
  shows "\<exists>r'. record_frame ring w frame r = (r', Inr ()) \<and> roomy k r'"
proof -
  let ?r = "r\<lparr>sr_format := Some (af_format frame)\<rparr>" and ?at = "elapsed_ms w r"
  have at: "elapsed_ms w ?r = ?at" by (simp add: elapsed_ms_def)
  have r3: "roomy (Suc (Suc (Suc k))) (tick ?r)" "\<not> sr_ended (tick ?r)"
    using assms(3,4) by (simp_all add: numeral_eq_Suc)
  obtain r1 where r1: "end_gap ring w (sr_format r \<noteq> None) ?at (tick ?r) = (r1, Inr ())" "roomy (Suc (Suc k)) r1" "\<not> sr_ended r1"
    using end_gap_works [OF assms(1,2) r3] by blast
  obtain r2 where r2: "append_chunk ring w (frame_record ?at frame) r1 = (r2, Inr ())" "roomy (Suc k) r2" "\<not> sr_ended r2"
    using append_chunk_works [OF assms(1,2) r1(2,3)] record_lengths(3) [OF assms(5)] by blast
  have w: "write_frame ring w frame ?at r1 = (r2\<lparr>sr_media_ms := sat_add (sr_media_ms r2) (frame_duration_ms frame)\<rparr>, Inr ())"
    using r1(2) r2(1) by (simp add: write_frame_def roomy_def try_then_def)
  show ?thesis
    using enforce_limits_works [OF assms(1,2), of k "r2\<lparr>sr_media_ms := sat_add (sr_media_ms r2) (frame_duration_ms frame)\<rparr>" "Some frame"]
      r1(1) r2(2,3) w assms(6) at
    by (auto simp: record_frame_def Let_def try_then_def)
qed

lemma finalize_with_capability_works:
  assumes "working w" "cipher_works ring" "roomy 1 r" "clock_ok w" "tracked ring w r"
    and "sr_session_id r \<noteq> 0" "sr_handle r = lowercase_hex binding" "length binding = 16"
    and "rk_key_id (sr_key r) = lowercase_hex key_id" "length key_id = 8"
  shows "\<exists>r' summary capability. finalize_with_capability ring w r = (r', Inr (summary, capability))"
proof -
  have flags: "sr_summary r = None" "\<not> sr_recording_failed r" "\<not> sr_capability_poisoned r"
    using assms(5) by (auto simp: tracked_def sim_def disk_ok_def)
  have "\<exists>r1. close_recording ring w r = (r1, Inr ()) \<and> roomy 0 r1"
  proof (cases "sr_ended r")
    case True
    then show ?thesis using roomy_less [of 0 r] assms(3) by (simp add: close_recording_def)
  next
    case False
    then show ?thesis
      using append_chunk_works [OF assms(1,2), of 0 "tick r" "ended_record (elapsed_ms w r)"] assms(3) flags
      by (auto simp: close_recording_def is_incomplete_def try_then_def record_lengths MAX_CHUNK_CIPHERTEXT_BYTES_def)
  qed
  then obtain r1 where r1: "close_recording ring w r = (r1, Inr ())" "roomy 0 r1" by blast
  obtain cs last_at where s: "sim ring w r1 cs (sr_format r1) last_at" "same_recorder r r1"
    using close_recording_sim [OF assms(4,5) r1(1)] by blast
  have fl: "flush_recording w r1 = (r1\<lparr>sr_io := sr_io r1 + 2\<rparr>, Inr ())"
    using sink_ops_works [OF assms(1), of "[[], []]" "sr_disk r1" "sr_io r1"] r1(2)
    by (simp add: flush_recording_def roomy_def)
  let ?sha = "sha256_hex ring (sr_disk r1)"
  have "length (sr_disk r) \<le> MAX_FINALIZED_RECORDING_BYTES" "length (sr_disk r1) \<le> MAX_FINALIZED_RECORDING_BYTES"
    using assms(3) r1(2) by (simp_all add: roomy_def)
  then have op: "open_recovery_source w d = Inr d" "recovery_digest ring w (sr_disk r1) = Inr ?sha" if "d = sr_disk r" for d
    using assms(1) that by (simp_all add: open_recovery_source_def recovery_digest_def working_def)
  have same: "sr_session_id r1 = sr_session_id r" "sr_handle r1 = sr_handle r" "sr_key r1 = sr_key r" "sr_sealed r1 = sr_disk r1"
    using s by (simp_all add: same_recorder_def sim_def disk_ok_def)
  let ?c = "\<lparr>fc_source_session_id = sr_session_id r1, fc_recording_handle = sr_handle r1,
       fc_sha256 = ?sha, fc_key_id = rk_key_id (sr_key r1), fc_authorization = []\<rparr>"
  have "length (ring_sha256 ring (sr_disk r1)) = 32" using assms(2) by (simp add: cipher_works_def)
  then have "decode_hex 16 (lowercase_hex binding) = Some binding" "decode_hex 32 ?sha = Some (ring_sha256 ring (sr_disk r1))"
    "decode_hex 8 (lowercase_hex key_id) = Some key_id"
    using decode_hex_lowercase_hex [of binding 16] decode_hex_lowercase_hex [of key_id 8]
      decode_hex_lowercase_hex [of "ring_sha256 ring (sr_disk r1)" 32] assms(8,10)
    by (simp_all add: sha256_hex_def)
  then have "\<exists>x. capability_fields (?c\<lparr>fc_authorization := replicate 64 48\<rparr>) = Inr x"
    using assms(6,7,9) same by (subst capability_fields_auth [OF zero_authorization]) simp
  then obtain capability where "authorize ring (sr_key r1) ?c = Inr capability"
    by (auto simp: authorize_def Let_def)
  then show ?thesis
    using flags op [OF refl] r1(1) fl same
    by (simp add: finalize_with_capability_def finalize_using_def try_then_def Let_def recorder_summary_def)
qed

lemma finalize_incomplete_works:
  assumes "working w" "cipher_works ring" "roomy 2 r" "\<not> sr_ended r" "\<not> sr_failure_recorded r" "sr_summary r = None"
    and "sr_recording_failed r"
  shows "\<exists>r' summary. finalize ring w r = (r', Inr summary)"
proof -
  have two: "roomy (Suc (Suc 0)) (tick r)" "\<not> sr_ended (tick r)" using assms(3,4) by (simp_all add: numeral_2_eq_2)
  have gap: "length (gap_started_record t RECORDING_FAILURE_REASON) + 16 \<le> MAX_CHUNK_CIPHERTEXT_BYTES" for t
    by (simp add: gap_started_record_def RECORDING_FAILURE_REASON_def str_of_def MAX_CHUNK_CIPHERTEXT_BYTES_def utf8_char_def)
  obtain r1 where r1: "append_chunk ring w (gap_started_record (elapsed_ms w r) RECORDING_FAILURE_REASON) (tick r) = (r1, Inr ())"
    "roomy (Suc 0) r1" "\<not> sr_ended r1"
    using append_chunk_works [OF assms(1,2) two gap] by blast
  let ?r1 = "r1\<lparr>sr_failure_recorded := True\<rparr>"
  have "roomy (Suc 0) (tick ?r1)" "\<not> sr_ended (tick ?r1)" using r1(2,3) by (simp_all add: roomy_def tick_def)
  then obtain r2 where r2: "append_chunk ring w (ended_record (elapsed_ms w ?r1)) (tick ?r1) = (r2, Inr ())" "roomy 0 r2"
    using append_chunk_works [OF assms(1,2), of 0 "tick ?r1" "ended_record (elapsed_ms w ?r1)"]
    by (auto simp: record_lengths MAX_CHUNK_CIPHERTEXT_BYTES_def)
  have "close_recording ring w r = (r2\<lparr>sr_ended := True\<rparr>, Inr ())"
    using assms(4,5,7) r1(1) r2(1) by (simp add: close_recording_def is_incomplete_def try_then_def)
  moreover have "flush_recording w (r2\<lparr>sr_ended := True\<rparr>) = (r2\<lparr>sr_ended := True, sr_io := sr_io r2 + 2\<rparr>, Inr ())"
    using sink_ops_works [OF assms(1), of "[[], []]" "sr_disk r2" "sr_io r2"] r2(2)
    by (simp add: flush_recording_def roomy_def)
  ultimately show ?thesis
    using assms(1,6) by (simp add: finalize_def finalize_using_def try_then_def file_digest_def working_def Let_def)
qed

lemma start_works:
  assumes "working w" "from_environment ring env (rs_key_env settings) = Inr key"
    and "length salt = 8" "length binding = 16"
  shows "\<exists>r. start_any ring w env (Some (binding, salt)) True settings session False = Inr r \<and> sr_format r = None
     \<and> \<not> sr_ended r \<and> roomy 100 r"
  using assms(2-4) sink_ops_works [OF assms(1), of "[make_header False session salt binding, []]" "[]" 0]
    header_facts(1) [OF assms(3,4), of False session]
  by (simp add: start_any_def start_def start_format_def Let_def roomy_def MAX_CHUNK_CIPHERTEXT_BYTES_def
      MAX_FINALIZED_RECORDING_BYTES_def)


section \<open>A concrete recording\<close>

definition demo_world :: World where
  "demo_world = \<lparr>w_clock = (\<lambda>_. 0), w_free = (\<lambda>_. None), w_sink = (\<lambda>_. None), w_reread = Some\<rparr>"

definition demo_env :: "rstring \<Rightarrow> rstring option" where
  "demo_env = (\<lambda>_. Some (replicate 64 48))"

definition demo_settings :: RecordingSettings where
  "demo_settings = \<lparr>rs_directory = [47], rs_key_env = [75], rs_limits = RecordingLimits_default\<rparr>"

lemma demo_facts:
  "working demo_world" "clock_ok demo_world" "aead_ok plain_ring" "cipher_works plain_ring" "frame_ok one_frame"
  "length (ring_hmac plain_ring k m) = 32"
  by (simp_all add: working_def clock_ok_def demo_world_def aead_ok_def cipher_works_def plain_ring_def frame_ok_def
      one_frame_def sample_format_def pcm_ok_def MAX_PCM_FRAME_BYTES_def min_def)

lemma demo_key:
  "\<exists>key k. from_environment plain_ring demo_env (rs_key_env demo_settings) = Inr key \<and> rk_key_id key = lowercase_hex k \<and> length k = 8"
proof -
  have t: "trim (replicate 64 48) = replicate 64 48"
    by (simp add: trim_def trim_start_def trim_end_def dropWhile_replicate is_whitespace_def)
  have l: "to_ascii_lowercase (replicate 64 48) = replicate 64 48" by (simp add: to_ascii_lowercase_def)
  have n: "is_environment_name [75]"
    by (simp add: is_environment_name_def MAX_KEY_ENV_BYTES_def len_utf8_def utf8_char_def byte_of_def word_le_nat_alt)
  have ring: "length (ring_sha256 plain_ring m) = 32" "ring_aead_key plain_ring x \<longleftrightarrow> length x = 32"
    "ring_hkdf plain_ring x y z = Some (take 32 (y @ replicate 32 0))" for m x y z
    by (simp_all add: plain_ring_def min_def)
  have "\<exists>key. from_environment plain_ring demo_env (rs_key_env demo_settings) = Inr key
      \<and> rk_key_id key = lowercase_hex (take 8 (derive plain_ring KEY_ID_DOMAIN (as_bytes (replicate 64 48))))"
    using zero_authorization ring
    by (auto simp: from_environment_def demo_env_def demo_settings_def n t l Let_def RECORDING_KEY_HEX_LEN_def derive_def)
  moreover have "length (take 8 (derive plain_ring KEY_ID_DOMAIN (as_bytes (replicate 64 48)))) = 8"
    using ring(1) by (simp add: derive_def)
  ultimately show ?thesis by blast
qed

lemma demo_recording:
  "\<exists>r0 r r' summary capability.
     start_any plain_ring demo_world demo_env (Some (replicate 16 9, replicate 8 1)) True demo_settings 1 False = Inr r0 \<and>
     recorder_run plain_ring demo_world [Op_Frame one_frame, Op_Notices] r0 = (r, Inr ()) \<and>
     finalize_with_capability plain_ring demo_world r = (r', Inr (summary, capability))"
proof -
  obtain key k where key: "from_environment plain_ring demo_env (rs_key_env demo_settings) = Inr key"
    "rk_key_id key = lowercase_hex k" "length k = 8" using demo_key by blast
  have len: "length (replicate 8 (1 :: byte)) = 8" "length (replicate 16 (9 :: byte)) = 16" by simp_all
  obtain r0 where r0: "start_any plain_ring demo_world demo_env (Some (replicate 16 9, replicate 8 1)) True demo_settings 1 False = Inr r0"
    "sr_format r0 = None" "\<not> sr_ended r0" "roomy 100 r0"
    using start_works [OF demo_facts(1) key(1) len] by blast
  obtain r1 where r1: "record_frame plain_ring demo_world one_frame r0 = (r1, Inr ())" "roomy 97 r1"
    using record_frame_works [OF demo_facts(1,4), of 97 r0 one_frame] r0 demo_facts(5) by auto
  let ?r = "r1\<lparr>sr_limit_notices := []\<rparr>"
  have run: "recorder_run plain_ring demo_world [Op_Frame one_frame, Op_Notices] r0 = (?r, Inr ())"
    using r1 by (simp add: try_then_def take_limit_notices_def)
  have t: "tracked plain_ring demo_world r0" "sr_session_id r0 = 1" "sr_handle r0 = lowercase_hex (replicate 16 9)" "sr_key r0 = key"
    using start_any_tracked [OF r0(1) len] key(1) by auto
  have t2: "tracked plain_ring demo_world ?r" "same_recorder r0 ?r"
    using recorder_run_tracked [OF demo_facts(2) t(1) _ run] demo_facts(5) by simp_all
  have "roomy 1 ?r" using r1(2) by (simp add: roomy_def)
  moreover have "sr_session_id ?r \<noteq> 0" "sr_handle ?r = lowercase_hex (replicate 16 9)" "rk_key_id (sr_key ?r) = lowercase_hex k"
    using t t2(2) key(2) by (simp_all add: same_recorder_def)
  ultimately show ?thesis
    using finalize_with_capability_works [OF demo_facts(1,4) _ demo_facts(2) t2(1) _ _ len(2) _ key(3)] r0(1) run by blast
qed



theorem crash_keeps_whole_chunks_witness:
  "\<exists>r0 r cs j truncated.
     start_any plain_ring demo_world demo_env (Some (replicate 16 9, replicate 8 1)) True demo_settings 1 False = Inr r0 \<and>
     recorder_run plain_ring demo_world [Op_Frame one_frame, Op_Notices] r0 = (r, Inr ()) \<and>
     read_session_recording plain_ring demo_env (take 60 (sr_disk r)) (rs_key_env demo_settings)
       = Inr \<lparr>rn_session_id = 1, rn_chunks = take j cs, rn_truncated = truncated\<rparr>"
proof -
  obtain r0 r where d:
    "start_any plain_ring demo_world demo_env (Some (replicate 16 9, replicate 8 1)) True demo_settings 1 False = Inr r0"
    "recorder_run plain_ring demo_world [Op_Frame one_frame, Op_Notices] r0 = (r, Inr ())"
    using demo_recording by blast
  have "list_all op_ok [Op_Frame one_frame, Op_Notices]" using demo_facts(5) by simp
  note ops = this
  have "length (replicate 8 (1 :: byte)) = 8" "length (replicate 16 (9 :: byte)) = 16" "48 \<le> (60 :: nat)" by simp_all
  from crash_keeps_whole_chunks [OF d(1) this(1,2) d(2) ops demo_facts(2,3) this(3)]
  have "\<exists>cs j truncated. read_session_recording plain_ring demo_env (take 60 (sr_disk r)) (rs_key_env demo_settings)
       = Inr \<lparr>rn_session_id = 1, rn_chunks = take j cs, rn_truncated = truncated\<rparr>"
    by (elim exE conjE) blast
  then show ?thesis using d by blast
qed


end
