(* ===== verification/Diarization.thy ===== *)
theory Diarization
  imports Recording_Timeline
begin

text \<open>
  The transcription and diarization port, \<^verbatim>\<open>crates/model-adapters/src/diarization.rs\<close>, and what a
  client sees of it, \<^verbatim>\<open>crates/protocol/src/client_diarization.rs\<close>: bounded windows of meeting audio,
  segments with anonymous speaker clusters, and the projection of a result onto the wire by the
  gateway. Shown: a provider's label never survives relabelling and two of its labels are never
  merged, and every result that the constructors accept passes the wire's own validation.
\<close>

section \<open>Windows of meeting audio\<close>

record MediaSampleOrigin =
  mo_media_start_sample :: u64
  mo_sample_rate_hz :: u32
  mo_gap_offset_ms :: u64

definition origin_invalid :: AdapterError where
  "origin_invalid = AdapterError_new ''meeting sample origin cannot be projected''"

definition project_sample :: "MediaSampleOrigin \<Rightarrow> u64 \<Rightarrow> u64 adapter" where
  "project_sample origin sample =
     (if mo_sample_rate_hz origin = 0 then Inl origin_invalid
      else (case try_word (unat sample * 1000 div unat (mo_sample_rate_hz origin)) of
              None \<Rightarrow> Inl origin_invalid
            | Some millis \<Rightarrow>
                (case checked_add millis (mo_gap_offset_ms origin) of
                   None \<Rightarrow> Inl origin_invalid | Some ms \<Rightarrow> Inr ms)))"

definition MediaSampleOrigin_new :: "u64 \<Rightarrow> u32 \<Rightarrow> u64 \<Rightarrow> MediaSampleOrigin adapter" where
  "MediaSampleOrigin_new media_start_sample sample_rate_hz gap_offset_ms =
     (let origin = \<lparr>mo_media_start_sample = media_start_sample, mo_sample_rate_hz = sample_rate_hz,
                    mo_gap_offset_ms = gap_offset_ms\<rparr>
      in case project_sample origin media_start_sample of Inl e \<Rightarrow> Inl e | Inr _ \<Rightarrow> Inr origin)"

record MeetingAudioWindow =
  mw_format :: PcmFormat
  mw_started_at_ms :: u64
  mw_sample_origin :: "MediaSampleOrigin option"
  mw_bytes :: "byte list"

definition MeetingAudioWindow_new :: "PcmFormat \<Rightarrow> u64 \<Rightarrow> byte list \<Rightarrow> MeetingAudioWindow adapter" where
  "MeetingAudioWindow_new format started_at_ms bytes =
     (if bytes = [] then Inl (AdapterError_new ''meeting audio window must not be empty'')
      else (case frame_alignment_bytes format of
              Inl e \<Rightarrow> Inl e
            | Inr alignment \<Rightarrow>
                if \<not> alignment dvd length bytes
                then Inl (AdapterError_new ''meeting audio window was not sample aligned'')
                else Inr \<lparr>mw_format = format, mw_started_at_ms = started_at_ms,
                          mw_sample_origin = None, mw_bytes = bytes\<rparr>))"

definition new_with_sample_origin ::
  "PcmFormat \<Rightarrow> MediaSampleOrigin \<Rightarrow> byte list \<Rightarrow> MeetingAudioWindow adapter" where
  "new_with_sample_origin format origin bytes =
     (if mo_sample_rate_hz origin \<noteq> pf_sample_rate_hz format
      then Inl (AdapterError_new ''meeting sample origin rate differs from PCM'')
      else
     (case project_sample origin (mo_media_start_sample origin) of
        Inl e \<Rightarrow> Inl e
      | Inr started_at_ms \<Rightarrow>
     (case MeetingAudioWindow_new format started_at_ms bytes of
        Inl e \<Rightarrow> Inl e
      | Inr window \<Rightarrow>
     (case frame_alignment_bytes format of
        Inl e \<Rightarrow> Inl e
      | Inr alignment \<Rightarrow>
     (case try_word (length (mw_bytes window) div alignment) of
        None \<Rightarrow> Inl (AdapterError_new ''meeting sample count overflowed'')
      | Some count \<Rightarrow>
     (case checked_add (mo_media_start_sample origin) count of
        None \<Rightarrow> Inl (AdapterError_new ''meeting sample count overflowed'')
      | Some end_sample \<Rightarrow>
     (case project_sample origin end_sample of
        Inl e \<Rightarrow> Inl e
      | Inr _ \<Rightarrow> Inr (window\<lparr>mw_sample_origin := Some origin\<rparr>))))))))"

definition audio_ms :: "MeetingAudioWindow \<Rightarrow> u64" where
  "audio_ms window =
     (case frame_alignment_bytes (mw_format window) of
        Inl _ \<Rightarrow> 0
      | Inr alignment \<Rightarrow>
          if alignment = 0 then 0
          else (case try_word (length (mw_bytes window) div alignment * 1000
                                 div unat (pf_sample_rate_hz (mw_format window))) of
                  None \<Rightarrow> - 1 | Some ms \<Rightarrow> ms))"

section \<open>Sample ranges\<close>

text \<open>
  The errors of the client protocol, \<^verbatim>\<open>crates/protocol/src/client_wire.rs\<close>. The text of a JSON error is
  the parser's.
\<close>

datatype ClientWireError =
    InvalidJson string | UnsupportedProtocolVersion u64 | InvalidRequestId | InvalidTranscript
  | InvalidConversationContext | InvalidIdentifier | InvalidRuntimeErrorCode | InvalidRuntimeStatus
  | InvalidVoiceEvent | MismatchedVoiceIdentity | InvalidMemoryResponse | InvalidPersonaState
  | InvalidRecordingSummary | InvalidFinalizedRecordingCapability | InvalidRecordingHandle
  | InvalidRecordingReconciliation | InvalidTextProcessingRequest | InvalidProcessedText
  | InvalidMediaLease | PayloadTooLarge nat nat | UnsupportedRuntimeEvent string

type_synonym 'a wire = "ClientWireError + 'a"

record DiarizedMediaSampleRange =
  dr_start_sample_inclusive :: u64
  dr_end_sample_exclusive :: u64
  dr_sample_rate_hz :: u32
  dr_gap_offset_ms :: u64

definition project_ms :: "DiarizedMediaSampleRange \<Rightarrow> u64 \<Rightarrow> u64 wire" where
  "project_ms rng sample =
     (case try_word (unat sample * 1000 div unat (dr_sample_rate_hz rng)) of
        None \<Rightarrow> Inl InvalidRecordingReconciliation
      | Some ms \<Rightarrow>
          (case checked_add ms (dr_gap_offset_ms rng) of
             None \<Rightarrow> Inl InvalidRecordingReconciliation | Some v \<Rightarrow> Inr v))"

definition DiarizedMediaSampleRange_new ::
  "u64 \<Rightarrow> u64 \<Rightarrow> u32 \<Rightarrow> u64 \<Rightarrow> DiarizedMediaSampleRange wire" where
  "DiarizedMediaSampleRange_new start end_sample sample_rate_hz gap_offset_ms =
     (if start \<ge> end_sample \<or> sample_rate_hz = 0 then Inl InvalidRecordingReconciliation
      else
        let rng = \<lparr>dr_start_sample_inclusive = start, dr_end_sample_exclusive = end_sample,
                     dr_sample_rate_hz = sample_rate_hz, dr_gap_offset_ms = gap_offset_ms\<rparr>
        in case project_ms rng end_sample of Inl e \<Rightarrow> Inl e | Inr _ \<Rightarrow> Inr rng)"

definition quantization_policy :: string where
  "quantization_policy = ''provider_seconds_outward_samples/v1''"

text \<open>The operands of \<open>||\<close> and \<open>&&\<close> are evaluated from the left, each behind its own \<open>?\<close>.\<close>

definition validate_legacy_projection :: "DiarizedMediaSampleRange \<Rightarrow> u64 \<Rightarrow> u64 \<Rightarrow> unit wire" where
  "validate_legacy_projection rng started_at_ms ended_at_ms =
     (case project_ms rng (dr_start_sample_inclusive rng) of
        Inl e \<Rightarrow> Inl e
      | Inr start \<Rightarrow>
          if started_at_ms \<noteq> start \<or> ended_at_ms < started_at_ms then Inl InvalidRecordingReconciliation
          else
     (case project_ms rng (dr_end_sample_exclusive rng) of
        Inl e \<Rightarrow> Inl e
      | Inr end_ms \<Rightarrow>
          if ended_at_ms = end_ms then Inr ()
          else
     (case project_ms rng (dr_end_sample_exclusive rng - 1) of
        Inl e \<Rightarrow> Inl e
      | Inr floor_ms \<Rightarrow>
          if ended_at_ms \<noteq> floor_ms then Inl InvalidRecordingReconciliation else Inr ())))"

section \<open>Segments\<close>

definition MAX_DIARIZED_SEGMENTS :: nat where "MAX_DIARIZED_SEGMENTS = 1024"
definition MAX_DIARIZED_SEGMENT_TEXT_BYTES :: nat where "MAX_DIARIZED_SEGMENT_TEXT_BYTES = 2048"
definition MAX_DIARIZED_TEXT_BYTES :: nat where "MAX_DIARIZED_TEXT_BYTES = 128 * 1024"
definition MAX_SPEAKER_CLUSTERS :: nat where "MAX_SPEAKER_CLUSTERS = 64"
definition MAX_DIARIZED_SEGMENT_ID_BYTES :: nat where "MAX_DIARIZED_SEGMENT_ID_BYTES = 64"

definition is_label_byte :: "byte \<Rightarrow> bool" where
  "is_label_byte b \<longleftrightarrow> (97 \<le> b \<and> b \<le> 122) \<or> (48 \<le> b \<and> b \<le> 57) \<or> b = 45"

definition strip_prefix :: "rstring \<Rightarrow> rstring \<Rightarrow> rstring option" where
  "strip_prefix p s = (if take (length p) s = p then Some (drop (length p) s) else None)"

definition is_anonymous_cluster_label :: "rstring \<Rightarrow> bool" where
  "is_anonymous_cluster_label label =
     (case strip_prefix (str_of ''cluster-'') label of
        None \<Rightarrow> False
      | Some index \<Rightarrow>
          index \<noteq> [] \<and> str_len index \<le> 4
          \<and> list_all (\<lambda>b. 48 \<le> b \<and> b \<le> 57) (as_bytes index)
          \<and> \<not> (case index of [] \<Rightarrow> False | c # _ \<Rightarrow> c = 48))"

record DiarizedSegment =
  ds_segment_id :: rstring
  ds_started_at_ms :: u64
  ds_ended_at_ms :: u64
  ds_text :: rstring
  ds_speaker_cluster :: "rstring option"
  ds_media_sample_range :: "DiarizedMediaSampleRange option"

definition DiarizedSegment_new ::
  "rstring \<Rightarrow> u64 \<Rightarrow> u64 \<Rightarrow> rstring \<Rightarrow> rstring option \<Rightarrow> DiarizedSegment adapter" where
  "DiarizedSegment_new segment_id started_at_ms ended_at_ms content speaker_cluster =
     (if segment_id = [] \<or> str_len segment_id > MAX_DIARIZED_SEGMENT_ID_BYTES
         \<or> \<not> list_all is_label_byte (as_bytes segment_id)
      then Inl (AdapterError_new ''diarized segment identifier is not a bounded lowercase label'')
      else if ended_at_ms < started_at_ms
      then Inl (AdapterError_new ''diarized segment ends before it starts'')
      else if str_len content > MAX_DIARIZED_SEGMENT_TEXT_BYTES
      then Inl (AdapterError_new ''diarized segment text exceeded its size limit'')
      else if list_ex is_control content
      then Inl (AdapterError_new ''diarized segment text carries a control character'')
      else if (case speaker_cluster of None \<Rightarrow> False | Some cluster \<Rightarrow> \<not> is_anonymous_cluster_label cluster)
      then Inl (AdapterError_new ''diarized segment speaker cluster is not an anonymous label'')
      else Inr \<lparr>ds_segment_id = segment_id, ds_started_at_ms = started_at_ms,
                ds_ended_at_ms = ended_at_ms, ds_text = content, ds_speaker_cluster = speaker_cluster,
                ds_media_sample_range = None\<rparr>)"

definition with_media_sample_range ::
  "DiarizedSegment \<Rightarrow> DiarizedMediaSampleRange \<Rightarrow> DiarizedSegment adapter" where
  "with_media_sample_range segment rng =
     (case validate_legacy_projection rng (ds_started_at_ms segment) (ds_ended_at_ms segment) of
        Inl _ \<Rightarrow> Inl (AdapterError_new ''diarized sample range differs from media timings'')
      | Inr _ \<Rightarrow> Inr (segment\<lparr>ds_media_sample_range := Some rng\<rparr>))"

section \<open>Results\<close>

datatype DiarizationWarning = NoSpeechDetected | ProviderReportedWarnings | RecordingTruncated

fun DiarizationWarning_as_str :: "DiarizationWarning \<Rightarrow> string" where
  "DiarizationWarning_as_str NoSpeechDetected = ''no_speech_detected''"
| "DiarizationWarning_as_str ProviderReportedWarnings = ''provider_reported_warnings''"
| "DiarizationWarning_as_str RecordingTruncated = ''recording_truncated''"

record DiarizationResult =
  di_segments :: "DiarizedSegment list"
  di_warnings :: "DiarizationWarning list"

text \<open>
  The loop of \<open>DiarizationResult::new\<close>: the segments before the current one, the bytes used and the
  clusters seen.
\<close>

fun check_segments ::
  "DiarizedSegment list \<Rightarrow> nat \<Rightarrow> rstring list \<Rightarrow> DiarizedSegment list \<Rightarrow> rstring list adapter" where
  "check_segments earlier used clusters [] = Inr clusters"
| "check_segments earlier used clusters (s # rest) =
     (case checked_add_usize used (str_len (ds_text s)) of
        None \<Rightarrow> Inl (AdapterError_new ''diarization exceeded its text limit'')
      | Some used' \<Rightarrow>
          if used' > MAX_DIARIZED_TEXT_BYTES
          then Inl (AdapterError_new ''diarization exceeded its text limit'')
          else if list_ex (\<lambda>e. ds_segment_id e = ds_segment_id s) earlier
          then Inl (AdapterError_new ''diarization repeated a segment identifier'')
          else check_segments (earlier @ [s]) used'
                 (case ds_speaker_cluster s of
                    None \<Rightarrow> clusters
                  | Some c \<Rightarrow> if c \<in> set clusters then clusters else clusters @ [c]) rest)"

fun deduplicate :: "'a list \<Rightarrow> 'a list \<Rightarrow> 'a list" where
  "deduplicate kept [] = kept"
| "deduplicate kept (w # ws) = deduplicate (if w \<in> set kept then kept else kept @ [w]) ws"

definition DiarizationResult_new ::
  "DiarizedSegment list \<Rightarrow> DiarizationWarning list \<Rightarrow> DiarizationResult adapter" where
  "DiarizationResult_new segments warnings =
     (if length segments > MAX_DIARIZED_SEGMENTS
      then Inl (AdapterError_new ''diarization exceeded its segment limit'')
      else (case check_segments [] 0 [] segments of
              Inl e \<Rightarrow> Inl e
            | Inr clusters \<Rightarrow>
                if length clusters > MAX_SPEAKER_CLUSTERS
                then Inl (AdapterError_new ''diarization exceeded its speaker cluster limit'')
                else Inr \<lparr>di_segments = segments, di_warnings = deduplicate [] warnings\<rparr>))"

definition with_warning :: "DiarizationResult \<Rightarrow> DiarizationWarning \<Rightarrow> DiarizationResult" where
  "with_warning r w =
     (if w \<in> set (di_warnings r) then r else r\<lparr>di_warnings := di_warnings r @ [w]\<rparr>)"

section \<open>Speaker clusters\<close>

fun position :: "'a \<Rightarrow> 'a list \<Rightarrow> nat option" where
  "position x [] = None"
| "position x (y # ys) = (if y = x then Some 0 else map_option Suc (position x ys))"

definition label_for :: "rstring list \<Rightarrow> rstring \<Rightarrow> rstring list \<times> rstring adapter" where
  "label_for provider_labels provider_label =
     (case position provider_label provider_labels of
        Some index \<Rightarrow> (provider_labels, Inr (str_of (''cluster-'' @ show_nat (index + 1))))
      | None \<Rightarrow>
          if length provider_labels \<ge> MAX_SPEAKER_CLUSTERS
          then (provider_labels, Inl (AdapterError_new ''diarization exceeded its speaker cluster limit''))
          else (provider_labels @ [provider_label],
                Inr (str_of (''cluster-'' @ show_nat (length provider_labels + 1)))))"

section \<open>On the wire\<close>

definition MAX_CLIENT_DIARIZED_SEGMENTS :: nat where "MAX_CLIENT_DIARIZED_SEGMENTS = 1024"
definition MAX_CLIENT_DIARIZED_SEGMENT_TEXT_BYTES :: nat where "MAX_CLIENT_DIARIZED_SEGMENT_TEXT_BYTES = 2048"
definition MAX_CLIENT_DIARIZED_TEXT_BYTES :: nat where "MAX_CLIENT_DIARIZED_TEXT_BYTES = 128 * 1024"
definition MAX_CLIENT_DIARIZED_SEGMENT_ID_BYTES :: nat where "MAX_CLIENT_DIARIZED_SEGMENT_ID_BYTES = 64"

definition DIARIZATION_WARNINGS :: "string list" where
  "DIARIZATION_WARNINGS = [''no_speech_detected'', ''provider_reported_warnings'', ''recording_truncated'']"

record ClientDiarizedSegment =
  cd_segment_id :: rstring
  cd_started_at_ms :: u64
  cd_ended_at_ms :: u64
  cd_text :: rstring
  cd_speaker_cluster :: "rstring option"
  cd_media_sample_range :: "DiarizedMediaSampleRange option"

record ClientRecordingReconciliation =
  cr_segments :: "ClientDiarizedSegment list"
  cr_warnings :: "string list"

definition validate_segment :: "ClientDiarizedSegment \<Rightarrow> unit wire" where
  "validate_segment s =
     (case (case cd_media_sample_range s of
              None \<Rightarrow> Inr ()
            | Some rng \<Rightarrow> validate_legacy_projection rng (cd_started_at_ms s) (cd_ended_at_ms s)) of
        Inl e \<Rightarrow> Inl e
      | Inr _ \<Rightarrow>
          if cd_segment_id s = [] \<or> str_len (cd_segment_id s) > MAX_CLIENT_DIARIZED_SEGMENT_ID_BYTES
             \<or> \<not> list_all is_label_byte (as_bytes (cd_segment_id s))
          then Inl InvalidRecordingReconciliation
          else if cd_ended_at_ms s < cd_started_at_ms s then Inl InvalidRecordingReconciliation
          else if str_len (cd_text s) > MAX_CLIENT_DIARIZED_SEGMENT_TEXT_BYTES \<or> list_ex is_control (cd_text s)
          then Inl InvalidRecordingReconciliation
          else if (case cd_speaker_cluster s of None \<Rightarrow> False | Some c \<Rightarrow> \<not> is_anonymous_cluster_label c)
          then Inl InvalidRecordingReconciliation
          else Inr ())"

fun check_client_segments ::
  "ClientDiarizedSegment list \<Rightarrow> nat \<Rightarrow> u32 option \<Rightarrow> ClientDiarizedSegment list \<Rightarrow> unit wire" where
  "check_client_segments earlier used rate [] = Inr ()"
| "check_client_segments earlier used rate (s # rest) =
     (case validate_segment s of
        Inl e \<Rightarrow> Inl e
      | Inr _ \<Rightarrow>
          if (case cd_media_sample_range s of
                None \<Rightarrow> False
              | Some rng \<Rightarrow> (case rate of None \<Rightarrow> False | Some r \<Rightarrow> r \<noteq> dr_sample_rate_hz rng))
          then Inl InvalidRecordingReconciliation
          else
     (case checked_add_usize used (str_len (cd_text s)) of
        None \<Rightarrow> Inl InvalidRecordingReconciliation
      | Some used' \<Rightarrow>
          if used' > MAX_CLIENT_DIARIZED_TEXT_BYTES then Inl InvalidRecordingReconciliation
          else if list_ex (\<lambda>e. cd_segment_id e = cd_segment_id s) earlier
          then Inl InvalidRecordingReconciliation
          else check_client_segments (earlier @ [s]) used'
                 (case cd_media_sample_range s of None \<Rightarrow> rate | Some rng \<Rightarrow> Some (dr_sample_rate_hz rng))
                 rest))"

fun check_client_warnings :: "string list \<Rightarrow> string list \<Rightarrow> unit wire" where
  "check_client_warnings earlier [] = Inr ()"
| "check_client_warnings earlier (w # ws) =
     (if w \<notin> set DIARIZATION_WARNINGS \<or> w \<in> set earlier then Inl InvalidRecordingReconciliation
      else check_client_warnings (earlier @ [w]) ws)"

definition validate_client_recording_reconciliation :: "ClientRecordingReconciliation \<Rightarrow> unit wire" where
  "validate_client_recording_reconciliation r =
     (if length (cr_segments r) > MAX_CLIENT_DIARIZED_SEGMENTS then Inl InvalidRecordingReconciliation
      else (case check_client_segments [] 0 None (cr_segments r) of
              Inl e \<Rightarrow> Inl e
            | Inr _ \<Rightarrow>
                if length (cr_warnings r) > length DIARIZATION_WARNINGS
                then Inl InvalidRecordingReconciliation
                else check_client_warnings [] (cr_warnings r)))"

definition client_segment :: "DiarizedSegment \<Rightarrow> ClientDiarizedSegment" where
  "client_segment s =
     \<lparr>cd_segment_id = ds_segment_id s, cd_started_at_ms = ds_started_at_ms s,
      cd_ended_at_ms = ds_ended_at_ms s, cd_text = ds_text s,
      cd_speaker_cluster = ds_speaker_cluster s, cd_media_sample_range = ds_media_sample_range s\<rparr>"

definition client_reconciliation :: "DiarizationResult \<Rightarrow> ClientRecordingReconciliation" where
  "client_reconciliation result =
     \<lparr>cr_segments = map client_segment (di_segments result),
      cr_warnings = map DiarizationWarning_as_str (di_warnings result)\<rparr>"

section \<open>Decimal labels\<close>

definition digits_value :: "string \<Rightarrow> nat" where
  "digits_value s = foldl (\<lambda>acc c. acc * 10 + (of_char c - 48)) 0 s"

lemma digits_value_show: "digits_value (show_nat n) = n"
proof (induction n rule: show_nat.induct)
  case (1 n)
  then show ?case
    by (subst show_nat.simps) (simp add: digits_value_def)
qed

lemma show_nat_inj: "show_nat m = show_nat n \<longleftrightarrow> m = n"
  by (metis digits_value_show)

lemma show_nat_digits: "c \<in> set (show_nat n) \<Longrightarrow> 48 \<le> (of_char c :: nat) \<and> (of_char c :: nat) \<le> 57"
proof (induction n rule: show_nat.induct)
  case (1 n)
  then show ?case by (subst (asm) (2) show_nat.simps) (auto split: if_splits)
qed

lemma show_nat_not_Nil [simp]: "show_nat n \<noteq> []"
  by (subst show_nat.simps) simp

lemma show_nat_hd: "0 < n \<Longrightarrow> (of_char (hd (show_nat n)) :: nat) \<noteq> 48"
proof (induction n rule: show_nat.induct)
  case (1 n)
  then show ?case by (cases "n < 10") (subst show_nat.simps; simp add: hd_append)+
qed

lemma show_nat_length: "n < 10 ^ Suc k \<Longrightarrow> length (show_nat n) \<le> Suc k"
proof (induction k arbitrary: n)
  case 0
  then show ?case by (subst show_nat.simps) simp
next
  case (Suc k)
  then have "n div 10 < 10 ^ Suc k" by (simp add: less_mult_imp_div_less)
  then show ?case using Suc.IH [of "n div 10"] by (subst show_nat.simps) simp
qed

lemma as_bytes_digits:
  "\<forall>c \<in> set s. 48 \<le> (of_char c :: nat) \<and> (of_char c :: nat) \<le> 57 \<Longrightarrow>
   list_all (\<lambda>b. 48 \<le> b \<and> b \<le> 57) (as_bytes (str_of s)) \<and> str_len (str_of s) = length s"
  by (induction s) (auto simp: str_of_def utf8_char_def len_utf8_def word_le_nat_alt unat_byte)

text \<open>Every label the adapter mints has the shape the wire demands.\<close>

lemma minted_label_anonymous:
  assumes "0 < n" "n < 10000"
  shows "is_anonymous_cluster_label (str_of (''cluster-'' @ show_nat n))"
proof -
  have l: "length (show_nat n) \<le> 4" using show_nat_length [of n 3] assms(2) by simp
  have d: "list_all (\<lambda>b. 48 \<le> b \<and> b \<le> 57) (as_bytes (str_of (show_nat n)))" "str_len (str_of (show_nat n)) = length (show_nat n)"
    using as_bytes_digits [of "show_nat n"] show_nat_digits by blast+
  obtain c s where c: "show_nat n = c # s" by (cases "show_nat n") auto
  have "(of_char c :: nat) \<noteq> 48" using show_nat_hd [OF assms(1)] c by simp
  then have "str_of (show_nat n) \<noteq> []" "\<not> (case str_of (show_nat n) of [] \<Rightarrow> False | c # _ \<Rightarrow> c = 48)"
    using c by (simp_all add: str_of_def)
  moreover have "strip_prefix (str_of ''cluster-'') (str_of (''cluster-'' @ show_nat n)) = Some (str_of (show_nat n))"
    by (simp add: strip_prefix_def str_of_def)
  ultimately show ?thesis using l d by (simp add: is_anonymous_cluster_label_def)
qed

section \<open>Relabelling\<close>

text \<open>A provider's labels in the order it mentions them, and the answers of the adapter.\<close>

primrec label_run :: "rstring list \<Rightarrow> rstring list \<Rightarrow> (AdapterError + rstring) list" where
  "label_run known [] = []"
| "label_run known (l # ls) = (let (known', r) = label_for known l in r # label_run known' ls)"

primrec known_after :: "rstring list \<Rightarrow> rstring list \<Rightarrow> rstring list" where
  "known_after known [] = known"
| "known_after known (l # ls) = known_after (if l \<in> set known then known else known @ [l]) ls"

definition minted :: "nat \<Rightarrow> rstring" where
  "minted index = str_of (''cluster-'' @ show_nat (index + 1))"

lemma minted_inj: "minted i = minted j \<longleftrightarrow> i = j"
proof -
  have "inj (of_char :: char \<Rightarrow> nat)" by (rule inj_of_char)
  then show ?thesis by (simp add: minted_def str_of_def inj_map_eq_map show_nat_inj)
qed

lemma position_Some: "position x xs = Some i \<Longrightarrow> i < length xs \<and> xs ! i = x"
  by (induction xs arbitrary: i) (auto split: if_splits)

lemma position_None: "position x xs = None \<longleftrightarrow> x \<notin> set xs"
  by (induction xs) auto

lemma position_append: "x \<in> set xs \<Longrightarrow> position x (xs @ ys) = position x xs"
  by (induction xs) auto

lemma position_snoc: "x \<notin> set xs \<Longrightarrow> position x (xs @ [x]) = Some (length xs)"
  by (induction xs) auto

lemma known_after_facts:
  "\<exists>ys. known_after known ls = known @ ys" "set (known_after known ls) = set known \<union> set ls"
  "distinct known \<Longrightarrow> distinct (known_after known ls)"
  by (induction ls arbitrary: known) (auto, (metis append.assoc)+)

lemma label_run_minted:
  assumes "length (known_after known ls) \<le> MAX_SPEAKER_CLUSTERS"
  shows "label_run known ls = map (\<lambda>l. Inr (minted (the (position l (known_after known ls))))) ls"
  using assms
proof (induction ls arbitrary: known)
  case (Cons l ls)
  let ?known = "if l \<in> set known then known else known @ [l]"
  obtain ys where ys: "known_after known (l # ls) = ?known @ ys" using known_after_facts(1) [of ?known ls] by auto
  have at: "position l (known_after known (l # ls)) = position l ?known"
    unfolding ys by (rule position_append) auto
  have "label_for known l = (?known, Inr (minted (the (position l ?known))))"
  proof (cases "l \<in> set known")
    case True
    then obtain i where "position l known = Some i" using position_None [of l known] by auto
    then show ?thesis using True by (simp add: label_for_def minted_def)
  next
    case False
    then have "length known < MAX_SPEAKER_CLUSTERS" using Cons.prems ys by simp
    then show ?thesis using False position_None [of l known] by (simp add: label_for_def position_snoc minted_def)
  qed
  then show ?case using Cons.IH [of ?known] Cons.prems at by simp
qed simp

lemma known_after_card: "length (known_after [] ls) = card (set ls)"
  using known_after_facts(2,3) [of "[]" ls] distinct_card [of "known_after [] ls"] by simp

lemma position_map: "inj_on f (insert x (set xs)) \<Longrightarrow> position (f x) (map f xs) = position x xs"
  by (induction xs) (auto simp: inj_on_def)

lemma known_after_map:
  "inj_on f (set known \<union> set ls) \<Longrightarrow> known_after (map f known) (map f ls) = map f (known_after known ls)"
proof (induction ls arbitrary: known)
  case (Cons l ls)
  have "f l \<in> f ` set known \<longleftrightarrow> l \<in> set known" using Cons.prems by (auto simp: inj_on_def)
  moreover have "inj_on f (set (if l \<in> set known then known else known @ [l]) \<union> set ls)"
    using Cons.prems by (rule inj_on_subset) auto
  ultimately show ?case using Cons.IH [of "if l \<in> set known then known else known @ [l]"] by auto
qed simp

text \<open>
  C23: A provider's speaker labels never leave the adapter. For any sequence of labels with at most 64
  different ones, every answer has the anonymous shape \<open>cluster-N\<close>; two answers are equal exactly
  when the provider gave the same label; and the answers do not depend on the labels' text: any
  renaming that keeps different labels different gives the same answers.
\<close>

theorem provider_labels_anonymous:
  assumes "card (set ls) \<le> 64"
  shows "\<exists>answers. label_run [] ls = map Inr answers \<and> list_all is_anonymous_cluster_label answers \<and>
     (\<forall>i < length ls. \<forall>j < length ls. answers ! i = answers ! j \<longleftrightarrow> ls ! i = ls ! j) \<and>
     (\<forall>f. inj_on f (set ls) \<longrightarrow> label_run [] (map f ls) = map Inr answers)"
proof -
  let ?K = "known_after [] ls" and ?a = "\<lambda>l. minted (the (position l (known_after [] ls)))"
  have len: "length ?K \<le> MAX_SPEAKER_CLUSTERS" using assms known_after_card by (simp add: MAX_SPEAKER_CLUSTERS_def)
  have pos: "\<exists>i. position l ?K = Some i \<and> i < 64 \<and> ?K ! i = l" if "l \<in> set ls" for l
    using that known_after_facts(2) [of "[]" ls] position_None [of l ?K] position_Some [of l ?K] len
    by (fastforce simp: MAX_SPEAKER_CLUSTERS_def)
  have "list_all is_anonymous_cluster_label (map ?a ls)"
    using pos minted_label_anonymous by (fastforce simp: list_all_iff minted_def)
  moreover have "\<forall>i < length ls. \<forall>j < length ls. map ?a ls ! i = map ?a ls ! j \<longleftrightarrow> ls ! i = ls ! j"
    using pos by (auto simp: minted_inj) (metis nth_mem option.sel)
  moreover have "label_run [] (map f ls) = map Inr (map ?a ls)" if f: "inj_on f (set ls)" for f
  proof -
    have K: "known_after [] (map f ls) = map f ?K" using known_after_map [of f "[]" ls] f by simp
    have "position (f l) (map f ?K) = position l ?K" if "l \<in> set ls" for l
      using known_after_facts(2) [of "[]" ls] f that by (intro position_map) (simp add: insert_absorb)
    then show ?thesis using label_run_minted [of "[]" "map f ls"] len K by simp
  qed
  moreover have "label_run [] ls = map Inr (map ?a ls)" using label_run_minted [OF len] by simp
  ultimately show ?thesis by blast
qed

theorem provider_labels_anonymous_witness:
  "card (set [[65], [66], [65 :: nat]]) \<le> 64 \<and>
   (\<exists>answers. label_run [] [[65], [66], [65]] = map Inr answers \<and> list_all is_anonymous_cluster_label answers)"
proof -
  have "card (set [[65], [66], [65 :: nat]]) \<le> 64" using card_length [of "[[65], [66], [65 :: nat]]"] by simp
  then show ?thesis using provider_labels_anonymous by blast
qed

section \<open>Results on the wire\<close>

text \<open>A segment that the constructors return, and results whose sample ranges share one rate.\<close>

definition segment_built :: "DiarizedSegment \<Rightarrow> bool" where
  "segment_built s \<longleftrightarrow>
     (\<exists>i a b c l s0. DiarizedSegment_new i a b c l = Inr s0 \<and>
        (s = s0 \<or> (\<exists>rng. with_media_sample_range s0 rng = Inr s)))"

definition one_rate :: "u32 \<Rightarrow> DiarizedSegment list \<Rightarrow> bool" where
  "one_rate rate segments \<longleftrightarrow>
     list_all (\<lambda>s. case ds_media_sample_range s of None \<Rightarrow> True | Some rng \<Rightarrow> dr_sample_rate_hz rng = rate) segments"

lemma client_segment_simps [simp]:
  "cd_segment_id (client_segment s) = ds_segment_id s" "cd_text (client_segment s) = ds_text s"
  "cd_media_sample_range (client_segment s) = ds_media_sample_range s"
  "cd_started_at_ms (client_segment s) = ds_started_at_ms s" "cd_ended_at_ms (client_segment s) = ds_ended_at_ms s"
  "cd_speaker_cluster (client_segment s) = ds_speaker_cluster s"
  by (simp_all add: client_segment_def)

lemmas segment_limits =
  MAX_DIARIZED_SEGMENT_ID_BYTES_def MAX_CLIENT_DIARIZED_SEGMENT_ID_BYTES_def
  MAX_DIARIZED_SEGMENT_TEXT_BYTES_def MAX_CLIENT_DIARIZED_SEGMENT_TEXT_BYTES_def

definition segment_bounds :: "DiarizedSegment \<Rightarrow> bool" where
  "segment_bounds s \<longleftrightarrow>
     ds_segment_id s \<noteq> [] \<and> str_len (ds_segment_id s) \<le> 64 \<and> list_all is_label_byte (as_bytes (ds_segment_id s)) \<and>
     ds_started_at_ms s \<le> ds_ended_at_ms s \<and> str_len (ds_text s) \<le> 2048 \<and> \<not> list_ex is_control (ds_text s) \<and>
     (case ds_speaker_cluster s of None \<Rightarrow> True | Some c \<Rightarrow> is_anonymous_cluster_label c)"

lemma DiarizedSegment_new_bounds:
  assumes "DiarizedSegment_new i a b c l = Inr s"
  shows "segment_bounds s \<and> ds_media_sample_range s = None"
proof -
  have "s = \<lparr>ds_segment_id = i, ds_started_at_ms = a, ds_ended_at_ms = b, ds_text = c, ds_speaker_cluster = l,
      ds_media_sample_range = None\<rparr>"
    using assms unfolding DiarizedSegment_new_def by (simp split: if_split_asm)
  then show ?thesis
    using assms unfolding DiarizedSegment_new_def segment_bounds_def
    by (simp add: segment_limits not_less split: if_split_asm option.split_asm)
qed

lemma segment_built_valid:
  assumes "segment_built s"
  shows "validate_segment (client_segment s) = Inr ()"
proof -
  obtain i a b c l s0 where s0: "DiarizedSegment_new i a b c l = Inr s0"
    and s: "s = s0 \<or> (\<exists>rng. with_media_sample_range s0 rng = Inr s)"
    using assms unfolding segment_built_def by blast
  have b0: "segment_bounds s0" "ds_media_sample_range s0 = None" using DiarizedSegment_new_bounds [OF s0] by auto
  have "segment_bounds s \<and> (case ds_media_sample_range s of
      None \<Rightarrow> Inr () | Some rng \<Rightarrow> validate_legacy_projection rng (ds_started_at_ms s) (ds_ended_at_ms s)) = Inr ()"
    using s
  proof
    assume "\<exists>rng. with_media_sample_range s0 rng = Inr s"
    then obtain rng where rng: "with_media_sample_range s0 rng = Inr s" ..
    then have "validate_legacy_projection rng (ds_started_at_ms s0) (ds_ended_at_ms s0) = Inr ()"
      by (cases "validate_legacy_projection rng (ds_started_at_ms s0) (ds_ended_at_ms s0)")
        (simp_all add: with_media_sample_range_def)
    moreover from rng this have "s = s0\<lparr>ds_media_sample_range := Some rng\<rparr>"
      by (simp add: with_media_sample_range_def)
    ultimately show ?thesis using b0 by (simp add: segment_bounds_def)
  qed (use b0 in simp)
  then show ?thesis
    unfolding validate_segment_def client_segment_simps segment_bounds_def
    by (cases "ds_speaker_cluster s") (simp_all add: segment_limits not_less)
qed

lemma check_segments_client:
  assumes "check_segments earlier used clusters segments = Inr clusters'" "list_all segment_built segments"
    and "one_rate r segments" "rate = None \<or> rate = Some r"
  shows "check_client_segments (map client_segment earlier) used rate (map client_segment segments) = Inr ()"
  using assms
proof (induction segments arbitrary: earlier used clusters rate)
  case (Cons s rest)
  from Cons.prems(1) obtain used' clusters1 where u: "checked_add_usize used (str_len (ds_text s)) = Some used'"
    "used' \<le> MAX_DIARIZED_TEXT_BYTES" "\<not> list_ex (\<lambda>e. ds_segment_id e = ds_segment_id s) earlier"
    "check_segments (earlier @ [s]) used' clusters1 rest = Inr clusters'"
    by (auto split: option.splits if_splits)
  let ?rate = "case ds_media_sample_range s of None \<Rightarrow> rate | Some rng \<Rightarrow> Some (dr_sample_rate_hz rng)"
  have "check_client_segments (map client_segment (earlier @ [s])) used' ?rate (map client_segment rest) = Inr ()"
    using Cons.prems u(4) by (intro Cons.IH) (auto simp: one_rate_def split: option.splits)
  moreover have "validate_segment (client_segment s) = Inr ()" using Cons.prems(2) segment_built_valid by simp
  moreover have "\<not> list_ex (\<lambda>e. cd_segment_id e = cd_segment_id (client_segment s)) (map client_segment earlier)"
    using u(3) by (simp add: list_ex_iff)
  ultimately show ?case
    using u(1,2) Cons.prems(3,4)
    by (auto simp: one_rate_def MAX_DIARIZED_TEXT_BYTES_def MAX_CLIENT_DIARIZED_TEXT_BYTES_def split: option.splits)
qed simp

lemma deduplicate_distinct: "distinct kept \<Longrightarrow> distinct (deduplicate kept ws)"
  by (induction kept ws rule: deduplicate.induct) auto

lemma DiarizationWarning_as_str_inj: "DiarizationWarning_as_str a = DiarizationWarning_as_str b \<longleftrightarrow> a = b"
  by (cases a; cases b) auto

lemma check_client_warnings_ok:
  "distinct (earlier @ ws) \<Longrightarrow>
   check_client_warnings (map DiarizationWarning_as_str earlier) (map DiarizationWarning_as_str ws) = Inr ()"
proof (induction ws arbitrary: earlier)
  case (Cons w ws)
  have "DiarizationWarning_as_str w \<in> set DIARIZATION_WARNINGS"
    by (cases w) (simp_all add: DIARIZATION_WARNINGS_def)
  moreover have "\<not> DiarizationWarning_as_str w \<in> set (map DiarizationWarning_as_str earlier)"
    using Cons.prems by (auto simp: DiarizationWarning_as_str_inj)
  ultimately show ?case using Cons.IH [of "earlier @ [w]"] Cons.prems by simp
qed simp

lemma warnings_at_most_three: "distinct (ws :: DiarizationWarning list) \<Longrightarrow> length ws \<le> 3"
proof -
  assume "distinct ws"
  moreover have "w \<in> {NoSpeechDetected, ProviderReportedWarnings, RecordingTruncated}" for w
    by (cases w) simp_all
  ultimately show ?thesis
    using card_mono [of "{NoSpeechDetected, ProviderReportedWarnings, RecordingTruncated}" "set ws"]
    by (simp add: distinct_card subset_iff)
qed

text \<open>
  C22: Every diarization the port accepts can be published. If a result is made from segments that the
  segment constructors returned, whose sample ranges share one rate, then the gateway's projection
  of it passes the wire's validation, also after the recording owner has added warnings of its own.
\<close>

theorem result_valid_on_wire:
  assumes "DiarizationResult_new segments warnings = Inr r" "list_all segment_built segments" "one_rate rate segments"
  shows "validate_client_recording_reconciliation (client_reconciliation (fold (\<lambda>w r. with_warning r w) own r)) = Inr ()"
proof -
  from assms(1) obtain clusters where c: "check_segments [] 0 [] segments = Inr clusters" "length segments \<le> MAX_DIARIZED_SEGMENTS"
    and r: "r = \<lparr>di_segments = segments, di_warnings = deduplicate [] warnings\<rparr>"
    by (auto simp: DiarizationResult_new_def split: if_splits sum.splits)
  have "di_segments (fold (\<lambda>w r. with_warning r w) own r) = di_segments r \<and>
      distinct (di_warnings (fold (\<lambda>w r. with_warning r w) own r))"
    if "distinct (di_warnings r)" for r
    using that by (induction own arbitrary: r) (auto simp: with_warning_def)
  then have f: "di_segments (fold (\<lambda>w r. with_warning r w) own r) = segments"
    "distinct (di_warnings (fold (\<lambda>w r. with_warning r w) own r))"
    using r deduplicate_distinct [of "[]" warnings] by simp_all
  have "check_client_segments [] 0 None (map client_segment segments) = Inr ()"
    using check_segments_client [OF c(1) assms(2,3), of None] by simp
  then show ?thesis
    using c(2) f check_client_warnings_ok [of "[]" "di_warnings (fold (\<lambda>w r. with_warning r w) own r)"]
      warnings_at_most_three [OF f(2)]
    by (simp add: validate_client_recording_reconciliation_def client_reconciliation_def DIARIZATION_WARNINGS_def
        MAX_DIARIZED_SEGMENTS_def MAX_CLIENT_DIARIZED_SEGMENTS_def)
qed

definition spoken_segment :: DiarizedSegment where
  "spoken_segment = \<lparr>ds_segment_id = [115], ds_started_at_ms = 0, ds_ended_at_ms = 1, ds_text = [104, 105],
     ds_speaker_cluster = None, ds_media_sample_range = None\<rparr>"

theorem result_valid_on_wire_witness:
  "\<exists>r. DiarizationResult_new [spoken_segment] [NoSpeechDetected, NoSpeechDetected] = Inr r \<and>
     validate_client_recording_reconciliation (client_reconciliation (with_warning r RecordingTruncated)) = Inr ()"
proof -
  have "DiarizedSegment_new [115] 0 1 [104, 105] None = Inr spoken_segment"
    by (simp add: DiarizedSegment_new_def spoken_segment_def MAX_DIARIZED_SEGMENT_ID_BYTES_def is_label_byte_def
        MAX_DIARIZED_SEGMENT_TEXT_BYTES_def is_control_def utf8_char_def byte_of_def len_utf8_def)
  then have "segment_built spoken_segment" unfolding segment_built_def by blast
  then have b: "list_all segment_built [spoken_segment]" by simp
  have o: "one_rate 1 [spoken_segment]" by (simp add: one_rate_def spoken_segment_def)
  obtain r where r: "DiarizationResult_new [spoken_segment] [NoSpeechDetected, NoSpeechDetected] = Inr r"
    by (simp add: DiarizationResult_new_def MAX_DIARIZED_SEGMENTS_def spoken_segment_def checked_add_usize_def
        MAX_DIARIZED_TEXT_BYTES_def usize_max_def len_utf8_def MAX_SPEAKER_CLUSTERS_def)
  then show ?thesis using result_valid_on_wire [OF r b o, of "[RecordingTruncated]"] by simp
qed

end
