(* ===== verification/Recording_Reconciliation.thy ===== *)
theory Recording_Reconciliation
  imports Recording_Adoption Diarization
begin

text \<open>
  Post-meeting reconciliation, \<^verbatim>\<open>crates/runtime/src/recording_reconciliation.rs\<close>: a recording is read
  back chunk by chunk and handed to a diarizer in bounded windows. Shown: the windows of a finalized
  recording hold every recorded byte once and in order, never span a gap, and each starts at the
  media time the recorder was at when it wrote the window's first frame.
\<close>

section \<open>Windows\<close>

definition MAX_RECONCILIATION_WINDOW_BYTES :: nat where
  "MAX_RECONCILIATION_WINDOW_BYTES = 1024 * 1024"

definition adapter_runtime_error :: "AdapterError \<Rightarrow> RuntimeError" where
  "adapter_runtime_error e =
     RuntimeError Kind_Adapter (case ae_stage e of None \<Rightarrow> Stage_AudioCapture | Some s \<Rightarrow> s) (ae_message e)"

record Windows =
  wn_timed :: bool
  wn_samples :: u64
  wn_gap_ms :: u64
  wn_format :: "PcmFormat option"
  wn_media_ms :: u64
  wn_started_at_ms :: u64
  wn_bytes :: "byte list"
  wn_gap_opened_at_ms :: "u64 option"

definition Windows_new :: "bool \<Rightarrow> Windows" where
  "Windows_new timed =
     \<lparr>wn_timed = timed, wn_samples = 0, wn_gap_ms = 0, wn_format = None, wn_media_ms = 0,
      wn_started_at_ms = 0, wn_bytes = [], wn_gap_opened_at_ms = None\<rparr>"

text \<open>
  The channel: the windows the diarizer has taken, and \<open>listening n\<close>, whether it still takes the
  \<open>n\<close>-th.
\<close>

type_synonym delivery = "Windows \<times> MeetingAudioWindow list"

definition window_origin :: "Windows \<Rightarrow> PcmFormat \<Rightarrow> MediaSampleOrigin option result" where
  "window_origin w format =
     (if \<not> wn_timed w then Inr None
      else (case frame_alignment_bytes format of
              Inl e \<Rightarrow> Inl (adapter_runtime_error e)
            | Inr alignment \<Rightarrow>
                (case checked_sub (wn_samples w) (of_nat (length (wn_bytes w) div alignment)) of
                   None \<Rightarrow> Inl (adapter_error ''recording window sample origin underflowed'')
                 | Some first_sample \<Rightarrow>
                     (case MediaSampleOrigin_new first_sample (pf_sample_rate_hz format) (wn_gap_ms w) of
                        Inl e \<Rightarrow> Inl (adapter_runtime_error e)
                      | Inr origin \<Rightarrow> Inr (Some origin)))))"

definition windows_flush :: "(nat \<Rightarrow> bool) \<Rightarrow> delivery \<Rightarrow> delivery \<times> bool result" where
  "windows_flush listening = (\<lambda>(w, sent).
     if wn_bytes w = [] then ((w, sent), Inr True)
     else (case wn_format w of
             None \<Rightarrow> ((w, sent), Inl (adapter_error ''recording window has no format''))
           | Some format \<Rightarrow>
     (case window_origin w format of
        Inl e \<Rightarrow> ((w, sent), Inl e)
      | Inr origin \<Rightarrow>
     (case (case origin of
              Some origin \<Rightarrow> new_with_sample_origin format origin (wn_bytes w)
            | None \<Rightarrow> MeetingAudioWindow_new format (wn_started_at_ms w) (wn_bytes w)) of
        Inl e \<Rightarrow> ((w\<lparr>wn_bytes := []\<rparr>, sent), Inl (adapter_runtime_error e))
      | Inr window \<Rightarrow>
          if listening (length sent) then ((w\<lparr>wn_bytes := []\<rparr>, sent @ [window]), Inr True)
          else ((w\<lparr>wn_bytes := []\<rparr>, sent), Inr False)))))"

text \<open>The timeline of \<open>Windows::accept\<close>, behind the checks and the flush.\<close>

definition windows_advance :: "PcmFormat \<Rightarrow> byte list \<Rightarrow> Windows \<Rightarrow> Windows result" where
  "windows_advance format bytes w =
     (if \<not> wn_timed w
      then Inr (w\<lparr>wn_media_ms := sat_add (wn_media_ms w) (pcm_duration_ms format (length bytes))\<rparr>)
      else (case frame_alignment_bytes format of
              Inl _ \<Rightarrow> Inl (adapter_error ''recording PCM format is invalid'')
            | Inr alignment \<Rightarrow>
                (case checked_add (wn_samples w) (of_nat (length bytes div alignment)) of
                   None \<Rightarrow> Inl (adapter_error ''recording sample count overflowed'')
                 | Some samples \<Rightarrow>
                     (case exact_media_ms samples (pf_sample_rate_hz format) (wn_gap_ms w) of
                        Inl e \<Rightarrow> Inl e
                      | Inr media_ms \<Rightarrow> Inr (w\<lparr>wn_samples := samples, wn_media_ms := media_ms\<rparr>)))))"

definition windows_accept ::
  "(nat \<Rightarrow> bool) \<Rightarrow> PcmFormat \<Rightarrow> byte list \<Rightarrow> delivery \<Rightarrow> delivery \<times> bool result" where
  "windows_accept listening format bytes = (\<lambda>(w, sent).
     if wn_format w \<noteq> None \<and> wn_format w \<noteq> Some format
     then ((w, sent), Inl (adapter_error ''recording capture format changed mid-session''))
     else
       let w = w\<lparr>wn_format := Some format\<rparr> in
       if length bytes > MAX_RECONCILIATION_WINDOW_BYTES
       then ((w, sent), Inl (adapter_error ''recording frame exceeded the window size''))
       else
         try_then
           (if length (wn_bytes w) + length bytes > MAX_RECONCILIATION_WINDOW_BYTES
            then windows_flush listening (w, sent) else ((w, sent), Inr True))
           (\<lambda>(w, sent) open.
              if \<not> open then ((w, sent), Inr False)
              else
                let w = (if wn_bytes w = [] then w\<lparr>wn_started_at_ms := wn_media_ms w\<rparr> else w) in
                (case windows_advance format bytes w of
                   Inl e \<Rightarrow> ((w, sent), Inl e)
                 | Inr w \<Rightarrow> ((w\<lparr>wn_bytes := wn_bytes w @ bytes\<rparr>, sent), Inr True))))"

definition windows_close_gap :: "u64 \<Rightarrow> Windows \<Rightarrow> Windows" where
  "windows_close_gap ended_at_ms w =
     (case wn_gap_opened_at_ms w of
        None \<Rightarrow> w
      | Some opened_at_ms \<Rightarrow>
          let w = w\<lparr>wn_gap_opened_at_ms := None\<rparr>;
              len = sat_sub ended_at_ms opened_at_ms in
          if wn_format w = None then w
          else w\<lparr>wn_gap_ms := (if wn_timed w then sat_add (wn_gap_ms w) len else wn_gap_ms w),
                 wn_media_ms := sat_add (wn_media_ms w) len\<rparr>)"

definition windows_chunk :: "(nat \<Rightarrow> bool) \<Rightarrow> RecordedChunk \<Rightarrow> delivery \<Rightarrow> delivery \<times> bool result" where
  "windows_chunk listening chunk d =
     (case chunk of
        Rec_TimedFrame _ format _ bytes \<Rightarrow> windows_accept listening format bytes d
      | Rec_Frame _ _ rate channels sf bytes \<Rightarrow>
          (case PcmFormat_new rate channels sf of
             Inl _ \<Rightarrow> (d, Inl (adapter_error ''recording frame states an unusable format''))
           | Inr format \<Rightarrow> windows_accept listening format bytes d)
      | Rec_GapStarted at_ms _ \<Rightarrow>
          try_then (windows_flush listening d)
            (\<lambda>(w, sent) delivered. ((w\<lparr>wn_gap_opened_at_ms := Some at_ms\<rparr>, sent), Inr delivered))
      | Rec_GapEnded at_ms \<Rightarrow> ((windows_close_gap at_ms (fst d), snd d), Inr True)
      | Rec_Ended _ \<Rightarrow> windows_flush listening d
      | _ \<Rightarrow> (d, Inr True))"

section \<open>Reading a recording\<close>

text \<open>\<open>cancelled k\<close>: what the cancellation token says at the \<open>k\<close>-th turn of the loop.\<close>

function windows_loop ::
  "Ring \<Rightarrow> (nat \<Rightarrow> bool) \<Rightarrow> (nat \<Rightarrow> bool) \<Rightarrow> nat \<Rightarrow> RecordedChunks \<Rightarrow> delivery \<Rightarrow> MeetingAudioWindow list \<times> bool result" where
  "windows_loop ring listening cancelled k c d =
     (if cancelled k then (snd d, Inr (rc_truncated c))
      else (case next_chunk ring c of
              (c', Inl e) \<Rightarrow> (snd d, Inl e)
            | (c', Inr None) \<Rightarrow>
                (case windows_flush listening d of
                   (d', Inl e) \<Rightarrow> (snd d', Inl e)
                 | (d', Inr _) \<Rightarrow> (snd d', Inr (rc_truncated c')))
            | (c', Inr (Some chunk)) \<Rightarrow>
                (case windows_chunk listening chunk d of
                   (d', Inl e) \<Rightarrow> (snd d', Inl e)
                 | (d', Inr False) \<Rightarrow> (snd d', Inr (rc_truncated c'))
                 | (d', Inr True) \<Rightarrow> windows_loop ring listening cancelled (Suc k) c' d')))"
  by pat_completeness auto
termination
  by (relation "measure (\<lambda>(ring, listening, cancelled, k, c, d). length (rc_remaining c))")
    (auto dest: next_chunk_shorter [OF sym])

declare windows_loop.simps [simp del]

definition read_chunk_windows ::
  "Ring \<Rightarrow> (nat \<Rightarrow> bool) \<Rightarrow> (nat \<Rightarrow> bool) \<Rightarrow> RecordedChunks \<Rightarrow> MeetingAudioWindow list \<times> bool result" where
  "read_chunk_windows ring listening cancelled c =
     windows_loop ring listening cancelled 0 c (Windows_new (is_timed (rc_header c)), [])"

definition read_windows ::
  "Ring \<Rightarrow> (rstring \<Rightarrow> rstring option) \<Rightarrow> (nat \<Rightarrow> bool) \<Rightarrow> (nat \<Rightarrow> bool) \<Rightarrow> byte list \<Rightarrow> rstring \<Rightarrow> SessionId \<Rightarrow>
   MeetingAudioWindow list \<times> bool result" where
  "read_windows ring env listening cancelled file key_env session_id =
     (case open_session_recording ring env file key_env of
        Inl e \<Rightarrow> ([], Inl e)
      | Inr chunks \<Rightarrow>
          if rc_session_id chunks \<noteq> session_id
          then ([], Inl (invalid_state_error ''recording was not made by that session''))
          else read_chunk_windows ring listening cancelled chunks)"

section \<open>Reconciliation\<close>

text \<open>
  The diarizer is a function of the windows it took. \<open>joined\<close>: the blocking tasks finished.
  \<open>cancelled_at\<close> is the token at the three points the finalized path polls it; the reader polls it
  by itself.
\<close>

definition reconcile_recording ::
  "Ring \<Rightarrow> (rstring \<Rightarrow> rstring option) \<Rightarrow> (MeetingAudioWindow list \<Rightarrow> DiarizationResult adapter) \<Rightarrow>
   (nat \<Rightarrow> bool) \<Rightarrow> (nat \<Rightarrow> bool) \<Rightarrow> bool \<Rightarrow> RecordingSettings \<Rightarrow> SessionId \<Rightarrow> rstring \<Rightarrow> byte list option \<Rightarrow>
   DiarizationResult result" where
  "reconcile_recording ring env diarize listening cancelled joined settings session_id handle file =
     (case resolve_recording_handle (rs_directory settings) handle file of
        Inl e \<Rightarrow> Inl e
      | Inr _ \<Rightarrow>
     (let (windows, outcome) =
            read_windows ring env listening cancelled (case file of None \<Rightarrow> [] | Some bs \<Rightarrow> bs)
              (rs_key_env settings) session_id
      in if \<not> joined then Inl (adapter_error ''recording reader did not finish'')
         else (case outcome of
                 Inl e \<Rightarrow> Inl e
               | Inr truncated \<Rightarrow>
                   (case diarize windows of
                      Inl e \<Rightarrow> Inl (adapter_runtime_error e)
                    | Inr r \<Rightarrow> Inr (if truncated then with_warning r RecordingTruncated else r)))))"

definition reconcile_finalized_recording ::
  "Ring \<Rightarrow> (rstring \<Rightarrow> rstring option) \<Rightarrow> (MeetingAudioWindow list \<Rightarrow> DiarizationResult adapter) \<Rightarrow>
   (nat \<Rightarrow> bool) \<Rightarrow> (nat \<Rightarrow> bool) \<Rightarrow> (nat \<Rightarrow> bool) \<Rightarrow> (nat \<Rightarrow> bool) \<Rightarrow> bool \<Rightarrow> RecordingSettings \<Rightarrow>
   FinalizedRecordingCapability \<Rightarrow> stored_file \<Rightarrow> DiarizationResult result" where
  "reconcile_finalized_recording ring env diarize listening cancelled cancelled_at joined snapshot_ok settings
     capability file =
     (if \<not> joined 0 then Inl (adapter_error ''recording preflight did not finish'')
      else
     (case preflight_finalized_recording ring env snapshot_ok (cancelled_at 0) settings capability file of
        Inl e \<Rightarrow> Inl e
      | Inr chunks \<Rightarrow>
          if cancelled_at 1 then Inl (invalid_state_error ''recording recovery was cancelled'')
          else
     (let (windows, outcome) = read_chunk_windows ring listening cancelled chunks
      in if \<not> joined 1 then Inl (adapter_error ''recording reader did not finish'')
         else (case outcome of
                 Inl e \<Rightarrow> Inl e
               | Inr _ \<Rightarrow>
                   if cancelled_at 2 then Inl (invalid_state_error ''recording recovery was cancelled'')
                   else map_sum adapter_runtime_error id (diarize windows)))))"

section \<open>What the windows have to be\<close>

text \<open>
  The frames of a recording as its recorder wrote them: the number of gaps before the frame, the
  recorder's media time when it was written, and its bytes.
\<close>

fun chunk_pcm :: "RecordedChunk \<Rightarrow> byte list option" where
  "chunk_pcm (Rec_TimedFrame _ _ _ bytes) = Some bytes"
| "chunk_pcm (Rec_Frame _ _ _ _ _ bytes) = Some bytes"
| "chunk_pcm _ = None"

fun is_gap :: "RecordedChunk \<Rightarrow> bool" where
  "is_gap (Rec_GapStarted _ _) = True"
| "is_gap _ = False"

fun media_frames :: "bool \<Rightarrow> nat \<Rightarrow> WalkState \<Rightarrow> RecordedChunk list \<Rightarrow> (nat \<times> u64 \<times> byte list) list" where
  "media_frames timed n s [] = []"
| "media_frames timed n s (c # cs) =
     (case walk_step timed s c of
        Inr (Walk_On s') \<Rightarrow>
          (case chunk_pcm c of
             None \<Rightarrow> media_frames timed (if is_gap c then Suc n else n) s' cs
           | Some bytes \<Rightarrow> (n, mt_media_ms (wk_timeline s), bytes) # media_frames timed n s' cs)
      | _ \<Rightarrow> [])"

definition window_of :: "MeetingAudioWindow \<Rightarrow> (nat \<times> u64 \<times> byte list) list \<Rightarrow> bool" where
  "window_of window frames \<longleftrightarrow>
     frames \<noteq> [] \<and> mw_bytes window = concat (map (snd \<circ> snd) frames) \<and>
     mw_started_at_ms window = fst (snd (hd frames)) \<and>
     length (mw_bytes window) \<le> MAX_RECONCILIATION_WINDOW_BYTES \<and>
     list_all (\<lambda>f. fst f = fst (hd frames)) frames"

definition windows_of :: "MeetingAudioWindow list \<Rightarrow> (nat \<times> u64 \<times> byte list) list \<Rightarrow> bool" where
  "windows_of windows frames \<longleftrightarrow> (\<exists>groups. concat groups = frames \<and> list_all2 window_of windows groups)"

section \<open>Lemmas: exact media time\<close>

lemma exact_media_ms_iff:
  "exact_media_ms n rate g = Inr m \<longleftrightarrow>
     rate \<noteq> 0 \<and> unat n * 1000 div unat rate + unat g < 2 ^ 64 \<and> unat m = unat n * 1000 div unat rate + unat g"
  by (auto simp: exact_media_ms_def try_word_def checked_add_def unat_word_ariths unat_of_nat word_unat_eq_iff
      split: if_splits)

lemma project_sample_exact:
  "project_sample origin n = map_sum (\<lambda>_. origin_invalid) id (exact_media_ms n (mo_sample_rate_hz origin) (mo_gap_offset_ms origin))"
  by (simp add: project_sample_def exact_media_ms_def split: option.splits)

lemma project_sample_iff:
  "project_sample origin n = Inr m \<longleftrightarrow>
     mo_sample_rate_hz origin \<noteq> 0 \<and>
     unat n * 1000 div unat (mo_sample_rate_hz origin) + unat (mo_gap_offset_ms origin) < 2 ^ 64 \<and>
     unat m = unat n * 1000 div unat (mo_sample_rate_hz origin) + unat (mo_gap_offset_ms origin)"
  unfolding project_sample_exact exact_media_ms_iff [symmetric]
  by (cases "exact_media_ms n (mo_sample_rate_hz origin) (mo_gap_offset_ms origin)") simp_all

lemma word_of_bound: "n < 2 ^ 64 \<Longrightarrow> \<exists>m :: u64. unat m = n"
  by (rule exI [of _ "of_nat n"]) (simp add: unat_of_nat)

abbreviation alignment_of :: "PcmFormat \<Rightarrow> nat" where
  "alignment_of format \<equiv> unat (pf_channels format) * bytes_per_sample (pf_sample_format format)"

lemma alignment_pos: "pcm_ok format \<Longrightarrow> 0 < alignment_of format"
  by (cases "pf_sample_format format") (auto simp: pcm_ok_def unat_gt_0)

section \<open>Lemmas: the windows follow the recorder's timeline\<close>

text \<open>\<open>pending\<close> are the frames of the window being filled.\<close>

definition exact_pending :: "PcmFormat \<Rightarrow> Windows \<Rightarrow> bool" where
  "exact_pending f w \<longleftrightarrow>
     length (wn_bytes w) div alignment_of f \<le> unat (wn_samples w) \<and>
     unat (wn_started_at_ms w) =
       (unat (wn_samples w) - length (wn_bytes w) div alignment_of f) * 1000 div unat (pf_sample_rate_hz f) + unat (wn_gap_ms w) \<and>
     unat (wn_samples w) * 1000 div unat (pf_sample_rate_hz f) + unat (wn_gap_ms w) < 2 ^ 64"

definition media_exact :: "PcmFormat \<Rightarrow> Windows \<Rightarrow> bool" where
  "media_exact f w \<longleftrightarrow>
     unat (wn_media_ms w) = min (unat (wn_samples w) * 1000 div unat (pf_sample_rate_hz f) + unat (wn_gap_ms w)) (2 ^ 64 - 1)"

definition window_filled :: "bool \<Rightarrow> nat \<Rightarrow> PcmFormat option \<Rightarrow> Windows \<Rightarrow> (nat \<times> u64 \<times> byte list) list \<Rightarrow> bool" where
  "window_filled timed n fmt w pending \<longleftrightarrow>
     wn_bytes w = concat (map (snd \<circ> snd) pending) \<and> length (wn_bytes w) \<le> MAX_RECONCILIATION_WINDOW_BYTES \<and>
     (pending \<noteq> [] \<longrightarrow>
        wn_bytes w \<noteq> [] \<and> wn_started_at_ms w = fst (snd (hd pending)) \<and> list_all (\<lambda>f. fst f = n) pending \<and>
        (\<exists>f. fmt = Some f \<and> (timed \<longrightarrow> exact_pending f w)))"

definition win_rel ::
  "bool \<Rightarrow> nat \<Rightarrow> PcmFormat option \<Rightarrow> u64 option \<Rightarrow> MediaTimeline \<Rightarrow> Windows \<Rightarrow> (nat \<times> u64 \<times> byte list) list \<Rightarrow> bool" where
  "win_rel timed n fmt gap t w pending \<longleftrightarrow>
     wn_timed w = timed \<and> wn_format w = fmt \<and> mt_format t = fmt \<and> wn_media_ms w = mt_media_ms t \<and>
     wn_samples w = mt_timed_samples t \<and> wn_gap_ms w = mt_timed_gap_ms t \<and> wn_gap_opened_at_ms w = gap \<and>
     mt_open_gap_at_ms t = gap \<and> (gap \<noteq> None \<longrightarrow> pending = []) \<and> window_filled timed n fmt w pending \<and>
     (case fmt of
        None \<Rightarrow> wn_media_ms w = 0 \<and> wn_samples w = 0 \<and> wn_gap_ms w = 0
      | Some f \<Rightarrow> pcm_ok f \<and> alignment_of f dvd length (wn_bytes w) \<and> (timed \<longrightarrow> media_exact f w))"

lemma windows_of_snoc: "windows_of ws fs \<Longrightarrow> window_of w g \<Longrightarrow> windows_of (ws @ [w]) (fs @ g)"
  unfolding windows_of_def
proof (elim exE conjE)
  fix gs
  assume "concat gs = fs" "list_all2 window_of ws gs" "window_of w g"
  then show "\<exists>gs. concat gs = fs @ g \<and> list_all2 window_of (ws @ [w]) gs"
    by (intro exI [of _ "gs @ [g]"]) (simp add: list_all2_appendI)
qed

lemma windows_of_Nil [simp]: "windows_of [] []"
  by (auto simp: windows_of_def)

lemma flush_window:
  assumes "win_rel timed n (Some f) gap t w p" "p \<noteq> []"
  shows "\<exists>origin window. window_origin w f = Inr origin \<and>
     (case origin of Some origin \<Rightarrow> new_with_sample_origin f origin (wn_bytes w)
      | None \<Rightarrow> MeetingAudioWindow_new f (wn_started_at_ms w) (wn_bytes w)) = Inr window \<and>
     mw_bytes window = wn_bytes w \<and> mw_started_at_ms window = wn_started_at_ms w"
proof -
  have r: "wn_timed w = timed" "pcm_ok f" "alignment_of f dvd length (wn_bytes w)" "wn_bytes w \<noteq> []"
    "length (wn_bytes w) \<le> 1024 * 1024" "timed \<longrightarrow> exact_pending f w"
    using assms by (auto simp: win_rel_def window_filled_def MAX_RECONCILIATION_WINDOW_BYTES_def)
  have plain: "MeetingAudioWindow_new f a (wn_bytes w) =
      Inr \<lparr>mw_format = f, mw_started_at_ms = a, mw_sample_origin = None, mw_bytes = wn_bytes w\<rparr>" for a
    using r by (simp add: MeetingAudioWindow_new_def frame_alignment_ok)
  show ?thesis
  proof (cases timed)
    case False
    then show ?thesis using r(1) plain by (simp add: window_origin_def)
  next
    case True
    let ?k = "length (wn_bytes w) div alignment_of f"
    have k: "?k \<le> 1024 * 1024" using r(5) by (meson div_le_dividend le_trans)
    then have uk: "unat (of_nat ?k :: u64) = ?k" by (simp add: unat_of_nat)
    have e: "exact_pending f w" using r(6) True by simp
    define start where "start = wn_samples w - of_nat ?k"
    have le: "of_nat ?k \<le> wn_samples w" using e uk by (simp add: exact_pending_def word_le_nat_alt)
    then have us: "unat start = unat (wn_samples w) - ?k" unfolding start_def using uk by (simp add: unat_sub)
    have sum: "unat start + ?k = unat (wn_samples w)" using us e by (simp add: exact_pending_def)
    then have add: "checked_add start (of_nat ?k) = Some (wn_samples w)"
      using uk unsigned_less [of "wn_samples w", where 'a = nat] by (simp add: checked_add_def start_def)
    let ?o = "\<lparr>mo_media_start_sample = start, mo_sample_rate_hz = pf_sample_rate_hz f, mo_gap_offset_ms = wn_gap_ms w\<rparr>"
    have rate: "pf_sample_rate_hz f \<noteq> 0" using r(2) by (simp add: pcm_ok_def)
    have mono: "unat start * 1000 div unat (pf_sample_rate_hz f) \<le> unat (wn_samples w) * 1000 div unat (pf_sample_rate_hz f)"
      by (rule div_le_mono) (simp add: us)
    have p1: "project_sample ?o start = Inr (wn_started_at_ms w)"
      using e rate us mono by (simp add: project_sample_iff exact_pending_def)
    have p2: "\<exists>m. project_sample ?o (wn_samples w) = Inr m"
      using e rate word_of_bound unfolding project_sample_iff exact_pending_def MediaSampleOrigin.select_convs by blast
    have "window_origin w f = Inr (Some ?o)"
      using True r(1) le p1 by (simp add: window_origin_def frame_alignment_ok checked_sub_def start_def [symmetric] MediaSampleOrigin_new_def)
    moreover have "new_with_sample_origin f ?o (wn_bytes w) =
        Inr \<lparr>mw_format = f, mw_started_at_ms = wn_started_at_ms w, mw_sample_origin = Some ?o, mw_bytes = wn_bytes w\<rparr>"
      using p1 p2 plain add k by (auto simp: new_with_sample_origin_def frame_alignment_ok try_word_def)
    ultimately show ?thesis by simp
  qed
qed

lemma flush_rel:
  assumes "win_rel timed n fmt gap t w p" "windows_of sent done" "\<forall>k. listening k"
  shows "\<exists>sent' done'. windows_flush listening (w, sent) = ((w\<lparr>wn_bytes := []\<rparr>, sent'), Inr True) \<and>
     windows_of sent' done' \<and> done' = done @ p \<and> win_rel timed n' fmt gap t (w\<lparr>wn_bytes := []\<rparr>) []"
proof -
  have rel: "win_rel timed n' fmt gap t (w\<lparr>wn_bytes := []\<rparr>) []"
    using assms(1) by (auto simp: win_rel_def window_filled_def media_exact_def split: option.splits)
  show ?thesis
  proof (cases "p = []")
    case True
    then have "wn_bytes w = []" using assms(1) by (simp add: win_rel_def window_filled_def)
    then show ?thesis using assms(2) rel True by (simp add: windows_flush_def)
  next
    case False
    then obtain f where f: "fmt = Some f" using assms(1) by (auto simp: win_rel_def window_filled_def)
    obtain origin window where o: "window_origin w f = Inr origin"
      "(case origin of Some origin \<Rightarrow> new_with_sample_origin f origin (wn_bytes w)
        | None \<Rightarrow> MeetingAudioWindow_new f (wn_started_at_ms w) (wn_bytes w)) = Inr window"
      "mw_bytes window = wn_bytes w" "mw_started_at_ms window = wn_started_at_ms w"
      using flush_window [OF assms(1) [unfolded f] False] by blast
    have w: "wn_bytes w \<noteq> []" "wn_format w = Some f" "window_of window p"
      using assms(1) False o(3,4) f by (auto simp: win_rel_def window_filled_def window_of_def list_all_iff)
    then have "windows_flush listening (w, sent) = ((w\<lparr>wn_bytes := []\<rparr>, sent @ [window]), Inr True)"
      using o(1,2) assms(3) by (simp add: windows_flush_def)
    then show ?thesis using windows_of_snoc [OF assms(2) w(3)] rel by blast
  qed
qed

lemma frame_advances:
  assumes rel: "win_rel timed n (Some f) None t w p" and "length b \<le> MAX_RECONCILIATION_WINDOW_BYTES"
    and "if timed then timeline_timed_frame f (length b) t = Inr t' else t' = timeline_frame f (length b) t"
  shows "windows_advance f b w = Inr (w\<lparr>wn_samples := mt_timed_samples t', wn_media_ms := mt_media_ms t'\<rparr>)
     \<and> mt_format t' = Some f \<and> mt_timed_gap_ms t' = mt_timed_gap_ms t \<and> mt_open_gap_at_ms t' = None \<and>
     (timed \<longrightarrow> unat (mt_timed_samples t') = unat (mt_timed_samples t) + length b div alignment_of f \<and>
        unat (mt_timed_samples t') * 1000 div unat (pf_sample_rate_hz f) + unat (mt_timed_gap_ms t) < 2 ^ 64 \<and>
        unat (mt_media_ms t') = unat (mt_timed_samples t') * 1000 div unat (pf_sample_rate_hz f) + unat (mt_timed_gap_ms t))"
proof (cases timed)
  case False
  then show ?thesis using assms
    by (simp add: win_rel_def windows_advance_def timeline_frame_def)
next
  case True
  have f: "pcm_ok f" "wn_samples w = mt_timed_samples t" "wn_gap_ms w = mt_timed_gap_ms t" "wn_timed w" "mt_open_gap_at_ms t = None"
    using rel True by (simp_all add: win_rel_def)
  have k: "length b div alignment_of f < 2 ^ 64"
    using assms(2) le_less_trans [OF div_le_dividend, of "length b" "2 ^ 64" "alignment_of f"]
    by (simp add: MAX_RECONCILIATION_WINDOW_BYTES_def)
  then have uk: "unat (of_nat (length b div alignment_of f) :: u64) = length b div alignment_of f"
    by (simp add: unat_of_nat)
  from assms(3) True f(1) k obtain samples media where
    a: "checked_add (mt_timed_samples t) (of_nat (length b div alignment_of f)) = Some samples"
    and m: "exact_media_ms samples (pf_sample_rate_hz f) (mt_timed_gap_ms t) = Inr media"
    and t: "t' = t\<lparr>mt_media_ms := media, mt_timed_samples := samples, mt_format := Some f\<rparr>"
    by (auto simp: timeline_timed_frame_def frame_alignment_ok try_word_def split: option.splits sum.splits)
  have "unat samples = unat (mt_timed_samples t) + length b div alignment_of f"
    using a uk by (auto simp: checked_add_def unat_word_ariths split: if_splits)
  then show ?thesis using True f a m t m [unfolded exact_media_ms_iff]
    by (simp add: windows_advance_def frame_alignment_ok)
qed

lemma exact_start:
  assumes "media_exact f w" "unat samples = unat (wn_samples w) + k"
    and "unat samples * 1000 div unat (pf_sample_rate_hz f) + unat (wn_gap_ms w) < 2 ^ 64"
  shows "unat (wn_media_ms w) = unat (wn_samples w) * 1000 div unat (pf_sample_rate_hz f) + unat (wn_gap_ms w)"
proof -
  have "unat (wn_samples w) * 1000 div unat (pf_sample_rate_hz f) \<le> unat samples * 1000 div unat (pf_sample_rate_hz f)"
    by (rule div_le_mono) (simp add: assms(2))
  then show ?thesis using assms(1,3) by (simp add: media_exact_def)
qed

lemma frame_fills:
  assumes rel: "win_rel timed n (Some f) None t w p"
    and b: "b \<noteq> []" "alignment_of f dvd length b" "length (wn_bytes w) + length b \<le> MAX_RECONCILIATION_WINDOW_BYTES"
    and t': "if timed then timeline_timed_frame f (length b) t = Inr t' else t' = timeline_frame f (length b) t"
  defines "w1 \<equiv> if wn_bytes w = [] then w\<lparr>wn_started_at_ms := wn_media_ms w\<rparr> else w"
  shows "\<exists>w'. windows_advance f b w1 = Inr w' \<and>
     win_rel timed n (Some f) None t' (w'\<lparr>wn_bytes := wn_bytes w' @ b\<rparr>) (p @ [(n, mt_media_ms t, b)])"
proof -
  have rel1: "win_rel timed n (Some f) None t w1 p" and w1: "p = [] \<longleftrightarrow> wn_bytes w1 = []" "wn_bytes w1 = wn_bytes w"
    "p = [] \<Longrightarrow> wn_started_at_ms w1 = mt_media_ms t"
    using rel unfolding w1_def win_rel_def window_filled_def by (auto simp: media_exact_def)
  define w' where "w' = w1\<lparr>wn_samples := mt_timed_samples t', wn_media_ms := mt_media_ms t'\<rparr>"
  have len: "length b \<le> MAX_RECONCILIATION_WINDOW_BYTES" using b(3) by simp
  note adv = frame_advances [OF rel1 len t']
  have w1': "wn_samples w1 = mt_timed_samples t" "wn_gap_ms w1 = mt_timed_gap_ms t" "wn_media_ms w1 = mt_media_ms t"
    "alignment_of f dvd length (wn_bytes w1)" "pcm_ok f"
    using rel1 by (simp_all add: win_rel_def)
  have ex: "exact_pending f (w'\<lparr>wn_bytes := wn_bytes w' @ b\<rparr>) \<and> media_exact f w'" if timed
  proof -
    let ?k = "length b div alignment_of f"
    have s: "unat (mt_timed_samples t') = unat (wn_samples w1) + ?k"
      "unat (mt_timed_samples t') * 1000 div unat (pf_sample_rate_hz f) + unat (wn_gap_ms w1) < 2 ^ 64"
      "unat (mt_media_ms t') = unat (mt_timed_samples t') * 1000 div unat (pf_sample_rate_hz f) + unat (wn_gap_ms w1)"
      using adv that unfolding w1'(1,2) by blast+
    have me: "media_exact f w1" and pe: "p \<noteq> [] \<Longrightarrow> exact_pending f w1"
      using rel1 that by (auto simp: win_rel_def window_filled_def)
    have st: "unat (wn_media_ms w1) = unat (wn_samples w1) * 1000 div unat (pf_sample_rate_hz f) + unat (wn_gap_ms w1)"
      using exact_start [OF me s(1,2)] .
    have d: "length (wn_bytes w1 @ b) div alignment_of f = length (wn_bytes w1) div alignment_of f + ?k"
      using w1'(4) by (simp add: div_plus_div_distrib_dvd_left)
    have "exact_pending f (w'\<lparr>wn_bytes := wn_bytes w' @ b\<rparr>)"
      using s st pe w1(1,3) w1' d by (cases "p = []") (auto simp: exact_pending_def w'_def)
    then show ?thesis using s by (simp add: media_exact_def w'_def)
  qed
  have "win_rel timed n (Some f) None t' (w'\<lparr>wn_bytes := wn_bytes w' @ b\<rparr>) (p @ [(n, mt_media_ms t, b)])"
    using rel1 adv ex b w1 w1' unfolding win_rel_def window_filled_def w'_def
    by (auto simp: media_exact_def hd_append)
  then show ?thesis using adv unfolding w'_def by blast
qed

lemma set_format_rel:
  assumes "win_rel timed n fmt None t w p" "fmt = None \<or> fmt = Some f" "pcm_ok f"
  shows "win_rel timed n (Some f) None (t\<lparr>mt_format := Some f\<rparr>) (w\<lparr>wn_format := Some f\<rparr>) p"
proof -
  have "fmt = None \<Longrightarrow> p = []" using assms(1) by (auto simp: win_rel_def window_filled_def)
  then show ?thesis using assms
    by (auto simp: win_rel_def window_filled_def media_exact_def exact_pending_def)
qed

lemma timeline_set_format [simp]:
  "timeline_timed_frame f k (t\<lparr>mt_format := g\<rparr>) = timeline_timed_frame f k t"
  "timeline_frame f k (t\<lparr>mt_format := g\<rparr>) = timeline_frame f k t"
  by (simp_all add: timeline_timed_frame_def timeline_frame_def split: sum.splits option.splits)

text \<open>What a delivery leaves: the windows sent hold the frames \<open>all\<close> but those still pending.\<close>

definition delivered ::
  "bool \<Rightarrow> nat \<Rightarrow> WalkState \<Rightarrow> delivery \<Rightarrow> (nat \<times> u64 \<times> byte list) list \<Rightarrow> bool" where
  "delivered timed n s d all \<longleftrightarrow>
     (\<exists>sent_frames pending. all = sent_frames @ pending \<and> windows_of (snd d) sent_frames \<and>
        win_rel timed n (wk_format s) (wk_gap s) (wk_timeline s) (fst d) pending)"

lemma delivered_validation [simp]: "delivered timed n (s\<lparr>wk_validation := v\<rparr>) d all = delivered timed n s d all"
  by (simp add: delivered_def)

lemma delivered_flushed:
  "windows_of sent all \<Longrightarrow> win_rel timed n (wk_format s) (wk_gap s) (wk_timeline s) w [] \<Longrightarrow> delivered timed n s (w, sent) all"
  unfolding delivered_def by (intro exI [of _ all] exI [of _ "[]"]) simp

lemma accept_delivers:
  assumes d: "delivered timed n s (w, sent) all" and "wk_gap s = None" "\<not> format_differs s f" "pcm_ok f"
    and b: "b \<noteq> []" "alignment_of f dvd length b" "length b \<le> MAX_RECONCILIATION_WINDOW_BYTES"
    and t': "if timed then timeline_timed_frame f (length b) (wk_timeline s) = Inr t'
             else t' = timeline_frame f (length b) (wk_timeline s)"
    and s': "wk_format s' = Some f" "wk_gap s' = None" "wk_timeline s' = t'"
    and listening: "\<forall>k. listening k"
  shows "\<exists>d'. windows_accept listening f b (w, sent) = (d', Inr True) \<and>
     delivered timed n s' d' (all @ [(n, mt_media_ms (wk_timeline s), b)])"
proof -
  obtain sf p where p: "all = sf @ p" "windows_of sent sf" "win_rel timed n (wk_format s) None (wk_timeline s) w p"
    using d assms(2) by (auto simp: delivered_def)
  let ?t = "wk_timeline s\<lparr>mt_format := Some f\<rparr>" and ?w = "w\<lparr>wn_format := Some f\<rparr>"
  have fmt: "wk_format s = None \<or> wk_format s = Some f" using assms(3) by (auto simp: format_differs_def split: option.splits)
  have same: "\<not> (wn_format w \<noteq> None \<and> wn_format w \<noteq> Some f)" using fmt p(3) by (auto simp: win_rel_def)
  have rel: "win_rel timed n (Some f) None ?t ?w p" using set_format_rel [OF p(3) fmt assms(4)] .
  have t'': "if timed then timeline_timed_frame f (length b) ?t = Inr t' else t' = timeline_frame f (length b) ?t"
    using t' by simp
  have "\<exists>w1 sent1 sf1 p1.
      (if length (wn_bytes ?w) + length b > MAX_RECONCILIATION_WINDOW_BYTES
       then windows_flush listening (?w, sent) else ((?w, sent), Inr True)) = ((w1, sent1), Inr True) \<and>
      all = sf1 @ p1 \<and> windows_of sent1 sf1 \<and> win_rel timed n (Some f) None ?t w1 p1 \<and>
      length (wn_bytes w1) + length b \<le> MAX_RECONCILIATION_WINDOW_BYTES"
  proof (cases "length (wn_bytes ?w) + length b > MAX_RECONCILIATION_WINDOW_BYTES")
    case True
    obtain sent1 sf1 where "windows_flush listening (?w, sent) = ((?w\<lparr>wn_bytes := []\<rparr>, sent1), Inr True)"
      "windows_of sent1 sf1" "sf1 = sf @ p" "win_rel timed n (Some f) None ?t (?w\<lparr>wn_bytes := []\<rparr>) []"
      using flush_rel [OF rel p(2) listening, where n' = n] by blast
    then show ?thesis using True p(1) b(3) by (intro exI [of _ "?w\<lparr>wn_bytes := []\<rparr>"] exI [of _ sent1]) auto
  next
    case False
    then show ?thesis using p rel by (intro exI [of _ ?w] exI [of _ sent]) auto
  qed
  then obtain w1 sent1 sf1 p1 where f1:
      "(if length (wn_bytes ?w) + length b > MAX_RECONCILIATION_WINDOW_BYTES
        then windows_flush listening (?w, sent) else ((?w, sent), Inr True)) = ((w1, sent1), Inr True)"
    and p1: "all = sf1 @ p1" "windows_of sent1 sf1" "win_rel timed n (Some f) None ?t w1 p1"
      "length (wn_bytes w1) + length b \<le> MAX_RECONCILIATION_WINDOW_BYTES"
    by blast
  obtain w' where w': "windows_advance f b (if wn_bytes w1 = [] then w1\<lparr>wn_started_at_ms := wn_media_ms w1\<rparr> else w1) = Inr w'"
    "win_rel timed n (Some f) None t' (w'\<lparr>wn_bytes := wn_bytes w' @ b\<rparr>) (p1 @ [(n, mt_media_ms ?t, b)])"
    using frame_fills [OF p1(3) b(1,2) p1(4) t''] by blast
  have "windows_accept listening f b (w, sent) = ((w'\<lparr>wn_bytes := wn_bytes w' @ b\<rparr>, sent1), Inr True)"
    unfolding windows_accept_def prod.case if_not_P [OF same] Let_def f1
    using w'(1) b(3) by (simp add: try_then_def)
  moreover have "delivered timed n s' (w'\<lparr>wn_bytes := wn_bytes w' @ b\<rparr>, sent1) (all @ [(n, mt_media_ms (wk_timeline s), b)])"
    unfolding delivered_def s' using p1(1,2) w'(2)
    by (intro exI [of _ sf1] exI [of _ "p1 @ [(n, mt_media_ms (wk_timeline s), b)]"]) simp
  ultimately show ?thesis by blast
qed

lemma flush_delivers:
  assumes d: "delivered timed n s d all" and listening: "\<forall>k. listening k"
  shows "\<exists>w' sent'. windows_flush listening d = ((w', sent'), Inr True) \<and> windows_of sent' all \<and>
     win_rel timed n' (wk_format s) (wk_gap s) (wk_timeline s) w' []"
proof -
  obtain w sent where wd: "d = (w, sent)" by force
  then obtain sf p where p: "all = sf @ p" "windows_of sent sf" "win_rel timed n (wk_format s) (wk_gap s) (wk_timeline s) w p"
    using d by (auto simp: delivered_def)
  show ?thesis using flush_rel [OF p(3,2) listening] wd p(1) by blast
qed

lemma gap_ended_rel:
  assumes rel: "win_rel timed n fmt (Some g) t w p" and "timeline_gap_ended at timed t = Inr t'"
  shows "win_rel timed n fmt None t' (windows_close_gap at w) p"
proof -
  have p: "p = []" "wn_bytes w = []" and opened: "wn_gap_opened_at_ms w = Some g" "mt_open_gap_at_ms t = Some g"
    using rel by (auto simp: win_rel_def window_filled_def)
  show ?thesis
  proof (cases fmt)
    case None
    then show ?thesis using assms p opened
      by (auto simp: win_rel_def window_filled_def timeline_gap_ended_def windows_close_gap_def Let_def)
  next
    case (Some f)
    show ?thesis
    proof (cases timed)
      case False
      then show ?thesis using assms p opened Some
        by (auto simp: win_rel_def window_filled_def timeline_gap_ended_def windows_close_gap_def Let_def)
    next
      case True
      with assms(2) opened Some rel obtain gap where gap: "checked_add (mt_timed_gap_ms t) (sat_sub at g) = Some gap"
        by (auto simp: timeline_gap_ended_def win_rel_def Let_def split: option.splits)
      have sg: "sat_add (mt_timed_gap_ms t) (sat_sub at g) = gap" using gap by (simp add: sat_add_eq_checked)
      have ug: "unat gap = unat (mt_timed_gap_ms t) + unat (sat_sub at g)" by (rule unat_checked_add [OF gap])
      then show ?thesis using assms p opened Some True gap sg
        by (auto simp: win_rel_def window_filled_def timeline_gap_ended_def windows_close_gap_def Let_def media_exact_def unat_sat_add)
    qed
  qed
qed

lemma step_delivers:
  assumes d: "delivered timed n s d all" and step: "walk_step timed s c = Inr (Walk_On s')"
    and c: "chunk_ok c" "kind_ok timed c" "\<And>b. chunk_pcm c = Some b \<Longrightarrow> length b \<le> MAX_RECONCILIATION_WINDOW_BYTES"
    and listening: "\<forall>k. listening k"
  shows "\<exists>d'. windows_chunk listening c d = (d', Inr True) \<and>
     delivered timed (if is_gap c then Suc n else n) s' d'
       (all @ (case chunk_pcm c of None \<Rightarrow> [] | Some b \<Rightarrow> [(n, mt_media_ms (wk_timeline s), b)]))"
proof -
  obtain w sent where wd: "d = (w, sent)" by force
  note split = sum.splits if_splits
  show ?thesis
  proof (cases c)
    case (Rec_TimedFrame at f timing b)
    then obtain t where t: "timeline_timed_frame f (length b) (wk_timeline s) = Inr t" "wk_gap s = None" "\<not> format_differs s f"
      and s': "wk_format s' = Some f" "wk_gap s' = None" "wk_timeline s' = t" and timed
      using step c(2) by (auto simp: walk_step_def walk_at_def format_differs_def Let_def split: split)
    then show ?thesis
      using accept_delivers [OF d [unfolded wd] t(2,3) _ _ _ _ _ s' listening, of b] c Rec_TimedFrame
      by (simp add: windows_chunk_def wd)
  next
    case (Rec_Frame at sq rate ch sf b)
    then obtain f where f: "PcmFormat_new rate ch sf = Inr f" by (cases "PcmFormat_new rate ch sf") (use step in \<open>auto simp: walk_step_def split: split\<close>)
    then have ok: "pcm_ok f" unfolding PcmFormat_new_iff by blast
    have t: "wk_gap s = None" "\<not> format_differs s f" "b \<noteq> []" "alignment_of f dvd length b" "\<not> timed"
      and s': "wk_format s' = Some f" "wk_gap s' = None" "wk_timeline s' = timeline_frame f (length b) (wk_timeline s)"
      using step Rec_Frame f c(2) by (auto simp: walk_step_def walk_at_def format_differs_def Let_def frame_alignment_ok split: split)
    then show ?thesis
      using accept_delivers [OF d [unfolded wd] t(1,2) ok t(3,4) _ _ s' listening] c Rec_Frame f
      by (simp add: windows_chunk_def wd)
  next
    case (Rec_GapStarted at reason)
    then have s': "wk_format s' = wk_format s" "wk_gap s' = Some at" "wk_timeline s' = timeline_gap_started at (wk_timeline s)"
      using step by (auto simp: walk_step_def walk_at_def Let_def split: split)
    obtain w' sent' where f: "windows_flush listening d = ((w', sent'), Inr True)" "windows_of sent' all"
      "win_rel timed (Suc n) (wk_format s) (wk_gap s) (wk_timeline s) w' []"
      using flush_delivers [OF d listening] by blast
    have "win_rel timed (Suc n) (wk_format s') (wk_gap s') (wk_timeline s') (w'\<lparr>wn_gap_opened_at_ms := Some at\<rparr>) []"
      using f(3) by (auto simp: s' win_rel_def window_filled_def media_exact_def timeline_gap_started_def split: option.splits)
    then show ?thesis using f(1,2) Rec_GapStarted by (auto simp: windows_chunk_def try_then_def delivered_def)
  next
    case (Rec_GapEnded at)
    then obtain g t where g: "wk_gap s = Some g" "timeline_gap_ended at timed (wk_timeline s) = Inr t"
      and s': "wk_format s' = wk_format s" "wk_gap s' = None" "wk_timeline s' = t"
      using step by (auto simp: walk_step_def walk_at_def Let_def split: split)
    then have "delivered timed n s' (windows_close_gap at w, sent) all"
      using d gap_ended_rel [OF _ g(2)] unfolding delivered_def wd s' g(1) fst_conv snd_conv by blast
    then show ?thesis using Rec_GapEnded by (simp add: windows_chunk_def wd)
  next
    case (Rec_Ended at)
    then have s': "wk_format s' = wk_format s" "wk_gap s' = wk_gap s" "wk_timeline s' = wk_timeline s"
      using step by (auto simp: walk_step_def walk_at_def Let_def split: split)
    show ?thesis using flush_delivers [OF d listening, where n' = n] Rec_Ended
      by (auto simp: windows_chunk_def s' intro!: delivered_flushed)
  qed (use d step in \<open>auto simp: walk_step_def windows_chunk_def Let_def split: split\<close>)
qed

text \<open>An AEAD does not shrink what it seals; this bounds a plain frame by the chunk limit.\<close>

definition seal_grows :: "Ring \<Rightarrow> bool" where
  "seal_grows ring \<longleftrightarrow> (\<forall>k n a p c. ring_seal ring k n a p = Some c \<longrightarrow> length p \<le> length c)"

lemma sealed_frame_bound:
  assumes "sealed_chunk ring key header n c ct n'" "seal_grows ring" "chunk_pcm c = Some b"
  shows "length b \<le> MAX_RECONCILIATION_WINDOW_BYTES"
proof -
  have "length (record_of c) \<le> length ct" "length ct \<le> MAX_CHUNK_CIPHERTEXT_BYTES" "chunk_ok c"
    using assms(1,2) by (auto simp: sealed_chunk_def seal_grows_def)
  then show ?thesis using assms(3)
    by (cases c) (auto simp: MAX_RECONCILIATION_WINDOW_BYTES_def MAX_CHUNK_CIPHERTEXT_BYTES_def MAX_PCM_FRAME_BYTES_def)
qed

lemma windows_loop_stream:
  assumes "sealed_stream ring (rk_key (rc_key c)) (rc_header c) (rc_counter c) cs bs m" "aead_ok ring" "seal_grows ring"
    and "rc_remaining c = bs" "\<not> rc_finished c" "\<not> rc_truncated c"
    and "walk_all (is_timed (rc_header c)) s cs = Inr (Walk_On s')"
    and "delivered (is_timed (rc_header c)) n s d all" "\<forall>k. listening k" "\<forall>k. \<not> cancelled k"
  shows "\<exists>ws. windows_loop ring listening cancelled k c d = (ws, Inr False) \<and>
     windows_of ws (all @ media_frames (is_timed (rc_header c)) n s cs)"
  using assms
proof (induction cs arbitrary: c s bs n d all k)
  case Nil
  then have "bs = []" by (auto elim: sealed_stream_NilE)
  then have "\<exists>c'. next_chunk ring c = (c', Inr None) \<and> \<not> rc_truncated c'"
    using Nil.prems by (simp add: next_chunk_def fill_def Let_def)
  moreover have "\<exists>w' sent'. windows_flush listening d = ((w', sent'), Inr True) \<and> windows_of sent' all"
    using flush_delivers [OF Nil.prems(8,9)] by blast
  ultimately show ?case using Nil.prems by (subst windows_loop.simps) auto
next
  case (Cons x cs)
  from Cons.prems(1) obtain ct n' rest where
    x: "sealed_chunk ring (rk_key (rc_key c)) (rc_header c) (rc_counter c) x ct n'"
    and rest: "sealed_stream ring (rk_key (rc_key c)) (rc_header c) n' cs rest m"
    and bs: "bs = u32_to_be (of_nat (length ct)) @ ct @ rest"
    by (auto elim: sealed_stream_ConsE)
  define c1 where "c1 = c\<lparr>rc_remaining := rest, rc_counter := n'\<rparr>"
  have step: "next_chunk ring c = (c1, Inr (Some x))"
    unfolding c1_def using Cons.prems x bs by (intro next_chunk_sealed) simp_all
  from Cons.prems(7) obtain s1 where s1: "walk_step (is_timed (rc_header c)) s x = Inr (Walk_On s1)"
    "walk_all (is_timed (rc_header c)) s1 cs = Inr (Walk_On s')"
    by (auto split: sum.splits walk_outcome.splits)
  have ok: "chunk_ok x" "kind_ok (is_timed (rc_header c)) x" using x by (simp_all add: sealed_chunk_def)
  let ?f = "case chunk_pcm x of None \<Rightarrow> [] | Some b \<Rightarrow> [(n, mt_media_ms (wk_timeline s), b)]"
  obtain d1 where d1: "windows_chunk listening x d = (d1, Inr True)"
    "delivered (is_timed (rc_header c)) (if is_gap x then Suc n else n) s1 d1 (all @ ?f)"
    using step_delivers [OF Cons.prems(8) s1(1) ok sealed_frame_bound [OF x Cons.prems(3)] Cons.prems(9)] by blast
  have "\<exists>ws. windows_loop ring listening cancelled (Suc k) c1 d1 = (ws, Inr False) \<and>
      windows_of ws ((all @ ?f) @ media_frames (is_timed (rc_header c1)) (if is_gap x then Suc n else n) s1 cs)"
    using Cons.prems s1(2) rest d1(2) by (intro Cons.IH) (simp_all add: c1_def)
  moreover have "windows_loop ring listening cancelled k c d = windows_loop ring listening cancelled (Suc k) c1 d1"
    using Cons.prems(10) by (subst windows_loop.simps) (simp add: step d1(1))
  moreover have "media_frames (is_timed (rc_header c)) n s (x # cs) =
      ?f @ media_frames (is_timed (rc_header c)) (if is_gap x then Suc n else n) s1 cs"
    using s1(1) by (cases x) simp_all
  ultimately show ?case by (simp add: c1_def)
qed

lemma windows_bytes: "windows_of ws fs \<Longrightarrow> concat (map mw_bytes ws) = concat (map (snd \<circ> snd) fs)"
  unfolding windows_of_def
proof (elim exE conjE)
  fix gs
  assume "concat gs = fs" "list_all2 window_of ws gs"
  from this(2) have "concat (map mw_bytes ws) = concat (map (snd \<circ> snd) (concat gs))"
    by (induction rule: list_all2_induct) (simp_all add: window_of_def comp_def)
  then show "concat (map mw_bytes ws) = concat (map (snd \<circ> snd) fs)" using \<open>concat gs = fs\<close> by simp
qed

lemma media_frames_bytes:
  "walk_all timed s cs = Inr (Walk_On s') \<Longrightarrow>
   concat (map (snd \<circ> snd) (media_frames timed n s cs)) = concat (List.map_filter chunk_pcm cs)"
  by (induction timed n s cs rule: media_frames.induct)
    (auto simp: map_filter_simps split: sum.splits walk_outcome.splits option.splits)

section \<open>Recovered recordings are handed over whole\<close>

text \<open>
  C7: Reconciling a finalized recording shows the diarizer exactly what the recorder heard. For a
  recording started, run and finalized as any successful sequence of operations leaves it, recovery
  under its capability, with nothing cancelled, cuts the recording into consecutive windows: their
  frames, in order, are all the frames of the recording as its reader returns them; a window starts
  at the recorder's own media time of its first frame (gaps and, for timed recordings, exact samples
  included), holds at most the window limit, and never spans a gap. What the diarizer answers on
  these windows is the answer. Assumed besides the clock, the store and the authentication of the
  recording: sealing never shrinks a chunk.
\<close>

theorem recovery_hands_over_the_recording:
  assumes "start_any ring w env (Some (binding, salt)) created settings session timed = Inr r0"
    and "length salt = 8" "length binding = 16"
    and "recorder_run ring w ops r0 = (r, Inr ())" "list_all op_ok ops"
    and "finalize_with_capability ring w r = (r', Inr (summary, capability))"
    and "clock_ok w" "\<And>d. w_reread w d = Some d" "aead_ok ring" "\<And>k m. length (ring_hmac ring k m) = 32"
    and "seal_grows ring"
  shows "\<exists>cs ws.
    read_session_recording ring env (sr_disk r') (rs_key_env settings)
      = Inr \<lparr>rn_session_id = session, rn_chunks = cs, rn_truncated = False\<rparr> \<and>
    windows_of ws (media_frames timed 0 WalkState_new cs) \<and>
    concat (map mw_bytes ws) = concat (List.map_filter chunk_pcm cs) \<and>
    reconcile_finalized_recording ring env diarize (\<lambda>_. True) (\<lambda>_. False) (\<lambda>_. False) (\<lambda>_. True) True settings
      capability (File_Bytes (sr_disk r')) = map_sum adapter_runtime_error id (diarize ws)"
proof -
  obtain cs last_at r1 where r1: "sim ring w r1 cs (sr_format r1) last_at" "sr_disk r' = sr_disk r1"
      "from_environment ring env (rs_key_env settings) = Inr (sr_key r1)"
      "sr_header r1 = make_header timed session salt binding"
    and pre: "preflight_finalized_recording ring env True False settings capability (File_Bytes (sr_disk r'))
      = Inr (snapshot_of (sr_key r1) r1)"
    using finalized_recorder [OF assms(1-10)] by blast
  note h = header_facts [OF assms(2,3), of timed session]
  have read: "read_session_recording ring env (sr_disk r') (rs_key_env settings)
      = Inr \<lparr>rn_session_id = session, rn_chunks = cs, rn_truncated = False\<rparr>"
    using read_whole_recording [OF r1(1,3) _ assms(9)] h(2) r1(2,4) by simp
  obtain bs where d: "sr_disk r1 = sr_header r1 @ bs" "length (sr_header r1) = 48"
    "sealed_stream ring (rk_key (sr_key r1)) (sr_header r1) 0 cs bs (sr_counter r1)"
    and walk: "walk_all (is_timed (sr_header r1)) WalkState_new cs = Inr (Walk_On (walk_view (sr_format r1) last_at r1))"
    using r1(1) by (auto simp: sim_def disk_ok_def)
  let ?c = "snapshot_of (sr_key r1) r1" and ?t = "is_timed (sr_header r1)"
  have first: "delivered ?t 0 WalkState_new (Windows_new ?t, []) []"
    by (rule delivered_flushed)
      (simp_all add: win_rel_def window_filled_def Windows_new_def WalkState_new_def MediaTimeline_default_def)
  obtain ws where ws: "read_chunk_windows ring (\<lambda>_. True) (\<lambda>_. False) ?c = (ws, Inr False)"
    "windows_of ws (media_frames ?t 0 WalkState_new cs)"
    using windows_loop_stream [of ring ?c cs bs "sr_counter r1" WalkState_new "walk_view (sr_format r1) last_at r1" 0
        "(Windows_new ?t, [])" "[]" "\<lambda>_. True" "\<lambda>_. False" 0] d walk first assms(9,11)
    by (auto simp: read_chunk_windows_def snapshot_of_def)
  have t: "?t = timed" using h r1(4) by simp
  have "concat (map mw_bytes ws) = concat (List.map_filter chunk_pcm cs)"
    using windows_bytes [OF ws(2)] media_frames_bytes [OF walk] by simp
  moreover have "reconcile_finalized_recording ring env diarize (\<lambda>_. True) (\<lambda>_. False) (\<lambda>_. False) (\<lambda>_. True) True settings
      capability (File_Bytes (sr_disk r')) = map_sum adapter_runtime_error id (diarize ws)"
    by (simp add: reconcile_finalized_recording_def pre ws(1))
  ultimately show ?thesis using read ws(2) t by blast
qed

theorem recovery_hands_over_the_recording_witness:
  "\<exists>r0 r r' summary capability.
     start_any plain_ring demo_world demo_env (Some (replicate 16 9, replicate 8 1)) True demo_settings 1 False = Inr r0 \<and>
     recorder_run plain_ring demo_world [Op_Frame one_frame, Op_Notices] r0 = (r, Inr ()) \<and>
     finalize_with_capability plain_ring demo_world r = (r', Inr (summary, capability)) \<and>
     reconcile_finalized_recording plain_ring demo_env (\<lambda>_. DiarizationResult_new [] []) (\<lambda>_. True) (\<lambda>_. False) (\<lambda>_. False)
       (\<lambda>_. True) True demo_settings capability (File_Bytes (sr_disk r'))
       = map_sum adapter_runtime_error id (DiarizationResult_new [] [])"
proof -
  obtain r0 r r' summary capability where d:
    "start_any plain_ring demo_world demo_env (Some (replicate 16 9, replicate 8 1)) True demo_settings 1 False = Inr r0"
    "recorder_run plain_ring demo_world [Op_Frame one_frame, Op_Notices] r0 = (r, Inr ())"
    "finalize_with_capability plain_ring demo_world r = (r', Inr (summary, capability))"
    using demo_recording by blast
  have "\<And>d. w_reread demo_world d = Some d" by (simp add: demo_world_def)
  moreover have "seal_grows plain_ring" by (simp add: seal_grows_def plain_ring_def)
  ultimately show ?thesis
    using recovery_hands_over_the_recording [OF d(1) _ _ d(2) _ d(3) demo_facts(2) _ demo_facts(3,6),
        where diarize = "\<lambda>_. DiarizationResult_new [] []"] demo_facts(5) d by auto
qed

end
