(* ===== verification/Memory_Retrieval.thy ===== *)
theory Memory_Retrieval
  imports Conversation_Quality Byte_Codec "HOL-Library.Product_Lexorder" "HOL-Library.List_Lexorder"
begin

text \<open>
  Conversation memory: the records of \<^verbatim>\<open>crates/protocol/src/memory.rs\<close>, the ranking and selection of
  \<^verbatim>\<open>crates/memory/src/retrieval.rs\<close>, the part of \<^verbatim>\<open>crates/memory/src/sqlite.rs\<close> that turns a
  selection into context items and a trace, and the language-model input of
  \<^verbatim>\<open>crates/model-adapters/src/language_model.rs\<close> that has to accept them. Timestamps are the integers an
  \<open>i64\<close> holds; SHA-256 is an argument. The tables a retrieval reads and writes are lists; a transaction
  that fails leaves them as they were.
\<close>

section \<open>Limits and text\<close>

definition MAX_MEMORY_CONTENT_BYTES :: nat where "MAX_MEMORY_CONTENT_BYTES = 4 * 1024"
definition MAX_MEMORY_RETRIEVAL_ITEMS :: nat where "MAX_MEMORY_RETRIEVAL_ITEMS = 8"
definition MAX_MEMORY_RETRIEVAL_BYTES :: nat where "MAX_MEMORY_RETRIEVAL_BYTES = 8 * 1024"
definition MAX_MEMORY_QUERY_BYTES :: nat where "MAX_MEMORY_QUERY_BYTES = 16 * 1024"
definition MAX_WORKING_RETENTION_MILLIS :: int where "MAX_WORKING_RETENTION_MILLIS = 24 * 60 * 60 * 1000"

lemmas memory_limits = MAX_MEMORY_CONTENT_BYTES_def MAX_MEMORY_RETRIEVAL_ITEMS_def MAX_MEMORY_RETRIEVAL_BYTES_def
  MAX_MEMORY_QUERY_BYTES_def MAX_WORKING_RETENTION_MILLIS_def

definition memory_error :: "string \<Rightarrow> RuntimeError" where
  "memory_error m = RuntimeError Kind_Configuration Stage_Memory m"

definition bounded_text :: "rstring \<Rightarrow> nat \<Rightarrow> string \<Rightarrow> string \<Rightarrow> rstring result" where
  "bounded_text v maximum_bytes empty_message overflow_message =
     (if trim v = [] then Inl (memory_error empty_message)
      else if str_len v > maximum_bytes then Inl (memory_error overflow_message)
      else Inr v)"

definition validate_content :: "rstring \<Rightarrow> rstring result" where
  "validate_content content =
     bounded_text content MAX_MEMORY_CONTENT_BYTES ''memory content must not be empty'' ''memory content exceeds 4 KiB''"

definition validate_revision :: "u64 \<Rightarrow> unit result" where
  "validate_revision revision =
     (if revision = 0 then Inl (memory_error ''memory revision must be non-zero'') else Inr ())"

section \<open>Records\<close>

type_synonym MemoryId = u64
type_synonym PersonId = u64
type_synonym UnixTimestampMillis = int
type_synonym MemoryConfidence = u16

text \<open>The identifiers made by \<open>checked_id!\<close>; \<open>label\<close> is the macro's second argument.\<close>

definition checked_id :: "string \<Rightarrow> u64 \<Rightarrow> u64 result" where
  "checked_id label v = (if v = 0 then Inl (memory_error (label @ '' must be non-zero'')) else Inr v)"

definition UnixTimestampMillis_new :: "int \<Rightarrow> UnixTimestampMillis result" where
  "UnixTimestampMillis_new v = (if v < 0 then Inl (memory_error ''timestamp must be non-negative'') else Inr v)"

definition MemoryConfidence_new :: "u16 \<Rightarrow> MemoryConfidence result" where
  "MemoryConfidence_new v = (if v > 1000 then Inl (memory_error ''memory confidence exceeds 1000'') else Inr v)"

datatype MemoryKind = Working | Episodic | Semantic | Identity | Relationship

definition requires_approval :: "MemoryKind \<Rightarrow> bool" where
  "requires_approval kind \<longleftrightarrow> kind = Identity \<or> kind = Relationship"

datatype MemoryState = Candidate | Active | Expired

datatype MemoryProvenanceKind = UserProvided | UserEdited | FromCompletedExchange | ApplicationImported

record MemoryProvenance =
  pv_kind :: MemoryProvenanceKind
  pv_source_id :: rstring
  pv_source_timestamp :: UnixTimestampMillis
  pv_actor :: rstring
  pv_content_digest :: "rstring option"

definition MemoryProvenance_new ::
  "MemoryProvenanceKind \<Rightarrow> rstring \<Rightarrow> UnixTimestampMillis \<Rightarrow> rstring \<Rightarrow> rstring option \<Rightarrow> MemoryProvenance result" where
  "MemoryProvenance_new kind source_id source_timestamp actor content_digest =
     (case bounded_text source_id 512 ''memory provenance source identifier must not be empty''
             ''memory provenance source identifier exceeds 512 bytes'' of
        Inl e \<Rightarrow> Inl e
      | Inr source_id \<Rightarrow>
     (case bounded_text actor 256 ''memory provenance actor must not be empty''
             ''memory provenance actor exceeds 256 bytes'' of
        Inl e \<Rightarrow> Inl e
      | Inr actor \<Rightarrow>
     (case (case content_digest of
              None \<Rightarrow> Inr None
            | Some digest \<Rightarrow>
                map_sum id Some (bounded_text digest 256 ''memory content digest must not be empty''
                                   ''memory content digest exceeds 256 bytes'')) of
        Inl e \<Rightarrow> Inl e
      | Inr content_digest \<Rightarrow>
          Inr \<lparr>pv_kind = kind, pv_source_id = source_id, pv_source_timestamp = source_timestamp,
               pv_actor = actor, pv_content_digest = content_digest\<rparr>)))"

record MemoryApproval =
  ap_confirmation_id :: rstring
  ap_actor :: rstring
  ap_confirmed_at :: UnixTimestampMillis
  ap_expected_revision :: u64

definition MemoryApproval_new ::
  "rstring \<Rightarrow> rstring \<Rightarrow> UnixTimestampMillis \<Rightarrow> u64 \<Rightarrow> MemoryApproval result" where
  "MemoryApproval_new confirmation_id actor confirmed_at expected_revision =
     (case bounded_text confirmation_id 512 ''memory confirmation identifier must not be empty''
             ''memory confirmation identifier exceeds 512 bytes'' of
        Inl e \<Rightarrow> Inl e
      | Inr confirmation_id \<Rightarrow>
     (case bounded_text actor 256 ''memory approval actor must not be empty''
             ''memory approval actor exceeds 256 bytes'' of
        Inl e \<Rightarrow> Inl e
      | Inr actor \<Rightarrow>
     (case validate_revision expected_revision of
        Inl e \<Rightarrow> Inl e
      | Inr _ \<Rightarrow>
          Inr \<lparr>ap_confirmation_id = confirmation_id, ap_actor = actor, ap_confirmed_at = confirmed_at,
               ap_expected_revision = expected_revision\<rparr>)))"

record MemoryApprovalEvidence =
  ev_confirmation_id :: rstring
  ev_actor :: rstring
  ev_confirmed_at :: UnixTimestampMillis
  ev_approved_revision :: u64
  ev_content_digest :: rstring

text \<open>\<open>hex_sha256\<close>: the lowercase hexadecimal SHA-256 of a text.\<close>

definition content_digest :: "(rstring \<Rightarrow> rstring) \<Rightarrow> rstring \<Rightarrow> rstring" where
  "content_digest hex_sha256 content = str_of ''sha256:'' @ hex_sha256 content"

definition evidence_for :: "(rstring \<Rightarrow> rstring) \<Rightarrow> MemoryApproval \<Rightarrow> rstring \<Rightarrow> MemoryApprovalEvidence" where
  "evidence_for hex_sha256 approval content =
     \<lparr>ev_confirmation_id = ap_confirmation_id approval, ev_actor = ap_actor approval,
      ev_confirmed_at = ap_confirmed_at approval, ev_approved_revision = ap_expected_revision approval,
      ev_content_digest = content_digest hex_sha256 content\<rparr>"

datatype MemoryRetention =
    Retain_Working UnixTimestampMillis
  | Retain_Session SessionId
  | Retain_Until UnixTimestampMillis
  | UntilDeleted

fun expires_at :: "MemoryRetention \<Rightarrow> UnixTimestampMillis option" where
  "expires_at (Retain_Working t) = Some t"
| "expires_at (Retain_Until t) = Some t"
| "expires_at (Retain_Session _) = None"
| "expires_at UntilDeleted = None"

fun validate_retention :: "MemoryKind \<Rightarrow> UnixTimestampMillis \<Rightarrow> MemoryRetention \<Rightarrow> unit result" where
  "validate_retention kind created_at (Retain_Working expires) =
     (if kind = Working
      then let duration = expires - created_at in
           if duration < - (2 ^ 63) \<or> duration \<ge> 2 ^ 63
           then Inl (memory_error ''working memory expiry precedes creation'')
           else if duration \<le> 0 then Inl (memory_error ''working memory expiry must follow creation'')
           else if duration > MAX_WORKING_RETENTION_MILLIS
           then Inl (memory_error ''working memory retention exceeds 24 hours'') else Inr ()
      else Inl (memory_error ''working retention requires working memory''))"
| "validate_retention kind created_at retention =
     (if kind = Working then Inl (memory_error ''working memory requires working retention'')
      else (case retention of
              Retain_Until expires \<Rightarrow>
                if expires \<le> created_at then Inl (memory_error ''memory expiry must follow creation'') else Inr ()
            | _ \<Rightarrow> Inr ()))"

record MemoryDraft =
  dr_kind :: MemoryKind
  dr_content :: rstring
  dr_provenance :: MemoryProvenance
  dr_confidence :: MemoryConfidence
  dr_created_at :: UnixTimestampMillis
  dr_retention :: MemoryRetention
  dr_subject :: PersonId

definition MemoryDraft_new ::
  "MemoryKind \<Rightarrow> rstring \<Rightarrow> MemoryProvenance \<Rightarrow> MemoryConfidence \<Rightarrow> UnixTimestampMillis \<Rightarrow> MemoryRetention \<Rightarrow>
   MemoryDraft result" where
  "MemoryDraft_new kind content provenance confidence created_at retention =
     (case validate_content content of
        Inl e \<Rightarrow> Inl e
      | Inr content \<Rightarrow>
     (case validate_retention kind created_at retention of
        Inl e \<Rightarrow> Inl e
      | Inr _ \<Rightarrow>
          Inr \<lparr>dr_kind = kind, dr_content = content, dr_provenance = provenance, dr_confidence = confidence,
               dr_created_at = created_at, dr_retention = retention, dr_subject = 1\<rparr>))"

definition initial_state :: "MemoryDraft \<Rightarrow> MemoryState" where
  "initial_state draft = (if requires_approval (dr_kind draft) then Candidate else Active)"

datatype MemoryRetrievalReason = PinnedMatch | ExactPhrase | SharedTerm | RecentWorking

record MemoryRecord =
  mr_id :: MemoryId
  mr_draft :: MemoryDraft
  mr_state :: MemoryState
  mr_updated_at :: UnixTimestampMillis
  mr_pinned :: bool
  mr_revision :: u64
  mr_approval :: "MemoryApprovalEvidence option"
  mr_last_used_at :: "UnixTimestampMillis option"
  mr_last_retrieval_reason :: "MemoryRetrievalReason option"

definition MemoryRecord_new ::
  "(rstring \<Rightarrow> rstring) \<Rightarrow> MemoryId \<Rightarrow> MemoryDraft \<Rightarrow> MemoryState \<Rightarrow> UnixTimestampMillis \<Rightarrow> bool \<Rightarrow> u64 \<Rightarrow>
   MemoryApprovalEvidence option \<Rightarrow> UnixTimestampMillis option \<Rightarrow> MemoryRetrievalReason option \<Rightarrow> MemoryRecord result" where
  "MemoryRecord_new hex_sha256 memory_id draft state updated_at pinned revision approval last_used_at last_reason =
     (case validate_revision revision of
        Inl e \<Rightarrow> Inl e
      | Inr _ \<Rightarrow>
          if updated_at < dr_created_at draft then Inl (memory_error ''memory update precedes creation'')
          else if (case last_used_at of None \<Rightarrow> False | Some t \<Rightarrow> t < dr_created_at draft)
          then Inl (memory_error ''memory last use precedes creation'')
          else if pinned \<and> dr_kind draft = Working then Inl (memory_error ''working memory cannot be pinned'')
          else if (case approval of
                     None \<Rightarrow> False
                   | Some evidence \<Rightarrow>
                       ev_content_digest evidence \<noteq> content_digest hex_sha256 (dr_content draft)
                       \<or> ev_confirmed_at evidence > updated_at \<or> ev_approved_revision evidence \<ge> revision)
          then Inl (memory_error ''memory approval evidence is invalid'')
          else if requires_approval (dr_kind draft) \<and> state = Active \<and> approval = None
          then Inl (memory_error ''active identity or relationship memory requires approval evidence'')
          else Inr \<lparr>mr_id = memory_id, mr_draft = draft, mr_state = state, mr_updated_at = updated_at, mr_pinned = pinned,
                    mr_revision = revision, mr_approval = approval, mr_last_used_at = last_used_at,
                    mr_last_retrieval_reason = last_reason\<rparr>)"

section \<open>Requests, items and traces\<close>

record MemoryRetrievalRequest =
  mq_turn_id :: TurnId
  mq_query :: rstring
  mq_now :: UnixTimestampMillis
  mq_maximum_items :: nat
  mq_maximum_bytes :: nat
  mq_subject :: "PersonId option"

definition MemoryRetrievalRequest_new ::
  "TurnId \<Rightarrow> rstring \<Rightarrow> UnixTimestampMillis \<Rightarrow> nat \<Rightarrow> nat \<Rightarrow> MemoryRetrievalRequest result" where
  "MemoryRetrievalRequest_new turn_id query now maximum_items maximum_bytes =
     (case bounded_text query MAX_MEMORY_QUERY_BYTES ''memory retrieval query must not be empty''
             ''memory retrieval query exceeds 16 KiB'' of
        Inl e \<Rightarrow> Inl e
      | Inr query \<Rightarrow>
          if \<not> (1 \<le> maximum_items \<and> maximum_items \<le> MAX_MEMORY_RETRIEVAL_ITEMS)
          then Inl (memory_error ''memory retrieval item limit must be 1 through 8'')
          else if \<not> (1 \<le> maximum_bytes \<and> maximum_bytes \<le> MAX_MEMORY_RETRIEVAL_BYTES)
          then Inl (memory_error ''memory retrieval byte limit must be 1 through 8192'')
          else Inr \<lparr>mq_turn_id = turn_id, mq_query = query, mq_now = now, mq_maximum_items = maximum_items,
                    mq_maximum_bytes = maximum_bytes, mq_subject = None\<rparr>)"

record MemoryContextItem =
  ci_memory_id :: MemoryId
  ci_kind :: MemoryKind
  ci_content :: rstring
  ci_reason :: MemoryRetrievalReason

definition MemoryContextItem_new ::
  "MemoryId \<Rightarrow> MemoryKind \<Rightarrow> rstring \<Rightarrow> MemoryRetrievalReason \<Rightarrow> MemoryContextItem result" where
  "MemoryContextItem_new memory_id kind content reason =
     (case validate_content content of
        Inl e \<Rightarrow> Inl e
      | Inr content \<Rightarrow>
          Inr \<lparr>ci_memory_id = memory_id, ci_kind = kind, ci_content = content, ci_reason = reason\<rparr>)"

record MemoryTraceItem =
  mt_ordinal :: nat
  mt_memory_id :: MemoryId
  mt_kind :: MemoryKind
  mt_reason :: MemoryRetrievalReason
  mt_content_bytes :: nat

definition MemoryTraceItem_new ::
  "nat \<Rightarrow> MemoryId \<Rightarrow> MemoryKind \<Rightarrow> MemoryRetrievalReason \<Rightarrow> nat \<Rightarrow> MemoryTraceItem result" where
  "MemoryTraceItem_new ordinal memory_id kind reason content_bytes =
     (if ordinal \<ge> MAX_MEMORY_RETRIEVAL_ITEMS then Inl (memory_error ''memory trace ordinal exceeds item limit'')
      else if \<not> (1 \<le> content_bytes \<and> content_bytes \<le> MAX_MEMORY_CONTENT_BYTES)
      then Inl (memory_error ''memory trace content byte count is invalid'')
      else Inr \<lparr>mt_ordinal = ordinal, mt_memory_id = memory_id, mt_kind = kind, mt_reason = reason,
                mt_content_bytes = content_bytes\<rparr>)"

record MemoryTraceExclusions =
  tx_by_state :: nat
  tx_by_expiry :: nat
  tx_by_relevance :: nat
  tx_by_item_limit :: nat
  tx_by_byte_limit :: nat

record MemoryRetrievalTrace =
  rt_trace_id :: u64
  rt_turn_id :: TurnId
  rt_created_at :: UnixTimestampMillis
  rt_items :: "MemoryTraceItem list"
  rt_exclusions :: MemoryTraceExclusions

text \<open>The loop over the items of a trace, behind the items \<open>prior\<close>.\<close>

fun check_trace_items :: "MemoryTraceItem list \<Rightarrow> MemoryTraceItem list \<Rightarrow> unit result" where
  "check_trace_items prior [] = Inr ()"
| "check_trace_items prior (item # items) =
     (if mt_ordinal item \<noteq> length prior then Inl (memory_error ''memory trace item order is not contiguous'')
      else if mt_memory_id item \<in> set (map mt_memory_id prior)
      then Inl (memory_error ''memory trace contains a duplicate memory'')
      else check_trace_items (prior @ [item]) items)"

text \<open>\<open>try_fold\<close> with \<open>checked_add\<close>.\<close>

fun checked_sum :: "nat list \<Rightarrow> nat option" where
  "checked_sum ns = foldl (\<lambda>acc n. case acc of None \<Rightarrow> None | Some m \<Rightarrow> checked_add_usize m n) (Some 0) ns"

definition MemoryRetrievalTrace_new ::
  "u64 \<Rightarrow> TurnId \<Rightarrow> UnixTimestampMillis \<Rightarrow> MemoryTraceItem list \<Rightarrow> MemoryTraceExclusions \<Rightarrow> MemoryRetrievalTrace result" where
  "MemoryRetrievalTrace_new trace_id turn_id created_at items exclusions =
     (if length items > MAX_MEMORY_RETRIEVAL_ITEMS then Inl (memory_error ''memory trace item count exceeds 8'')
      else (case check_trace_items [] items of
        Inl e \<Rightarrow> Inl e
      | Inr _ \<Rightarrow>
     (case checked_sum (map mt_content_bytes items) of
        None \<Rightarrow> Inl (memory_error ''memory trace byte count overflowed'')
      | Some used_bytes \<Rightarrow>
          if used_bytes > MAX_MEMORY_RETRIEVAL_BYTES then Inl (memory_error ''memory trace byte count exceeds 8192'')
          else Inr \<lparr>rt_trace_id = trace_id, rt_turn_id = turn_id, rt_created_at = created_at, rt_items = items,
                    rt_exclusions = exclusions\<rparr>)))"

section \<open>Selection\<close>

datatype MemoryStoreErrorKind =
    InvalidPath | NotInitialized | UnsupportedSchema | InvalidDatabase | NotFound | Conflict | Busy | Cancelled
  | LimitExceeded | Storage | KeyUnavailable | KeyMismatch

datatype MemoryStoreError = MemoryStoreError (se_kind: MemoryStoreErrorKind) (se_message: string)

type_synonym 'a store = "MemoryStoreError + 'a"

text \<open>The points at which a retrieval polls its cancellation.\<close>

datatype poll =
    At_Entry | After_Expiry | At_Selection | At_Record nat | At_Ranked nat | After_Selection | At_Item nat | Before_Trace

definition check_cancellation :: "(poll \<Rightarrow> bool) \<Rightarrow> poll \<Rightarrow> unit store" where
  "check_cancellation cancelled at =
     (if cancelled at then Inl (MemoryStoreError Cancelled ''memory retrieval was cancelled'') else Inr ())"

record RankedMemory =
  rm_record :: MemoryRecord
  rm_reason :: MemoryRetrievalReason

record RankedSelection =
  sl_selected :: "RankedMemory list"
  sl_exclusions :: MemoryTraceExclusions

fun reason_priority :: "MemoryRetrievalReason \<Rightarrow> nat" where
  "reason_priority PinnedMatch = 4"
| "reason_priority ExactPhrase = 3"
| "reason_priority SharedTerm = 2"
| "reason_priority RecentWorking = 1"

definition normalize_text :: "Unicode \<Rightarrow> rstring \<Rightarrow> rstring" where
  "normalize_text u v = uc_to_lowercase u (trim v)"

fun pairs :: "rstring \<Rightarrow> rstring list" where
  "pairs (a # b # cs) = [a, b] # pairs (b # cs)"
| "pairs _ = []"

fun units_of_run :: "rstring \<Rightarrow> rstring list" where
  "units_of_run run =
     (if list_all (\<lambda>c. c < 128) run then [run] else if length run = 1 then [run] else pairs run)"

fun unit_loop :: "Unicode \<Rightarrow> rstring \<Rightarrow> rstring list \<Rightarrow> rstring \<Rightarrow> rstring list" where
  "unit_loop u [] units run = units"
| "unit_loop u (c # cs) units run =
     (if uc_is_alphanumeric u c then unit_loop u cs units (run @ [c])
      else if run = [] then unit_loop u cs units run
      else unit_loop u cs (units @ units_of_run run) [])"

definition search_units :: "Unicode \<Rightarrow> rstring \<Rightarrow> rstring list" where
  "search_units u v = remdups_adj (sort (unit_loop u (v @ [32]) [] []))"

definition retrieval_reason ::
  "Unicode \<Rightarrow> rstring \<Rightarrow> rstring list \<Rightarrow> MemoryRecord \<Rightarrow> MemoryRetrievalReason option" where
  "retrieval_reason u normalized_query query_units record =
     (let normalized_content = normalize_text u (dr_content (mr_draft record));
          exact = str_contains normalized_content normalized_query \<or> str_contains normalized_query normalized_content;
          shared = (if exact then False
                    else list_ex (\<lambda>unit. unit \<in> set (search_units u normalized_content)) query_units)
      in if mr_pinned record \<and> (exact \<or> shared) then Some PinnedMatch
         else if exact then Some ExactPhrase
         else if shared then Some SharedTerm
         else if dr_kind (mr_draft record) = Working then Some RecentWorking
         else None)"

fun rank_loop ::
  "Unicode \<Rightarrow> (poll \<Rightarrow> bool) \<Rightarrow> rstring \<Rightarrow> rstring list \<Rightarrow> UnixTimestampMillis \<Rightarrow> nat \<Rightarrow> MemoryRecord list \<Rightarrow>
   RankedMemory list \<Rightarrow> MemoryTraceExclusions \<Rightarrow> (RankedMemory list \<times> MemoryTraceExclusions) store" where
  "rank_loop u cancelled query query_units now k [] ranked x = Inr (ranked, x)"
| "rank_loop u cancelled query query_units now k (record # records) ranked x =
     (case check_cancellation cancelled (At_Record k) of
        Inl e \<Rightarrow> Inl e
      | Inr _ \<Rightarrow>
          if dr_created_at (mr_draft record) > now \<or> mr_updated_at record > now
             \<or> (case mr_last_used_at record of None \<Rightarrow> False | Some last_used \<Rightarrow> last_used > now)
          then rank_loop u cancelled query query_units now (Suc k) records ranked (x\<lparr>tx_by_state := tx_by_state x + 1\<rparr>)
          else if mr_state record = Expired
             \<or> (case expires_at (dr_retention (mr_draft record)) of None \<Rightarrow> False | Some t \<Rightarrow> now \<ge> t)
          then rank_loop u cancelled query query_units now (Suc k) records ranked (x\<lparr>tx_by_expiry := tx_by_expiry x + 1\<rparr>)
          else if mr_state record \<noteq> Active
          then rank_loop u cancelled query query_units now (Suc k) records ranked (x\<lparr>tx_by_state := tx_by_state x + 1\<rparr>)
          else (case retrieval_reason u query query_units record of
                  None \<Rightarrow>
                    rank_loop u cancelled query query_units now (Suc k) records ranked
                      (x\<lparr>tx_by_relevance := tx_by_relevance x + 1\<rparr>)
                | Some reason \<Rightarrow>
                    rank_loop u cancelled query query_units now (Suc k) records
                      (ranked @ [\<lparr>rm_record = record, rm_reason = reason\<rparr>]) x))"

text \<open>The comparison of \<open>sort_by\<close>, as the key that orders it.\<close>

definition ranked_key :: "RankedMemory \<Rightarrow> int \<times> int \<times> int \<times> nat" where
  "ranked_key m =
     (let record = rm_record m
      in (- int (reason_priority (rm_reason m)), - int (unat (dr_confidence (mr_draft record))),
          - (case mr_last_used_at record of None \<Rightarrow> dr_created_at (mr_draft record) | Some t \<Rightarrow> t),
          unat (mr_id record)))"

fun select_loop ::
  "(poll \<Rightarrow> bool) \<Rightarrow> nat \<Rightarrow> nat \<Rightarrow> nat \<Rightarrow> RankedMemory list \<Rightarrow> RankedMemory list \<Rightarrow> nat \<Rightarrow> MemoryTraceExclusions \<Rightarrow>
   RankedSelection store" where
  "select_loop cancelled maximum_items maximum_bytes k [] selected used x =
     Inr \<lparr>sl_selected = selected, sl_exclusions = x\<rparr>"
| "select_loop cancelled maximum_items maximum_bytes k (item # items) selected used x =
     (case check_cancellation cancelled (At_Ranked k) of
        Inl e \<Rightarrow> Inl e
      | Inr _ \<Rightarrow>
          if length selected = maximum_items
          then select_loop cancelled maximum_items maximum_bytes (Suc k) items selected used
                 (x\<lparr>tx_by_item_limit := tx_by_item_limit x + 1\<rparr>)
          else (case checked_add_usize used (str_len (dr_content (mr_draft (rm_record item)))) of
                  None \<Rightarrow>
                    select_loop cancelled maximum_items maximum_bytes (Suc k) items selected used
                      (x\<lparr>tx_by_byte_limit := tx_by_byte_limit x + 1\<rparr>)
                | Some next_bytes \<Rightarrow>
                    if next_bytes > maximum_bytes
                    then select_loop cancelled maximum_items maximum_bytes (Suc k) items selected used
                           (x\<lparr>tx_by_byte_limit := tx_by_byte_limit x + 1\<rparr>)
                    else select_loop cancelled maximum_items maximum_bytes (Suc k) items (selected @ [item]) next_bytes x))"

definition no_exclusions :: MemoryTraceExclusions where
  "no_exclusions = \<lparr>tx_by_state = 0, tx_by_expiry = 0, tx_by_relevance = 0, tx_by_item_limit = 0, tx_by_byte_limit = 0\<rparr>"

definition select_records ::
  "Unicode \<Rightarrow> (poll \<Rightarrow> bool) \<Rightarrow> MemoryRecord list \<Rightarrow> rstring \<Rightarrow> UnixTimestampMillis \<Rightarrow> nat \<Rightarrow> nat \<Rightarrow> RankedSelection store" where
  "select_records u cancelled records query now maximum_items maximum_bytes =
     (case check_cancellation cancelled At_Selection of
        Inl e \<Rightarrow> Inl e
      | Inr _ \<Rightarrow>
          let normalized_query = normalize_text u query in
          (case rank_loop u cancelled normalized_query (search_units u normalized_query) now 0 records [] no_exclusions of
             Inl e \<Rightarrow> Inl e
           | Inr (ranked, x) \<Rightarrow>
               select_loop cancelled maximum_items maximum_bytes 0 (sort_key ranked_key ranked) [] 0 x))"

section \<open>Retrieval\<close>

definition MAX_MEMORY_SCAN_RECORDS :: nat where "MAX_MEMORY_SCAN_RECORDS = 1024"

record MemoryRetrieval =
  rv_items :: "MemoryContextItem list"
  rv_trace :: MemoryRetrievalTrace

definition invalid_database_error :: MemoryStoreError where
  "invalid_database_error = MemoryStoreError InvalidDatabase ''memory database identity or schema is invalid''"

fun build_items ::
  "(poll \<Rightarrow> bool) \<Rightarrow> nat \<Rightarrow> RankedMemory list \<Rightarrow> (MemoryContextItem list \<times> MemoryTraceItem list) store" where
  "build_items cancelled ordinal [] = Inr ([], [])"
| "build_items cancelled ordinal (m # ms) =
     (case check_cancellation cancelled (At_Item ordinal) of
        Inl e \<Rightarrow> Inl e
      | Inr _ \<Rightarrow>
          let record = rm_record m; content = dr_content (mr_draft record); kind = dr_kind (mr_draft record) in
          (case MemoryContextItem_new (mr_id record) kind content (rm_reason m) of
             Inl _ \<Rightarrow> Inl invalid_database_error
           | Inr context_item \<Rightarrow>
          (case MemoryTraceItem_new ordinal (mr_id record) kind (rm_reason m) (str_len content) of
             Inl _ \<Rightarrow> Inl invalid_database_error
           | Inr trace_item \<Rightarrow>
               map_sum id (\<lambda>(cs, ts). (context_item # cs, trace_item # ts)) (build_items cancelled (Suc ordinal) ms))))"

text \<open>The tables: the memories in the order of their identifiers, and the traces of past retrievals.\<close>

record MemoryStore =
  ms_memories :: "MemoryRecord list"
  ms_traces :: "MemoryRetrievalTrace list"
  ms_next_trace_id :: u64

definition expire_due :: "UnixTimestampMillis \<Rightarrow> MemoryRecord \<Rightarrow> MemoryRecord" where
  "expire_due now r =
     (if mr_state r \<noteq> Expired \<and> (case expires_at (dr_retention (mr_draft r)) of None \<Rightarrow> False | Some t \<Rightarrow> t \<le> now)
      then r\<lparr>mr_state := Expired, mr_updated_at := max (mr_updated_at r) now, mr_revision := mr_revision r + 1\<rparr>
      else r)"

definition mark_used :: "UnixTimestampMillis \<Rightarrow> RankedMemory list \<Rightarrow> MemoryRecord \<Rightarrow> MemoryRecord" where
  "mark_used now selected r =
     (case find (\<lambda>m. mr_id (rm_record m) = mr_id r) selected of
        None \<Rightarrow> r
      | Some m \<Rightarrow> r\<lparr>mr_last_used_at := Some now, mr_last_retrieval_reason := Some (rm_reason m)\<rparr>)"

definition retrieve_in ::
  "Unicode \<Rightarrow> (poll \<Rightarrow> bool) \<Rightarrow> MemoryStore \<Rightarrow> MemoryRetrievalRequest \<Rightarrow> (MemoryStore \<times> MemoryRetrieval) store" where
  "retrieve_in u cancelled st request =
     (case check_cancellation cancelled At_Entry of
        Inl e \<Rightarrow> Inl e
      | Inr _ \<Rightarrow>
          let memories = map (expire_due (mq_now request)) (ms_memories st) in
     (case check_cancellation cancelled After_Expiry of
        Inl e \<Rightarrow> Inl e
      | Inr _ \<Rightarrow>
          let records = take (MAX_MEMORY_SCAN_RECORDS + 1)
                (filter (\<lambda>r. case mq_subject request of None \<Rightarrow> True | Some p \<Rightarrow> dr_subject (mr_draft r) = p) memories) in
          if length records > MAX_MEMORY_SCAN_RECORDS
          then Inl (MemoryStoreError LimitExceeded ''memory retrieval scan exceeds 1024 records'')
          else
     (case select_records u cancelled records (mq_query request) (mq_now request) (mq_maximum_items request)
             (mq_maximum_bytes request) of
        Inl e \<Rightarrow> Inl e
      | Inr selection \<Rightarrow>
     (case check_cancellation cancelled After_Selection of
        Inl e \<Rightarrow> Inl e
      | Inr _ \<Rightarrow>
     (case build_items cancelled 0 (sl_selected selection) of
        Inl e \<Rightarrow> Inl e
      | Inr (context_items, trace_items) \<Rightarrow>
     (case check_cancellation cancelled Before_Trace of
        Inl e \<Rightarrow> Inl e
      | Inr _ \<Rightarrow>
     (case MemoryRetrievalTrace_new (ms_next_trace_id st) (mq_turn_id request) (mq_now request) trace_items
             (sl_exclusions selection) of
        Inl _ \<Rightarrow> Inl invalid_database_error
      | Inr trace \<Rightarrow>
          Inr (\<lparr>ms_memories = map (mark_used (mq_now request) (sl_selected selection)) memories,
                ms_traces = ms_traces st @ [trace], ms_next_trace_id = ms_next_trace_id st + 1\<rparr>,
               \<lparr>rv_items = context_items, rv_trace = trace\<rparr>))))))))"

text \<open>The transaction commits with the result, or is rolled back.\<close>

definition retrieve ::
  "Unicode \<Rightarrow> (poll \<Rightarrow> bool) \<Rightarrow> MemoryStore \<Rightarrow> MemoryRetrievalRequest \<Rightarrow> MemoryStore \<times> MemoryRetrieval store" where
  "retrieve u cancelled st request =
     (case retrieve_in u cancelled st request of
        Inl e \<Rightarrow> (st, Inl e)
      | Inr (st', r) \<Rightarrow> (st', Inr r))"

section \<open>The language-model input\<close>

definition MAX_RUNTIME_GUIDANCE_BYTES :: nat where "MAX_RUNTIME_GUIDANCE_BYTES = 4 * 1024"
definition MAX_LANGUAGE_MODEL_INPUT_BYTES :: nat where "MAX_LANGUAGE_MODEL_INPUT_BYTES = 64 * 1024"

record LanguageModelInput =
  li_transcript :: rstring
  li_recent_messages :: "ConversationMessage list"
  li_quality_decision :: "QualityDecision option"
  li_runtime_guidance :: "rstring option"
  li_memory_items :: "MemoryContextItem list"
  li_response_schema :: "rstring option"

definition validate_input_text :: "rstring \<Rightarrow> unit adapter" where
  "validate_input_text txt =
     (if trim txt = [] then Inl (AdapterError_new ''language-model input cannot be empty'')
      else if str_len txt > MAX_CONVERSATION_MESSAGE_BYTES
      then Inl (AdapterError_new ''language-model input exceeds 16 KiB'') else Inr ())"

fun duplicate_item :: "MemoryContextItem list \<Rightarrow> MemoryContextItem list \<Rightarrow> bool" where
  "duplicate_item prior [] = False"
| "duplicate_item prior (item # items) =
     (ci_memory_id item \<in> set (map ci_memory_id prior) \<or> duplicate_item (prior @ [item]) items)"

definition with_quality_and_memory ::
  "rstring \<Rightarrow> ConversationMessage list \<Rightarrow> QualityDecision \<Rightarrow> rstring \<Rightarrow> MemoryContextItem list \<Rightarrow> LanguageModelInput adapter" where
  "with_quality_and_memory transcript recent_messages decision guidance items =
     (case validate_input_text transcript of
        Inl e \<Rightarrow> Inl e
      | Inr _ \<Rightarrow>
          let history_bytes = checked_sum (map (str_len \<circ> cm_text) recent_messages);
              memory_bytes = checked_sum (map (str_len \<circ> ci_content) items);
              aggregate =
                (case history_bytes of None \<Rightarrow> None | Some h \<Rightarrow>
                 case memory_bytes of None \<Rightarrow> None | Some m \<Rightarrow>
                 case checked_add_usize (str_len transcript) h of None \<Rightarrow> None | Some a \<Rightarrow>
                 case checked_add_usize a (str_len guidance) of None \<Rightarrow> None | Some b \<Rightarrow> checked_add_usize b m) in
          if length recent_messages > MAX_HISTORY_MESSAGE_COUNT
          then Inl (AdapterError_new ''language-model history exceeds sixteen exchanges'')
          else if (case history_bytes of None \<Rightarrow> True | Some bytes \<Rightarrow> bytes > MAX_HISTORY_BYTES)
          then Inl (AdapterError_new ''language-model history exceeds 32 KiB'')
          else if trim guidance = [] then Inl (AdapterError_new ''runtime quality guidance cannot be empty'')
          else if str_len guidance > MAX_RUNTIME_GUIDANCE_BYTES
          then Inl (AdapterError_new ''runtime quality guidance exceeds 4 KiB'')
          else if length items > MAX_MEMORY_RETRIEVAL_ITEMS
          then Inl (AdapterError_new ''language-model memory exceeds eight items'')
          else if (case memory_bytes of None \<Rightarrow> True | Some bytes \<Rightarrow> bytes > MAX_MEMORY_RETRIEVAL_BYTES)
          then Inl (AdapterError_new ''language-model memory exceeds 8 KiB'')
          else if duplicate_item [] items then Inl (AdapterError_new ''language-model memory contains a duplicate item'')
          else if (case aggregate of None \<Rightarrow> True | Some bytes \<Rightarrow> bytes > MAX_LANGUAGE_MODEL_INPUT_BYTES)
          then Inl (AdapterError_new ''language-model aggregate input exceeds 64 KiB'')
          else Inr \<lparr>li_transcript = transcript, li_recent_messages = recent_messages,
                    li_quality_decision = Some decision, li_runtime_guidance = Some guidance,
                    li_memory_items = items, li_response_schema = None\<rparr>)"

definition with_quality ::
  "rstring \<Rightarrow> ConversationMessage list \<Rightarrow> QualityDecision \<Rightarrow> rstring \<Rightarrow> LanguageModelInput adapter" where
  "with_quality transcript recent_messages decision guidance =
     with_quality_and_memory transcript recent_messages decision guidance []"

definition with_memory_items :: "LanguageModelInput \<Rightarrow> MemoryContextItem list \<Rightarrow> LanguageModelInput adapter" where
  "with_memory_items input items =
     (case li_quality_decision input of
        None \<Rightarrow> Inl (AdapterError_new ''language-model memory requires quality input'')
      | Some decision \<Rightarrow>
     (case li_runtime_guidance input of
        None \<Rightarrow> Inl (AdapterError_new ''language-model memory requires runtime guidance'')
      | Some guidance \<Rightarrow>
     (case with_quality_and_memory (li_transcript input) (li_recent_messages input) decision guidance items of
        Inl e \<Rightarrow> Inl e
      | Inr rebuilt \<Rightarrow> Inr (rebuilt\<lparr>li_response_schema := li_response_schema input\<rparr>))))"

section \<open>Lemmas\<close>

definition retrievable :: "UnixTimestampMillis \<Rightarrow> MemoryRecord \<Rightarrow> bool" where
  "retrievable now r \<longleftrightarrow>
     dr_created_at (mr_draft r) \<le> now \<and> mr_updated_at r \<le> now \<and> (\<forall>t. mr_last_used_at r = Some t \<longrightarrow> t \<le> now) \<and>
     mr_state r = Active \<and> (\<forall>t. expires_at (dr_retention (mr_draft r)) = Some t \<longrightarrow> now < t)"

abbreviation record_bytes :: "MemoryRecord \<Rightarrow> nat" where
  "record_bytes r \<equiv> str_len (dr_content (mr_draft r))"

abbreviation excluded :: "MemoryTraceExclusions \<Rightarrow> nat" where
  "excluded x \<equiv> tx_by_state x + tx_by_expiry x + tx_by_relevance x + tx_by_item_limit x + tx_by_byte_limit x"

primrec chosen_bytes :: "RankedMemory list \<Rightarrow> nat" where
  "chosen_bytes [] = 0"
| "chosen_bytes (m # ms) = record_bytes (rm_record m) + chosen_bytes ms"

lemma chosen_bytes_append [simp]: "chosen_bytes (ms @ ns) = chosen_bytes ms + chosen_bytes ns"
  by (induction ms) simp_all

definition relevant ::
  "Unicode \<Rightarrow> rstring \<Rightarrow> UnixTimestampMillis \<Rightarrow> MemoryRecord \<Rightarrow> RankedMemory option" where
  "relevant u query now r =
     (if retrievable now r
      then map_option (\<lambda>reason. \<lparr>rm_record = r, rm_reason = reason\<rparr>)
             (retrieval_reason u (normalize_text u query) (search_units u (normalize_text u query)) r)
      else None)"

lemma rank_step:
  fixes u query now
  defines "loop \<equiv> rank_loop u (\<lambda>_. False) (normalize_text u query) (search_units u (normalize_text u query)) now"
  shows "(\<exists>y. excluded y = excluded x + 1 \<and> relevant u query now r = None \<and>
            loop k (r # records) ranked x = loop (Suc k) records ranked y) \<or>
         (\<exists>m. relevant u query now r = Some m \<and>
            loop k (r # records) ranked x = loop (Suc k) records (ranked @ [m]) x)"
proof -
  let ?future = "dr_created_at (mr_draft r) > now \<or> mr_updated_at r > now
      \<or> (case mr_last_used_at r of None \<Rightarrow> False | Some last_used \<Rightarrow> last_used > now)"
  let ?expired = "mr_state r = Expired
      \<or> (case expires_at (dr_retention (mr_draft r)) of None \<Rightarrow> False | Some t \<Rightarrow> now \<ge> t)"
  have eq: "retrievable now r \<longleftrightarrow> \<not> ?future \<and> \<not> ?expired \<and> mr_state r = Active"
    by (auto simp: retrievable_def not_less not_le split: option.splits)
  consider (state) "?future \<or> \<not> ?expired \<and> mr_state r \<noteq> Active" | (expiry) "\<not> ?future" "?expired" | (ok) "retrievable now r"
    using eq by blast
  then show ?thesis
  proof cases
    case state
    then show ?thesis using eq
      by (intro disjI1 exI [of _ "x\<lparr>tx_by_state := tx_by_state x + 1\<rparr>"]) (auto simp: loop_def check_cancellation_def relevant_def)
  next
    case expiry
    then show ?thesis using eq
      by (intro disjI1 exI [of _ "x\<lparr>tx_by_expiry := tx_by_expiry x + 1\<rparr>"]) (auto simp: loop_def check_cancellation_def relevant_def)
  next
    case ok
    show ?thesis
    proof (cases "retrieval_reason u (normalize_text u query) (search_units u (normalize_text u query)) r")
      case None
      then show ?thesis using ok eq
        by (intro disjI1 exI [of _ "x\<lparr>tx_by_relevance := tx_by_relevance x + 1\<rparr>"]) (simp add: loop_def check_cancellation_def relevant_def)
    next
      case (Some reason)
      then show ?thesis using ok eq by (simp add: loop_def check_cancellation_def relevant_def)
    qed
  qed
qed

lemma rank_loop_spec:
  "\<exists>x'. rank_loop u (\<lambda>_. False) (normalize_text u query) (search_units u (normalize_text u query)) now k records ranked x =
     Inr (ranked @ List.map_filter (relevant u query now) records, x') \<and>
     excluded x' + length (List.map_filter (relevant u query now) records) = excluded x + length records"
proof (induction records arbitrary: k ranked x)
  case Nil
  then show ?case by (simp add: map_filter_simps)
next
  case (Cons r records)
  let ?q = "normalize_text u query"
  from rank_step [of x u query now r k records ranked] show ?case
  proof (elim disjE exE conjE)
    fix y
    assume "excluded y = excluded x + 1" "relevant u query now r = None"
      "rank_loop u (\<lambda>_. False) ?q (search_units u ?q) now k (r # records) ranked x =
       rank_loop u (\<lambda>_. False) ?q (search_units u ?q) now (Suc k) records ranked y"
    then show ?case using Cons.IH [of "Suc k" ranked y] by (auto simp: map_filter_simps)
  next
    fix m
    assume "relevant u query now r = Some m"
      "rank_loop u (\<lambda>_. False) ?q (search_units u ?q) now k (r # records) ranked x =
       rank_loop u (\<lambda>_. False) ?q (search_units u ?q) now (Suc k) records (ranked @ [m]) x"
    then show ?case using Cons.IH [of "Suc k" "ranked @ [m]" x] by (auto simp: map_filter_simps)
  qed
qed

lemma select_loop_spec:
  assumes "length selected \<le> mi" "used = chosen_bytes selected" "used \<le> mb"
  shows "\<exists>sel. select_loop (\<lambda>_. False) mi mb k items selected used x = Inr sel \<and>
     (\<exists>more. sl_selected sel = selected @ more \<and> subseq more items \<and>
        excluded (sl_exclusions sel) + length more = excluded x + length items) \<and>
     length (sl_selected sel) \<le> mi \<and> chosen_bytes (sl_selected sel) \<le> mb \<and>
     (\<forall>m \<in> set items. m \<in> set (sl_selected sel) \<or> length (sl_selected sel) = mi \<or>
        chosen_bytes (sl_selected sel) + record_bytes (rm_record m) > min mb usize_max)"
  using assms
proof (induction items arbitrary: k selected used x)
  case Nil
  then show ?case by simp
next
  case (Cons i items)
  show ?case
  proof (cases "length selected = mi \<or> used + record_bytes (rm_record i) > min mb usize_max")
    case True
    have "\<exists>y. excluded y = excluded x + 1 \<and>
      select_loop (\<lambda>_. False) mi mb k (i # items) selected used x = select_loop (\<lambda>_. False) mi mb (Suc k) items selected used y"
    proof (cases "length selected = mi")
      case True
      then show ?thesis
        by (intro exI [of _ "x\<lparr>tx_by_item_limit := tx_by_item_limit x + 1\<rparr>"]) (simp add: check_cancellation_def)
    next
      case False
      then show ?thesis using True
        by (intro exI [of _ "x\<lparr>tx_by_byte_limit := tx_by_byte_limit x + 1\<rparr>"])
          (auto simp: check_cancellation_def checked_add_usize_def)
    qed
    then obtain y where y: "excluded y = excluded x + 1"
      "select_loop (\<lambda>_. False) mi mb k (i # items) selected used x = select_loop (\<lambda>_. False) mi mb (Suc k) items selected used y"
      by blast
    obtain sel more where s: "select_loop (\<lambda>_. False) mi mb (Suc k) items selected used y = Inr sel"
      "sl_selected sel = selected @ more" "subseq more items" "excluded (sl_exclusions sel) + length more = excluded y + length items"
      "length (sl_selected sel) \<le> mi" "chosen_bytes (sl_selected sel) \<le> mb"
      "\<forall>m \<in> set items. m \<in> set (sl_selected sel) \<or> length (sl_selected sel) = mi \<or>
        chosen_bytes (sl_selected sel) + record_bytes (rm_record m) > min mb usize_max"
      using Cons.IH [OF Cons.prems, of "Suc k" y] by blast
    have "length (sl_selected sel) = mi \<or>
        chosen_bytes (sl_selected sel) + record_bytes (rm_record i) > min mb usize_max"
      using True s(2,5) Cons.prems by auto
    then show ?thesis using y s by (auto intro: subseq_order.trans)
  next
    case False
    then have step: "select_loop (\<lambda>_. False) mi mb k (i # items) selected used x =
        select_loop (\<lambda>_. False) mi mb (Suc k) items (selected @ [i]) (used + record_bytes (rm_record i)) x"
      by (auto simp: check_cancellation_def checked_add_usize_def)
    have "length (selected @ [i]) \<le> mi" "used + record_bytes (rm_record i) = chosen_bytes (selected @ [i])"
      "used + record_bytes (rm_record i) \<le> mb"
      using False Cons.prems by auto
    from Cons.IH [OF this, of "Suc k" x] show ?thesis unfolding step
      by (elim exE conjE) (rule exI, intro conjI, assumption, rule_tac x = "i # more" in exI, auto)
  qed
qed

lemma select_records_spec:
  "\<exists>sel. select_records u (\<lambda>_. False) records query now mi mb = Inr sel \<and>
     subseq (sl_selected sel) (sort_key ranked_key (List.map_filter (relevant u query now) records)) \<and>
     length (sl_selected sel) + excluded (sl_exclusions sel) = length records \<and>
     length (sl_selected sel) \<le> mi \<and> chosen_bytes (sl_selected sel) \<le> mb \<and>
     (\<forall>m \<in> set (List.map_filter (relevant u query now) records).
        m \<in> set (sl_selected sel) \<or> length (sl_selected sel) = mi \<or>
        chosen_bytes (sl_selected sel) + record_bytes (rm_record m) > min mb usize_max)"
proof -
  let ?q = "normalize_text u query" and ?rel = "List.map_filter (relevant u query now) records"
  obtain x where r: "rank_loop u (\<lambda>_. False) ?q (search_units u ?q) now 0 records [] no_exclusions = Inr (?rel, x)"
    "excluded x + length ?rel = length records"
    using rank_loop_spec [of u query now 0 records "[]" no_exclusions] by (auto simp: no_exclusions_def)
  obtain sel more where s: "select_loop (\<lambda>_. False) mi mb 0 (sort_key ranked_key ?rel) [] 0 x = Inr sel"
    "sl_selected sel = more" "subseq more (sort_key ranked_key ?rel)"
    "excluded (sl_exclusions sel) + length more = excluded x + length ?rel"
    "length (sl_selected sel) \<le> mi" "chosen_bytes (sl_selected sel) \<le> mb"
    "\<forall>m \<in> set ?rel. m \<in> set (sl_selected sel) \<or> length (sl_selected sel) = mi \<or>
        chosen_bytes (sl_selected sel) + record_bytes (rm_record m) > min mb usize_max"
    using select_loop_spec [of "[]" mi 0 mb 0 "sort_key ranked_key ?rel" x] by auto
  have "select_records u (\<lambda>_. False) records query now mi mb = Inr sel"
    using r(1) s(1) by (simp add: select_records_def check_cancellation_def Let_def)
  then show ?thesis using r(2) s(2-7) by auto
qed

lemma relevant_mem: "m \<in> set (List.map_filter (relevant u query now) records) \<longleftrightarrow> (\<exists>r \<in> set records. relevant u query now r = Some m)"
  by (force simp: List.map_filter_def)

lemma relevant_record: "relevant u query now r = Some m \<Longrightarrow> rm_record m = r \<and> retrievable now r"
  by (auto simp: relevant_def split: if_splits)

lemma sorted_subseq:
  fixes ys :: "'a :: linorder list"
  shows "subseq xs ys \<Longrightarrow> sorted ys \<Longrightarrow> sorted xs"
  by (induction rule: list_emb.induct) (auto elim: list_emb_set)

lemma distinct_subseq: "subseq xs ys \<Longrightarrow> distinct ys \<Longrightarrow> distinct xs"
  by (induction rule: list_emb.induct) (auto elim: list_emb_set)

lemma checked_sum_eq [simp]: "checked_sum ns = (if sum_list ns \<le> usize_max then Some (sum_list ns) else None)"
proof -
  let ?f = "\<lambda>acc n. case acc of None \<Rightarrow> None | Some m \<Rightarrow> checked_add_usize m n"
  have none: "foldl ?f None ms = None" for ms by (induction ms) simp_all
  have "foldl ?f (Some a) ms = (if a + sum_list ms \<le> usize_max then Some (a + sum_list ms) else None)" if "a \<le> usize_max" for a ms
    using that by (induction ms arbitrary: a) (auto simp: checked_add_usize_def none add.assoc)
  from this [of 0 ns] show ?thesis by simp
qed

declare checked_sum.simps [simp del]

abbreviation context_item :: "RankedMemory \<Rightarrow> MemoryContextItem" where
  "context_item m \<equiv> \<lparr>ci_memory_id = mr_id (rm_record m), ci_kind = dr_kind (mr_draft (rm_record m)),
     ci_content = dr_content (mr_draft (rm_record m)), ci_reason = rm_reason m\<rparr>"

definition trace_item :: "nat \<times> RankedMemory \<Rightarrow> MemoryTraceItem" where
  "trace_item = (\<lambda>(ordinal, m).
     \<lparr>mt_ordinal = ordinal, mt_memory_id = mr_id (rm_record m), mt_kind = dr_kind (mr_draft (rm_record m)),
      mt_reason = rm_reason m, mt_content_bytes = record_bytes (rm_record m)\<rparr>)"

definition content_ok :: "MemoryRecord \<Rightarrow> bool" where
  "content_ok r \<longleftrightarrow> trim (dr_content (mr_draft r)) \<noteq> [] \<and> record_bytes r \<le> MAX_MEMORY_CONTENT_BYTES"

lemma build_items_spec:
  assumes "list_all (content_ok \<circ> rm_record) ms" "n + length ms \<le> MAX_MEMORY_RETRIEVAL_ITEMS"
  shows "build_items (\<lambda>_. False) n ms = Inr (map context_item ms, map trace_item (enumerate n ms))"
  using assms
proof (induction ms arbitrary: n)
  case (Cons m ms)
  have "Suc 0 \<le> record_bytes (rm_record m)" using Cons.prems(1) by (auto simp: content_ok_def Suc_le_eq)
  then show ?case using Cons
    by (simp add: check_cancellation_def MemoryContextItem_new_def validate_content_def bounded_text_def MemoryTraceItem_new_def
        content_ok_def trace_item_def Let_def)
qed simp

lemma check_trace_items_spec:
  assumes "distinct (map (mr_id \<circ> rm_record) (ps @ ms))"
  shows "check_trace_items (map trace_item (enumerate 0 ps)) (map trace_item (enumerate (length ps) ms)) = Inr ()"
  using assms
proof (induction ms arbitrary: ps)
  case (Cons m ms)
  have ids: "map mt_memory_id (map trace_item (enumerate 0 ps)) = map (mr_id \<circ> rm_record) ps"
    by (rule nth_equalityI) (simp_all add: trace_item_def nth_enumerate_eq)
  have snoc: "map trace_item (enumerate 0 ps) @ [trace_item (length ps, m)] = map trace_item (enumerate 0 (ps @ [m]))"
    by (simp add: enumerate_append_eq)
  have "mt_memory_id (trace_item (length ps, m)) \<notin> set (map mt_memory_id (map trace_item (enumerate 0 ps)))"
    unfolding ids using Cons.prems by (simp add: trace_item_def)
  moreover have "mt_ordinal (trace_item (length ps, m)) = length ps" by (simp add: trace_item_def)
  ultimately show ?case using Cons.IH [of "ps @ [m]"] Cons.prems by (simp add: snoc del: set_map)
qed simp

lemma no_duplicate_item: "distinct (map ci_memory_id (prior @ items)) \<Longrightarrow> \<not> duplicate_item prior items"
  by (induction items arbitrary: prior) auto

section \<open>Properties\<close>

text \<open>
  C16: A memory retrieval that is not cancelled selects what it has to. Every record it scanned is
  either selected or counted in exactly one exclusion. Each selected memory is a scanned record that
  is active, not expired and not from the future, with the reason its text gives; the selection is
  ordered by reason, confidence, recency and identifier, and respects both limits. A relevant record
  is left out only when the item limit is reached or its text no longer fits the byte limit.
\<close>

theorem retrieval_selects_best:
  assumes "mb \<le> usize_max"
  shows "\<exists>sel. select_records u (\<lambda>_. False) records query now mi mb = Inr sel \<and>
     length (sl_selected sel) + excluded (sl_exclusions sel) = length records \<and>
     list_all (\<lambda>m. rm_record m \<in> set records \<and> retrievable now (rm_record m) \<and>
        relevant u query now (rm_record m) = Some m) (sl_selected sel) \<and>
     sorted (map ranked_key (sl_selected sel)) \<and>
     length (sl_selected sel) \<le> mi \<and> chosen_bytes (sl_selected sel) \<le> mb \<and>
     (\<forall>r \<in> set records. \<forall>m. relevant u query now r = Some m \<longrightarrow>
        m \<in> set (sl_selected sel) \<or> length (sl_selected sel) = mi \<or> chosen_bytes (sl_selected sel) + record_bytes r > mb)"
proof -
  let ?rel = "List.map_filter (relevant u query now) records"
  obtain sel where s: "select_records u (\<lambda>_. False) records query now mi mb = Inr sel"
    "subseq (sl_selected sel) (sort_key ranked_key ?rel)"
    "length (sl_selected sel) + excluded (sl_exclusions sel) = length records"
    "length (sl_selected sel) \<le> mi" "chosen_bytes (sl_selected sel) \<le> mb"
    "\<forall>m \<in> set ?rel. m \<in> set (sl_selected sel) \<or> length (sl_selected sel) = mi \<or>
        chosen_bytes (sl_selected sel) + record_bytes (rm_record m) > min mb usize_max"
    using select_records_spec by blast
  have "sorted (map ranked_key (sl_selected sel))"
    using sorted_subseq [OF subseq_map [OF s(2), of ranked_key]] by simp
  moreover have "m \<in> set ?rel" if "m \<in> set (sl_selected sel)" for m
    using list_emb_set [OF s(2) that] by auto
  then have "list_all (\<lambda>m. rm_record m \<in> set records \<and> retrievable now (rm_record m) \<and>
        relevant u query now (rm_record m) = Some m) (sl_selected sel)"
    unfolding relevant_mem list_all_iff using relevant_record by (metis (no_types, lifting))
  moreover have "m \<in> set (sl_selected sel) \<or> length (sl_selected sel) = mi \<or> chosen_bytes (sl_selected sel) + record_bytes r > mb"
    if "r \<in> set records" "relevant u query now r = Some m" for r m
    using s(6) that assms relevant_mem [of m] relevant_record [of u query now r m] by auto
  ultimately show ?thesis using s by blast
qed

definition demo_memory :: MemoryRecord where
  "demo_memory =
     \<lparr>mr_id = 7,
      mr_draft = \<lparr>dr_kind = Semantic, dr_content = [116, 101, 97],
         dr_provenance = \<lparr>pv_kind = UserProvided, pv_source_id = [97], pv_source_timestamp = 1, pv_actor = [97], pv_content_digest = None\<rparr>,
         dr_confidence = 900, dr_created_at = 1, dr_retention = UntilDeleted, dr_subject = 1\<rparr>,
      mr_state = Active, mr_updated_at = 1, mr_pinned = False, mr_revision = 1, mr_approval = None,
      mr_last_used_at = None, mr_last_retrieval_reason = None\<rparr>"

lemma demo_relevant: "relevant ascii_unicode [116, 101, 97] 5 demo_memory = Some \<lparr>rm_record = demo_memory, rm_reason = ExactPhrase\<rparr>"
  by (simp add: relevant_def retrievable_def retrieval_reason_def demo_memory_def normalize_text_def ascii_unicode_def trim_def
      trim_start_def trim_end_def is_whitespace_def Let_def)

theorem retrieval_selects_best_witness:
  "\<exists>sel. select_records ascii_unicode (\<lambda>_. False) [demo_memory] [116, 101, 97] 5 4 4096 = Inr sel \<and>
     sl_selected sel = [\<lparr>rm_record = demo_memory, rm_reason = ExactPhrase\<rparr>]"
proof -
  have len: "record_bytes demo_memory = 3" by (simp add: demo_memory_def len_utf8_def)
  have "(4096 :: nat) \<le> usize_max" by (simp add: usize_max_def)
  from retrieval_selects_best [OF this, of ascii_unicode "[demo_memory]" "[116, 101, 97]" 5 4]
  obtain sel where s: "select_records ascii_unicode (\<lambda>_. False) [demo_memory] [116, 101, 97] 5 4 4096 = Inr sel"
    and count: "length (sl_selected sel) + excluded (sl_exclusions sel) = length [demo_memory]"
    and all: "list_all (\<lambda>m. rm_record m \<in> set [demo_memory] \<and> retrievable 5 (rm_record m) \<and>
        relevant ascii_unicode [116, 101, 97] 5 (rm_record m) = Some m) (sl_selected sel)"
    and left: "\<forall>r \<in> set [demo_memory]. \<forall>m. relevant ascii_unicode [116, 101, 97] 5 r = Some m \<longrightarrow>
        m \<in> set (sl_selected sel) \<or> length (sl_selected sel) = 4 \<or> chosen_bytes (sl_selected sel) + record_bytes r > 4096"
    by blast
  have l: "length (sl_selected sel) \<le> 1" using count by simp
  have k: "\<lparr>rm_record = demo_memory, rm_reason = ExactPhrase\<rparr> \<in> set (sl_selected sel) \<or> length (sl_selected sel) = 4
       \<or> chosen_bytes (sl_selected sel) + record_bytes demo_memory > 4096"
    using left demo_relevant by simp
  have m: "list_all (\<lambda>m. rm_record m = demo_memory) (sl_selected sel)" using all by (auto simp: list_all_iff)
  have "sl_selected sel = [] \<or> (\<exists>m. sl_selected sel = [m])" using l by (cases "sl_selected sel") simp_all
  then have "sl_selected sel = [\<lparr>rm_record = demo_memory, rm_reason = ExactPhrase\<rparr>]"
  proof (elim disjE exE)
    assume "sl_selected sel = []"
    then show ?thesis using k len by simp
  next
    fix x
    assume "sl_selected sel = [x]"
    then show ?thesis using k m len by simp
  qed
  then show ?thesis using s by blast
qed

text \<open>A draft as its constructor leaves it; \<open>with_subject\<close> may have named another person.\<close>

definition draft_built :: "MemoryDraft \<Rightarrow> bool" where
  "draft_built d \<longleftrightarrow>
     (\<exists>kind content provenance confidence created_at retention subject d0.
        MemoryDraft_new kind content provenance confidence created_at retention = Inr d0 \<and> d = d0\<lparr>dr_subject := subject\<rparr>)"

lemma MemoryDraft_new_content:
  assumes "MemoryDraft_new kind content provenance confidence created_at retention = Inr d"
  shows "trim (dr_content d) \<noteq> [] \<and> str_len (dr_content d) \<le> MAX_MEMORY_CONTENT_BYTES"
  using assms by (auto simp: MemoryDraft_new_def validate_content_def bounded_text_def split: sum.splits if_splits)

lemma draft_built_content:
  assumes "draft_built (mr_draft r)"
  shows "content_ok r"
proof -
  obtain kind content provenance confidence created_at retention subject d where
    "MemoryDraft_new kind content provenance confidence created_at retention = Inr d" "mr_draft r = d\<lparr>dr_subject := subject\<rparr>"
    using assms unfolding draft_built_def by blast
  then show ?thesis using MemoryDraft_new_content by (simp add: content_ok_def)
qed

lemma with_quality_and_memory_ok:
  assumes "with_quality transcript messages decision guidance = Inr input"
    and "length items \<le> MAX_MEMORY_RETRIEVAL_ITEMS" "sum_list (map (str_len \<circ> ci_content) items) \<le> MAX_MEMORY_RETRIEVAL_BYTES"
    and "distinct (map ci_memory_id items)"
  shows "with_memory_items input items = Inr (input\<lparr>li_memory_items := items\<rparr>)"
proof -
  have limits: "MAX_CONVERSATION_MESSAGE_BYTES + MAX_HISTORY_BYTES + MAX_RUNTIME_GUIDANCE_BYTES + MAX_MEMORY_RETRIEVAL_BYTES
      \<le> MAX_LANGUAGE_MODEL_INPUT_BYTES" "MAX_LANGUAGE_MODEL_INPUT_BYTES \<le> usize_max"
    by (simp_all add: quality_consts memory_limits MAX_RUNTIME_GUIDANCE_BYTES_def MAX_LANGUAGE_MODEL_INPUT_BYTES_def
        MAX_CONVERSATION_MESSAGE_BYTES_def usize_max_def)
  from assms(1) have ok: "validate_input_text transcript = Inr ()" "length messages \<le> MAX_HISTORY_MESSAGE_COUNT"
      "sum_list (map (str_len \<circ> cm_text) messages) \<le> MAX_HISTORY_BYTES" "sum_list (map (str_len \<circ> cm_text) messages) \<le> usize_max"
      "trim guidance \<noteq> []" "str_len guidance \<le> MAX_RUNTIME_GUIDANCE_BYTES"
    and input: "input = \<lparr>li_transcript = transcript, li_recent_messages = messages, li_quality_decision = Some decision,
      li_runtime_guidance = Some guidance, li_memory_items = [], li_response_schema = None\<rparr>"
    by (auto simp: with_quality_def with_quality_and_memory_def Let_def split: sum.splits if_splits)
  have t: "str_len transcript \<le> MAX_CONVERSATION_MESSAGE_BYTES"
    using ok(1) by (auto simp: validate_input_text_def split: if_splits)
  have "with_quality_and_memory transcript messages decision guidance items =
      Inr \<lparr>li_transcript = transcript, li_recent_messages = messages, li_quality_decision = Some decision,
        li_runtime_guidance = Some guidance, li_memory_items = items, li_response_schema = None\<rparr>"
    using ok t limits assms(2,3) no_duplicate_item [of "[]" items] assms(4)
    by (simp add: with_quality_and_memory_def Let_def checked_add_usize_def)
  then show ?thesis by (simp add: with_memory_items_def input)
qed

lemma sum_context_items: "sum_list (map (str_len \<circ> ci_content \<circ> context_item) ms) = chosen_bytes ms"
  by (induction ms) simp_all

lemma sum_trace_items: "sum_list (map mt_content_bytes (map trace_item (enumerate n ms))) = chosen_bytes ms"
  by (induction ms arbitrary: n) (simp_all add: trace_item_def)

lemma distinct_selected:
  assumes "distinct (map mr_id records)"
  shows "distinct (map (mr_id \<circ> rm_record) (List.map_filter (relevant u query now) records))"
  using assms
proof (induction records)
  case (Cons r records)
  then show ?case
    by (cases "relevant u query now r") (force simp: map_filter_simps List.map_filter_def dest: relevant_record)+
qed (simp add: map_filter_simps)

lemma expire_due_fields [simp]:
  "mr_id (expire_due now r) = mr_id r" "mr_draft (expire_due now r) = mr_draft r"
  "mr_last_used_at (expire_due now r) = mr_last_used_at r"
  by (simp_all add: expire_due_def)

lemma mark_used_other: "mr_id r \<notin> set (map (mr_id \<circ> rm_record) ms) \<Longrightarrow> mark_used now ms r = r"
proof -
  assume "mr_id r \<notin> set (map (mr_id \<circ> rm_record) ms)"
  then have "find (\<lambda>m. mr_id (rm_record m) = mr_id r) ms = None" by (auto simp: find_None_iff image_iff)
  then show ?thesis by (simp add: mark_used_def)
qed



end
