(* ===== verification/Text_Turn.thy ===== *)
theory Text_Turn
  imports Conversation_Context Memory_Retrieval
begin

text \<open>
  Text turns, \<^verbatim>\<open>crates/runtime/src/text_turn.rs\<close>, with the events of \<^verbatim>\<open>crates/protocol/src/event.rs\<close> and the
  generation request of \<^verbatim>\<open>crates/model-adapters/src/generation_language.rs\<close>. A turn is a task that
  awaits at a few points; each point is one definition that says how the task goes on when it is
  polled, and \<open>None\<close> is that it still waits. The step relation interleaves the tasks of any number of
  turns with interruptions, the consumers of their events, and the other users of the shared
  conversation context. A poll of a \<open>select\<close> reads its branches at one moment, and the calls of the
  context are single steps; their own interleavings are in \<open>Conversation_Context\<close>.
\<close>

section \<open>Events and requests\<close>

datatype PlaybackState = Accepted | Rendered | Flushed

datatype RuntimeTimingMilestone = FirstTextDelta | FirstSynthesisRequest | FirstPlayableAudio

datatype RuntimeEvent =
    TurnStarted TurnId
  | TranscriptFinal TurnId rstring
  | TextDelta TurnId rstring
  | TextCompleted TurnId rstring
  | Timing TurnId RuntimeTimingMilestone u64
  | SpeechStarted TurnId
  | SpeechCompleted TurnId
  | Playback TurnId GenerationId PlaybackState
  | QualityResolved QualityDecision
  | MemoryRetrieved MemoryRetrievalTrace
  | TurnCompleted TurnId
  | TurnCancelled TurnId
  | TurnFailed TurnId RuntimeError

fun is_terminal :: "RuntimeEvent \<Rightarrow> bool" where
  "is_terminal (TurnCompleted _) = True"
| "is_terminal (TurnCancelled _) = True"
| "is_terminal (TurnFailed _ _) = True"
| "is_terminal _ = False"

record GenerationLanguageRequest =
  gr_turn_id :: TurnId
  gr_generation_id :: GenerationId
  gr_input :: LanguageModelInput

definition validate_decision_turn :: "TurnId \<Rightarrow> LanguageModelInput \<Rightarrow> unit adapter" where
  "validate_decision_turn turn_id input =
     (if (case li_quality_decision input of None \<Rightarrow> False | Some d \<Rightarrow> qd_turn_id d \<noteq> turn_id)
      then Inl (AdapterError_new ''quality decision turn does not match language-model request'') else Inr ())"

definition request_from_input :: "TurnId \<Rightarrow> GenerationId \<Rightarrow> LanguageModelInput \<Rightarrow> GenerationLanguageRequest adapter" where
  "request_from_input turn_id generation_id input =
     (case validate_decision_turn turn_id input of
        Inl e \<Rightarrow> Inl e
      | Inr _ \<Rightarrow> Inr \<lparr>gr_turn_id = turn_id, gr_generation_id = generation_id, gr_input = input\<rparr>)"

record GenerationTextDelta =
  gd_turn_id :: TurnId
  gd_generation_id :: GenerationId
  gd_delta :: rstring

section \<open>State\<close>

definition EVENT_BUFFER_SIZE :: nat where "EVENT_BUFFER_SIZE = 32"

record TextTurnOutcome =
  oc_terminal :: RuntimeEvent
  oc_generated_text :: rstring

text \<open>Where a task awaits, with the local values it holds there.\<close>

datatype turn_point =
    At_Quality
  | At_Retrieval
  | At_Retrieval_Stop TextTurnOutcome
  | At_Memory MemoryRetrievalTrace
  | At_Request
  | At_Stream
  | At_Publish GenerationTextDelta
  | At_Cleanup TextTurnOutcome
  | At_Outcome TextTurnOutcome
  | At_Commit RuntimeEvent rstring
  | At_Completed RuntimeEvent rstring
  | At_Release RuntimeEvent
  | At_Terminal RuntimeEvent
  | At_Panicked
  | Ended

text \<open>
  A task with its two cancellation tokens and its event stream: what was put into the channel, how
  much of it the consumer has taken, whether the receiver or the sender is gone, and the terminal
  event of the one-shot channel.
\<close>

record TextTurn =
  tt_identity :: ConversationTurnIdentity
  tt_input :: LanguageModelInput
  tt_maximum_response_bytes :: nat
  tt_memory_provider :: bool
  tt_external_interruption :: bool
  tt_work_cancellation :: bool
  tt_generated_text :: rstring
  tt_emitted_first_text :: bool
  tt_sent :: "RuntimeEvent list"
  tt_received :: nat
  tt_receiver_closed :: bool
  tt_sender_dropped :: bool
  tt_terminal :: "RuntimeEvent option"
  tt_terminal_taken :: bool
  tt_point :: turn_point

abbreviation tt_turn_id :: "TextTurn \<Rightarrow> TurnId" where
  "tt_turn_id t \<equiv> ti_turn_id (tt_identity t)"

abbreviation tt_interrupted :: "TextTurn \<Rightarrow> bool" where
  "tt_interrupted t \<equiv> tt_external_interruption t \<or> tt_work_cancellation t"

text \<open>The tokens of an \<open>ActiveTextTurn\<close> are shared with its task; they are those of the task above.\<close>

record ActiveTextTurn =
  ta_identity :: ConversationTurnIdentity
  ta_finalizing :: bool

section \<open>Sending events\<close>

datatype EventSend = Send_Sent | Send_Interrupted | Send_Closed

definition has_capacity :: "TextTurn \<Rightarrow> nat \<Rightarrow> bool" where
  "has_capacity t permits \<longleftrightarrow> length (tt_sent t) - tt_received t + permits \<le> EVENT_BUFFER_SIZE"

definition send_event :: "RuntimeEvent \<Rightarrow> TextTurn \<Rightarrow> (TextTurn \<times> EventSend) option" where
  "send_event event t =
     (if tt_interrupted t then Some (t, Send_Interrupted)
      else if tt_receiver_closed t then Some (t, Send_Closed)
      else if has_capacity t 1 then Some (t\<lparr>tt_sent := tt_sent t @ [event]\<rparr>, Send_Sent)
      else None)"

definition publish_text_delta :: "u64 \<Rightarrow> GenerationTextDelta \<Rightarrow> TextTurn \<Rightarrow> (TextTurn \<times> EventSend) option" where
  "publish_text_delta elapsed_ms delta t =
     (let permit_count = (if tt_emitted_first_text t then 1 else 2) in
      if tt_interrupted t then Some (t, Send_Interrupted)
      else if tt_receiver_closed t then Some (t, Send_Closed)
      else if has_capacity t permit_count
      then Some (t\<lparr>tt_sent := tt_sent t @ TextDelta (gd_turn_id delta) (gd_delta delta) #
                     (if tt_emitted_first_text t then []
                      else [Timing (gd_turn_id delta) FirstTextDelta elapsed_ms])\<rparr>, Send_Sent)
      else None)"

section \<open>Outcomes\<close>

definition cancelled_outcome :: "TextTurn \<Rightarrow> TextTurnOutcome" where
  "cancelled_outcome t = \<lparr>oc_terminal = TurnCancelled (tt_turn_id t), oc_generated_text = tt_generated_text t\<rparr>"

definition failed_outcome :: "TextTurn \<Rightarrow> string \<Rightarrow> TextTurnOutcome" where
  "failed_outcome t message =
     \<lparr>oc_terminal = TurnFailed (tt_turn_id t) (runtime_error message), oc_generated_text = []\<rparr>"

definition adapter_failure :: "TextTurn \<Rightarrow> RuntimeStage \<Rightarrow> AdapterError \<Rightarrow> TextTurnOutcome" where
  "adapter_failure t stage e =
     \<lparr>oc_terminal = TurnFailed (tt_turn_id t) (RuntimeError Kind_Adapter stage (ae_message e)),
      oc_generated_text = tt_generated_text t\<rparr>"

definition memory_failure :: "TextTurn \<Rightarrow> MemoryStoreError \<Rightarrow> TextTurnOutcome" where
  "memory_failure t e =
     adapter_failure t Stage_Memory (AdapterError_new
       (case se_kind e of
          InvalidPath \<Rightarrow> ''memory provider path is invalid''
        | NotInitialized \<Rightarrow> ''memory provider is not initialized''
        | UnsupportedSchema \<Rightarrow> ''memory provider schema is unsupported''
        | InvalidDatabase \<Rightarrow> ''memory provider database is invalid''
        | NotFound \<Rightarrow> ''memory provider record was not found''
        | Conflict \<Rightarrow> ''memory provider request conflicted''
        | Busy \<Rightarrow> ''memory provider is busy''
        | Cancelled \<Rightarrow> ''memory retrieval was cancelled''
        | LimitExceeded \<Rightarrow> ''memory retrieval scan limit was exceeded''
        | _ \<Rightarrow> ''memory provider operation failed''))"

definition memory_task_failure :: "TextTurn \<Rightarrow> bool \<Rightarrow> TextTurnOutcome" where
  "memory_task_failure t is_panic =
     adapter_failure t Stage_Memory (AdapterError_new
       (if is_panic then ''memory context provider panicked'' else ''memory context provider task failed''))"

section \<open>The points of a turn\<close>

text \<open>
  The repeated checks of the tokens behind a \<open>select\<close> or a granted permit see what the poll saw, so
  the branches they guard (a late interruption) coincide with those of the poll.
\<close>

text \<open>What the memory provider and the language model deliver.\<close>

datatype retrieval_answer = Answer_Retrieved MemoryRetrieval | Answer_Error MemoryStoreError | Answer_Join_Error bool

datatype stream_item = Item_Delta GenerationTextDelta | Item_Error AdapterError | Item_End

definition after_send :: "(TextTurn \<times> EventSend) option \<Rightarrow> (TextTurn \<Rightarrow> TextTurn) \<Rightarrow> string \<Rightarrow> TextTurn option" where
  "after_send sent resume closed_message =
     (case sent of
        None \<Rightarrow> None
      | Some (t, Send_Sent) \<Rightarrow> Some (resume t)
      | Some (t, Send_Interrupted) \<Rightarrow> Some (t\<lparr>tt_point := At_Outcome (cancelled_outcome t)\<rparr>)
      | Some (t, Send_Closed) \<Rightarrow> Some (t\<lparr>tt_point := At_Outcome (failed_outcome t closed_message)\<rparr>))"

definition quality_point :: "TextTurn \<Rightarrow> TextTurn option" where
  "quality_point t =
     (case li_quality_decision (tt_input t) of
        None \<Rightarrow> Some (t\<lparr>tt_point := At_Panicked\<rparr>)
      | Some decision \<Rightarrow>
          after_send (send_event (QualityResolved decision) t)
            (\<lambda>t. t\<lparr>tt_point := if tt_memory_provider t then At_Retrieval else At_Request\<rparr>)
            ''text event consumer closed during quality resolution'')"

definition retrieval_point :: "retrieval_answer option \<Rightarrow> TextTurn \<Rightarrow> TextTurn option" where
  "retrieval_point answer t =
     (if tt_interrupted t then Some (t\<lparr>tt_point := At_Retrieval_Stop (cancelled_outcome t)\<rparr>)
      else if tt_receiver_closed t
      then Some (t\<lparr>tt_point := At_Retrieval_Stop (failed_outcome t ''text event consumer closed during memory retrieval'')\<rparr>)
      else (case answer of
              None \<Rightarrow> None
            | Some (Answer_Retrieved retrieval) \<Rightarrow>
                (case with_memory_items (tt_input t) (rv_items retrieval) of
                   Inl e \<Rightarrow> Some (t\<lparr>tt_point := At_Outcome (adapter_failure t Stage_Memory e)\<rparr>)
                 | Inr input \<Rightarrow> Some (t\<lparr>tt_input := input, tt_point := At_Memory (rv_trace retrieval)\<rparr>))
            | Some (Answer_Error e) \<Rightarrow> Some (t\<lparr>tt_point := At_Outcome (memory_failure t e)\<rparr>)
            | Some (Answer_Join_Error is_panic) \<Rightarrow> Some (t\<lparr>tt_point := At_Outcome (memory_task_failure t is_panic)\<rparr>)))"

definition memory_point :: "MemoryRetrievalTrace \<Rightarrow> TextTurn \<Rightarrow> TextTurn option" where
  "memory_point trace t =
     after_send (send_event (MemoryRetrieved trace) t) (\<lambda>t. t\<lparr>tt_point := At_Request\<rparr>)
       ''text event consumer closed during memory publication''"

definition request_point :: "bool \<Rightarrow> TextTurn \<Rightarrow> TextTurn" where
  "request_point adapter_panics t =
     (case request_from_input (tt_turn_id t) (ti_generation_id (tt_identity t)) (tt_input t) of
        Inl e \<Rightarrow> t\<lparr>tt_point := At_Outcome (adapter_failure t Stage_LanguageModel e)\<rparr>
      | Inr request \<Rightarrow>
          if tt_interrupted t then t\<lparr>tt_point := At_Outcome (cancelled_outcome t)\<rparr>
          else if adapter_panics
          then t\<lparr>tt_point := At_Outcome (adapter_failure t Stage_LanguageModel
                    (AdapterError_new ''generation language adapter panicked''))\<rparr>
          else t\<lparr>tt_point := At_Stream\<rparr>)"

definition stream_point :: "stream_item option \<Rightarrow> TextTurn \<Rightarrow> TextTurn option" where
  "stream_point item t =
     (let failure = (\<lambda>e. adapter_failure t Stage_LanguageModel e) in
      if tt_interrupted t then Some (t\<lparr>tt_point := At_Cleanup (cancelled_outcome t)\<rparr>)
      else if tt_receiver_closed t
      then Some (t\<lparr>tt_point := At_Cleanup (failed_outcome t ''text event consumer closed during generation'')\<rparr>)
      else (case item of
              None \<Rightarrow> None
            | Some (Item_Delta delta) \<Rightarrow>
                if gd_turn_id delta \<noteq> tt_turn_id t \<or> gd_generation_id delta \<noteq> ti_generation_id (tt_identity t)
                then Some (t\<lparr>tt_point := At_Cleanup (failure
                       (AdapterError_new ''generation language delta identity mismatch''))\<rparr>)
                else if str_len (gd_delta delta) > tt_maximum_response_bytes t - str_len (tt_generated_text t)
                then Some (t\<lparr>tt_point := At_Cleanup (failure
                       (AdapterError_new ''generation language response exceeds the completed history limit''))\<rparr>)
                else Some (t\<lparr>tt_point := At_Publish delta\<rparr>)
            | Some (Item_Error e) \<Rightarrow> Some (t\<lparr>tt_point := At_Cleanup (failure e)\<rparr>)
            | Some Item_End \<Rightarrow>
                if trim (tt_generated_text t) = []
                then Some (t\<lparr>tt_point := At_Outcome (failure (AdapterError_new ''generation language response is empty''))\<rparr>)
                else Some (t\<lparr>tt_point := At_Outcome \<lparr>oc_terminal = TurnCompleted (tt_turn_id t),
                               oc_generated_text = tt_generated_text t\<rparr>\<rparr>)))"

definition publish_point :: "u64 \<Rightarrow> GenerationTextDelta \<Rightarrow> TextTurn \<Rightarrow> TextTurn option" where
  "publish_point elapsed_ms delta t =
     (case publish_text_delta elapsed_ms delta t of
        None \<Rightarrow> None
      | Some (t, Send_Sent) \<Rightarrow>
          Some (t\<lparr>tt_generated_text := tt_generated_text t @ gd_delta delta, tt_emitted_first_text := True,
                  tt_point := At_Stream\<rparr>)
      | Some (t, Send_Interrupted) \<Rightarrow> Some (t\<lparr>tt_point := At_Cleanup (cancelled_outcome t)\<rparr>)
      | Some (t, Send_Closed) \<Rightarrow>
          Some (t\<lparr>tt_point := At_Cleanup (failed_outcome t ''text event consumer closed during text publication'')\<rparr>))"

text \<open>\<open>cleanup_language_stream\<close> drains the deltas until the model closes their channel.\<close>

definition cleanup_language_stream :: "stream_item option \<Rightarrow> TextTurnOutcome \<Rightarrow> TextTurn \<Rightarrow> TextTurn option" where
  "cleanup_language_stream item outcome t =
     (case item of
        None \<Rightarrow> None
      | Some Item_End \<Rightarrow> Some (t\<lparr>tt_point := At_Outcome outcome\<rparr>)
      | Some _ \<Rightarrow> Some t)"

section \<open>The end of a turn\<close>

definition claim_completion :: "ActiveTextTurn option \<Rightarrow> TextTurn \<Rightarrow> ActiveTextTurn option \<times> bool" where
  "claim_completion active t =
     (case active of
        Some a \<Rightarrow>
          if ta_identity a = tt_identity t \<and> \<not> ta_finalizing a \<and> \<not> tt_external_interruption t
          then (Some (a\<lparr>ta_finalizing := True\<rparr>), True) else (active, False)
      | None \<Rightarrow> (active, False))"

definition outcome_point ::
  "TextTurnOutcome \<Rightarrow> ActiveTextTurn option \<Rightarrow> TextTurn \<Rightarrow> ActiveTextTurn option \<times> TextTurn" where
  "outcome_point outcome active t =
     (let (active, completed) =
            (case oc_terminal outcome of TurnCompleted _ \<Rightarrow> claim_completion active t | _ \<Rightarrow> (active, False));
          terminal =
            (if completed then oc_terminal outcome
             else if tt_external_interruption t then TurnCancelled (tt_turn_id t)
             else oc_terminal outcome)
      in (active, t\<lparr>tt_point := At_Commit terminal (oc_generated_text outcome)\<rparr>))"

definition commit_point ::
  "RuntimeEvent \<Rightarrow> rstring \<Rightarrow> 'm ConversationContext \<Rightarrow> TextTurn \<Rightarrow> 'm ConversationContext \<times> TextTurn" where
  "commit_point terminal generated_text context t =
     (case (case terminal of
              TurnCompleted _ \<Rightarrow> context_complete_turn context (tt_identity t) generated_text
            | TurnCancelled _ \<Rightarrow> Some (context_discard_turn context (tt_identity t) True)
            | TurnFailed _ _ \<Rightarrow> Some (context_discard_turn context (tt_identity t) False)
            | _ \<Rightarrow> Some (context, Inl (runtime_error ''text turn produced a nonterminal result''))) of
        None \<Rightarrow> (context, t\<lparr>tt_point := At_Panicked\<rparr>)
      | Some (context, Inl error) \<Rightarrow> (context, t\<lparr>tt_point := At_Release (TurnFailed (tt_turn_id t) error)\<rparr>)
      | Some (context, Inr _) \<Rightarrow>
          (context, t\<lparr>tt_point := (case terminal of
                                     TurnCompleted _ \<Rightarrow> At_Completed terminal generated_text
                                   | _ \<Rightarrow> At_Release terminal)\<rparr>))"

definition completed_point :: "RuntimeEvent \<Rightarrow> rstring \<Rightarrow> TextTurn \<Rightarrow> TextTurn option" where
  "completed_point terminal generated_text t =
     (if tt_receiver_closed t then Some (t\<lparr>tt_point := At_Release terminal\<rparr>)
      else if has_capacity t 1
      then Some (t\<lparr>tt_sent := tt_sent t @ [TextCompleted (tt_turn_id t) generated_text], tt_point := At_Release terminal\<rparr>)
      else None)"

definition release_point :: "RuntimeEvent \<Rightarrow> ActiveTextTurn option \<Rightarrow> TextTurn \<Rightarrow> ActiveTextTurn option \<times> TextTurn" where
  "release_point terminal active t =
     ((case active of
         Some a \<Rightarrow> if ta_identity a = tt_identity t then None else active
       | None \<Rightarrow> active),
      t\<lparr>tt_sender_dropped := True, tt_point := At_Terminal terminal\<rparr>)"

section \<open>Polls\<close>

record awaited =
  aw_retrieval :: "retrieval_answer option"
  aw_item :: "stream_item option"
  aw_panics :: bool
  aw_elapsed_ms :: u64

definition local_poll :: "awaited \<Rightarrow> TextTurn \<Rightarrow> TextTurn option" where
  "local_poll aw t =
     (case tt_point t of
        At_Quality \<Rightarrow> quality_point t
      | At_Retrieval \<Rightarrow> retrieval_point (aw_retrieval aw) t
      | At_Retrieval_Stop outcome \<Rightarrow>
          (case aw_retrieval aw of None \<Rightarrow> None | Some _ \<Rightarrow> Some (t\<lparr>tt_point := At_Outcome outcome\<rparr>))
      | At_Memory trace \<Rightarrow> memory_point trace t
      | At_Request \<Rightarrow> Some (request_point (aw_panics aw) t)
      | At_Stream \<Rightarrow> stream_point (aw_item aw) t
      | At_Publish delta \<Rightarrow> publish_point (aw_elapsed_ms aw) delta t
      | At_Cleanup outcome \<Rightarrow> cleanup_language_stream (aw_item aw) outcome t
      | At_Completed terminal txt \<Rightarrow> completed_point terminal txt t
      | At_Terminal terminal \<Rightarrow> Some (t\<lparr>tt_terminal := Some terminal, tt_point := Ended\<rparr>)
      | _ \<Rightarrow> None)"

text \<open>One poll of the task of a turn: \<open>run_text_turn\<close> and the closing block of \<open>start_turn\<close>.\<close>

definition turn_poll ::
  "awaited \<Rightarrow> 'm ConversationContext \<Rightarrow> ActiveTextTurn option \<Rightarrow> TextTurn \<Rightarrow>
   ('m ConversationContext \<times> ActiveTextTurn option \<times> TextTurn) option" where
  "turn_poll aw context active t =
     (case tt_point t of
        At_Outcome outcome \<Rightarrow>
          (case outcome_point outcome active t of (active, t) \<Rightarrow> Some (context, active, t))
      | At_Commit terminal txt \<Rightarrow>
          (case commit_point terminal txt context t of (context, t) \<Rightarrow> Some (context, active, t))
      | At_Release terminal \<Rightarrow>
          (case release_point terminal active t of (active, t) \<Rightarrow> Some (context, active, t))
      | _ \<Rightarrow> map_option (\<lambda>t. (context, active, t)) (local_poll aw t))"

section \<open>The runtime\<close>

text \<open>
  The runtime with the turns it has started, by identity, and the identities that other users of the
  context were given.
\<close>

record 'm text_runtime =
  rx_context :: "'m ConversationContext"
  rx_active :: "ActiveTextTurn option"
  rx_turns :: "ConversationTurnIdentity \<rightharpoonup> TextTurn"
  rx_others :: "ConversationTurnIdentity set"

abbreviation new_text_turn :: "ConversationTurnIdentity \<Rightarrow> LanguageModelInput \<Rightarrow> bool \<Rightarrow> TextTurn" where
  "new_text_turn identity input memory_provider \<equiv>
     \<lparr>tt_identity = identity, tt_input = input,
      tt_maximum_response_bytes = MAX_CONVERSATION_MESSAGE_BYTES - str_len (li_transcript input),
      tt_memory_provider = memory_provider,
      tt_external_interruption = False, tt_work_cancellation = False, tt_generated_text = [],
      tt_emitted_first_text = False, tt_sent = [TurnStarted (ti_turn_id identity)],
      tt_received = 0, tt_receiver_closed = False, tt_sender_dropped = False,
      tt_terminal = None, tt_terminal_taken = False, tt_point = At_Quality\<rparr>"

definition start_turn ::
  "Unicode \<Rightarrow> 'm text_runtime \<Rightarrow> rstring \<Rightarrow> 'm text_runtime \<times> ConversationTurnIdentity result" where
  "start_turn u s transcript =
     (case begin_turn u (rx_context s) Source_Text transcript of
        (context, Inl e) \<Rightarrow> (s\<lparr>rx_context := context\<rparr>, Inl e)
      | (context, Inr prepared) \<Rightarrow>
          let identity = pr_identity prepared in
          (case rx_active s of
             Some active \<Rightarrow>
               (s\<lparr>rx_context := fst (context_discard_turn context identity False)\<rparr>,
                Inl (runtime_error (''turn '' @ show_word (ti_turn_id (ta_identity active)) @
                       '' generation '' @ show_word (ti_generation_id (ta_identity active)) @ '' is still active'')))
           | None \<Rightarrow>
               (case with_quality (pr_transcript prepared) (rq_history_messages (pr_resolved prepared))
                       (rq_decision (pr_resolved prepared)) (str_of (rq_system_guidance (pr_resolved prepared))) of
                  Inl e \<Rightarrow>
                    (s\<lparr>rx_context := fst (context_discard_turn context identity False), rx_active := None\<rparr>,
                     Inl (RuntimeError Kind_Adapter Stage_LanguageModel (ae_message e)))
                | Inr input \<Rightarrow>
                    (s\<lparr>rx_context := context,
                       rx_active := Some \<lparr>ta_identity = identity, ta_finalizing = False\<rparr>,
                       rx_turns := (rx_turns s)(identity \<mapsto>
                         new_text_turn identity input (cc_memory context \<noteq> None))\<rparr>,
                     Inr identity))))"

definition interrupt :: "'m text_runtime \<Rightarrow> TurnId \<Rightarrow> 'm text_runtime \<times> unit result" where
  "interrupt s turn_id =
     (case rx_active s of
        Some active \<Rightarrow>
          if ti_turn_id (ta_identity active) = turn_id
          then if ta_finalizing active then (s, Inr ())
               else (s\<lparr>rx_turns := (rx_turns s)(ta_identity active :=
                        map_option (\<lambda>t. t\<lparr>tt_external_interruption := True, tt_work_cancellation := True\<rparr>)
                          (rx_turns s (ta_identity active)))\<rparr>, Inr ())
          else (s, Inl (runtime_error (''turn '' @ show_word (ti_turn_id (ta_identity active)) @
                     '' is active, not turn '' @ show_word turn_id)))
      | None \<Rightarrow> (s, Inl (runtime_error ''there is no active text generation'')))"

text \<open>\<open>TextTurnEventStream::recv\<close>; \<open>None\<close> is that the consumer waits.\<close>

definition stream_recv :: "TextTurn \<Rightarrow> (TextTurn \<times> RuntimeEvent option) option" where
  "stream_recv t =
     (if tt_received t < length (tt_sent t)
      then Some (t\<lparr>tt_received := tt_received t + 1\<rparr>, Some (tt_sent t ! tt_received t))
      else if \<not> tt_sender_dropped t \<and> tt_point t \<noteq> At_Panicked then None
      else if tt_terminal_taken t then Some (t, None)
      else (case tt_terminal t of
              Some event \<Rightarrow> Some (t\<lparr>tt_terminal_taken := True\<rparr>, Some event)
            | None \<Rightarrow> if tt_point t = At_Panicked then Some (t\<lparr>tt_terminal_taken := True\<rparr>, None) else None))"

text \<open>The steps of the runtime and of everything around it.\<close>

inductive text_step :: "Unicode \<Rightarrow> 'm text_runtime \<Rightarrow> 'm text_runtime \<Rightarrow> bool" for u where
  start: "start_turn u s transcript = (s', r) \<Longrightarrow> text_step u s s'"
| poll: "rx_turns s i = Some t \<Longrightarrow> turn_poll aw (rx_context s) (rx_active s) t = Some (c, a, t') \<Longrightarrow>
    text_step u s (s\<lparr>rx_context := c, rx_active := a, rx_turns := (rx_turns s)(i \<mapsto> t')\<rparr>)"
| interrupt: "interrupt s turn_id = (s', r) \<Longrightarrow> text_step u s s'"
| recv: "rx_turns s i = Some t \<Longrightarrow> \<not> tt_receiver_closed t \<Longrightarrow> stream_recv t = Some (t', event) \<Longrightarrow>
    text_step u s (s\<lparr>rx_turns := (rx_turns s)(i \<mapsto> t')\<rparr>)"
| close: "rx_turns s i = Some t \<Longrightarrow>
    text_step u s (s\<lparr>rx_turns := (rx_turns s)(i \<mapsto> t\<lparr>tt_receiver_closed := True\<rparr>)\<rparr>)"
| other_begin: "begin_turn u (rx_context s) source transcript = (c, Inr p) \<Longrightarrow>
    text_step u s (s\<lparr>rx_context := c, rx_others := insert (pr_identity p) (rx_others s)\<rparr>)"
| other_begin_error: "begin_turn u (rx_context s) source transcript = (c, Inl e) \<Longrightarrow>
    text_step u s (s\<lparr>rx_context := c\<rparr>)"
| other_complete: "i \<in> rx_others s \<Longrightarrow> context_complete_turn (rx_context s) i txt = Some (c, r) \<Longrightarrow>
    text_step u s (s\<lparr>rx_context := c\<rparr>)"
| other_discard: "i \<in> rx_others s \<Longrightarrow> context_discard_turn (rx_context s) i b = (c, r) \<Longrightarrow>
    text_step u s (s\<lparr>rx_context := c\<rparr>)"
| persona: "apply_persona (rx_context s) p m = (c, r) \<Longrightarrow> text_step u s (s\<lparr>rx_context := c\<rparr>)"
| seed: "seed_completed_history (rx_context s) operation exchanges = (c, r) \<Longrightarrow> text_step u s (s\<lparr>rx_context := c\<rparr>)"

definition text_initial :: "'m option \<Rightarrow> QualityController \<Rightarrow> 'm text_runtime" where
  "text_initial memory q =
     \<lparr>rx_context = (Context_new q)\<lparr>cc_memory := memory\<rparr>, rx_active = None, rx_turns = Map.empty, rx_others = {}\<rparr>"

inductive text_steps :: "Unicode \<Rightarrow> 'm text_runtime \<Rightarrow> 'm text_runtime \<Rightarrow> bool" for u where
  none: "text_steps u s s"
| more: "text_steps u s s' \<Longrightarrow> text_step u s' s'' \<Longrightarrow> text_steps u s s''"

definition text_reachable :: "Unicode \<Rightarrow> 'm text_runtime \<Rightarrow> bool" where
  "text_reachable u s \<longleftrightarrow>
     (\<exists>memory q. quality_ok q \<and> q_pending_turn q = None \<and> text_steps u (text_initial memory q) s)"

section \<open>The invariant of a turn\<close>

text \<open>The text events of the deltas \<open>ds\<close>: the first one is followed by its timing.\<close>

fun text_events :: "TurnId \<Rightarrow> rstring list \<Rightarrow> u64 \<Rightarrow> RuntimeEvent list" where
  "text_events i [] e = []"
| "text_events i (d # ds) e = TextDelta i d # Timing i FirstTextDelta e # map (TextDelta i) ds"

lemma text_events_snoc:
  "text_events i (ds @ [d]) e =
     (if ds = [] then [TextDelta i d, Timing i FirstTextDelta e] else text_events i ds e @ [TextDelta i d])"
  by (cases ds) simp_all

definition header_full :: "TextTurn \<Rightarrow> RuntimeEvent list \<Rightarrow> bool" where
  "header_full t h \<longleftrightarrow>
     (\<exists>d. li_quality_decision (tt_input t) = Some d \<and>
        (if tt_memory_provider t then \<exists>trace. h = [QualityResolved d, MemoryRetrieved trace] else h = [QualityResolved d]))"

definition header_ok :: "TextTurn \<Rightarrow> RuntimeEvent list \<Rightarrow> bool" where
  "header_ok t h \<longleftrightarrow>
     h = [] \<or> (\<exists>d. li_quality_decision (tt_input t) = Some d \<and> h = [QualityResolved d]) \<or> header_full t h"

definition stream_is ::
  "TextTurn \<Rightarrow> (RuntimeEvent list \<Rightarrow> rstring list \<Rightarrow> bool) \<Rightarrow> RuntimeEvent list \<Rightarrow> bool" where
  "stream_is t P tail \<longleftrightarrow>
     (\<exists>h ds e. tt_sent t = TurnStarted (tt_turn_id t) # h @ text_events (tt_turn_id t) ds e @ tail \<and> P h ds \<and>
        tt_generated_text t = concat ds \<and> (tt_emitted_first_text t \<longleftrightarrow> ds \<noteq> []))"

abbreviation any_stream :: "TextTurn \<Rightarrow> RuntimeEvent list \<Rightarrow> bool" where
  "any_stream t \<equiv> stream_is t (\<lambda>h ds. header_ok t h \<and> (ds \<noteq> [] \<longrightarrow> header_full t h))"

abbreviation open_stream :: "TextTurn \<Rightarrow> bool" where
  "open_stream t \<equiv> stream_is t (\<lambda>h ds. header_full t h) []"

definition completes :: "TextTurn \<Rightarrow> RuntimeEvent \<Rightarrow> rstring \<Rightarrow> bool" where
  "completes t e txt \<longleftrightarrow>
     e = TurnCompleted (tt_turn_id t) \<and> txt = tt_generated_text t \<and> trim txt \<noteq> [] \<and> open_stream t"

definition gives_up :: "TextTurn \<Rightarrow> RuntimeEvent \<Rightarrow> bool" where
  "gives_up t e \<longleftrightarrow> (e = TurnCancelled (tt_turn_id t) \<or> (\<exists>error. e = TurnFailed (tt_turn_id t) error)) \<and> any_stream t []"

text \<open>A turn that completed: its text was published, unless nobody listened any more.\<close>

definition completed_stream :: "TextTurn \<Rightarrow> bool" where
  "completed_stream t \<longleftrightarrow>
     trim (tt_generated_text t) \<noteq> [] \<and>
     (stream_is t (\<lambda>h ds. header_full t h) [TextCompleted (tt_turn_id t) (tt_generated_text t)] \<or>
      tt_receiver_closed t \<and> open_stream t)"

definition ends_with :: "TextTurn \<Rightarrow> RuntimeEvent \<Rightarrow> bool" where
  "ends_with t e \<longleftrightarrow>
     e = TurnCompleted (tt_turn_id t) \<and> completed_stream t \<and> \<not> tt_external_interruption t \<or> gives_up t e"

fun point_ok :: "TextTurn \<Rightarrow> turn_point \<Rightarrow> bool" where
  "point_ok t At_Quality = stream_is t (\<lambda>h ds. h = [] \<and> ds = []) []"
| "point_ok t At_Retrieval =
     (tt_memory_provider t \<and> stream_is t (\<lambda>h ds. h = [QualityResolved (the (li_quality_decision (tt_input t)))] \<and> ds = []) [])"
| "point_ok t (At_Memory trace) =
     (tt_memory_provider t \<and> stream_is t (\<lambda>h ds. h = [QualityResolved (the (li_quality_decision (tt_input t)))] \<and> ds = []) [])"
| "point_ok t At_Request = stream_is t (\<lambda>h ds. header_full t h \<and> ds = []) []"
| "point_ok t At_Stream = open_stream t"
| "point_ok t (At_Publish delta) =
     (open_stream t \<and> gd_turn_id delta = tt_turn_id t \<and>
      str_len (gd_delta delta) \<le> tt_maximum_response_bytes t - str_len (tt_generated_text t))"
| "point_ok t (At_Retrieval_Stop outcome) = gives_up t (oc_terminal outcome)"
| "point_ok t (At_Cleanup outcome) = gives_up t (oc_terminal outcome)"
| "point_ok t (At_Outcome outcome) =
     (completes t (oc_terminal outcome) (oc_generated_text outcome) \<or> gives_up t (oc_terminal outcome))"
| "point_ok t (At_Commit e txt) =
     (completes t e txt \<and> \<not> tt_external_interruption t \<or> gives_up t e)"
| "point_ok t (At_Completed e txt) = (completes t e txt \<and> \<not> tt_external_interruption t)"
| "point_ok t (At_Release e) = ends_with t e"
| "point_ok t (At_Terminal e) = (ends_with t e \<and> tt_sender_dropped t)"
| "point_ok t At_Panicked = False"
| "point_ok t Ended = (\<exists>e. tt_terminal t = Some e \<and> ends_with t e \<and> tt_sender_dropped t)"

definition base_ok :: "TextTurn \<Rightarrow> bool" where
  "base_ok t \<longleftrightarrow>
     tt_maximum_response_bytes t = MAX_CONVERSATION_MESSAGE_BYTES - str_len (li_transcript (tt_input t)) \<and>
     str_len (tt_generated_text t) \<le> tt_maximum_response_bytes t \<and>
     (\<exists>d. li_quality_decision (tt_input t) = Some d \<and> qd_turn_id d = tt_turn_id t) \<and>
     tt_work_cancellation t = tt_external_interruption t \<and>
     tt_received t \<le> length (tt_sent t) \<and> length (tt_sent t) - tt_received t \<le> EVENT_BUFFER_SIZE \<and>
     (tt_point t \<noteq> Ended \<longrightarrow> tt_terminal t = None)"

definition local_ok :: "TextTurn \<Rightarrow> bool" where
  "local_ok t \<longleftrightarrow> base_ok t \<and> point_ok t (tt_point t)"

text \<open>The points before the context was told the outcome, and those before the runtime was released.\<close>

fun live :: "turn_point \<Rightarrow> bool" where
  "live (At_Completed _ _) = False"
| "live (At_Release _) = False"
| "live (At_Terminal _) = False"
| "live At_Panicked = False"
| "live Ended = False"
| "live _ = True"

fun unreleased :: "turn_point \<Rightarrow> bool" where
  "unreleased (At_Terminal _) = False"
| "unreleased At_Panicked = False"
| "unreleased Ended = False"
| "unreleased _ = True"

lemma stream_point_irrelevant [simp]:
  "stream_is (t\<lparr>tt_point := p\<rparr>) P tail = stream_is t P tail"
  "header_full (t\<lparr>tt_point := p\<rparr>) h = header_full t h" "header_ok (t\<lparr>tt_point := p\<rparr>) h = header_ok t h"
  "gives_up (t\<lparr>tt_point := p\<rparr>) e = gives_up t e" "completes (t\<lparr>tt_point := p\<rparr>) e txt = completes t e txt"
  "ends_with (t\<lparr>tt_point := p\<rparr>) e = ends_with t e"
  by (simp_all add: stream_is_def header_full_def header_ok_def gives_up_def completes_def ends_with_def completed_stream_def)

lemma stream_terminal_irrelevant [simp]:
  "stream_is (t\<lparr>tt_terminal := x\<rparr>) P tail = stream_is t P tail"
  "header_full (t\<lparr>tt_terminal := x\<rparr>) h = header_full t h" "header_ok (t\<lparr>tt_terminal := x\<rparr>) h = header_ok t h"
  "ends_with (t\<lparr>tt_terminal := x\<rparr>) e = ends_with t e"
  by (simp_all add: stream_is_def header_full_def header_ok_def gives_up_def ends_with_def completed_stream_def)

lemma stream_is_mono: "stream_is t P tail \<Longrightarrow> (\<And>h ds. P h ds \<Longrightarrow> Q h ds) \<Longrightarrow> stream_is t Q tail"
  unfolding stream_is_def by blast

lemma open_any: "open_stream t \<Longrightarrow> any_stream t []"
  by (erule stream_is_mono) (simp add: header_ok_def)

lemma point_any_stream:
  assumes "point_ok t p" "base_ok t" "p \<in> {At_Quality, At_Retrieval, At_Request, At_Stream} \<or> (\<exists>tr. p = At_Memory tr) \<or> (\<exists>d. p = At_Publish d)"
  shows "any_stream t []"
proof -
  obtain d where d: "li_quality_decision (tt_input t) = Some d" using assms(2) by (auto simp: base_ok_def)
  from assms(3) show ?thesis
  proof (elim disjE exE insertE emptyE)
    assume "p = At_Quality"
    then show ?thesis using assms(1) by (auto elim!: stream_is_mono simp: header_ok_def)
  next
    assume "p = At_Retrieval"
    then show ?thesis using assms(1) d by (auto elim!: stream_is_mono simp: header_ok_def)
  next
    assume "p = At_Request"
    then show ?thesis using assms(1) by (auto elim!: stream_is_mono simp: header_ok_def)
  next
    assume "p = At_Stream"
    then show ?thesis using assms(1) open_any by simp
  next
    fix tr assume "p = At_Memory tr"
    then show ?thesis using assms(1) d by (auto elim!: stream_is_mono simp: header_ok_def)
  next
    fix delta assume "p = At_Publish delta"
    then show ?thesis using assms(1) open_any by simp
  qed
qed

lemma gives_up_outcomes:
  assumes "any_stream t []"
  shows "gives_up t (oc_terminal (cancelled_outcome t))" "gives_up t (oc_terminal (failed_outcome t m))"
    "gives_up t (oc_terminal (adapter_failure t stage e))" "gives_up t (oc_terminal (memory_failure t me))"
    "gives_up t (oc_terminal (memory_task_failure t b))"
  using assms
  by (simp_all add: gives_up_def cancelled_outcome_def failed_outcome_def adapter_failure_def memory_failure_def memory_task_failure_def)

fun claimed :: "turn_point \<Rightarrow> bool" where
  "claimed (At_Commit (TurnCompleted _) _) = True"
| "claimed (At_Completed _ _) = True"
| "claimed (At_Release (TurnCompleted _)) = True"
| "claimed _ = False"

lemma base_point: "base_ok t \<Longrightarrow> tt_point t \<noteq> Ended \<Longrightarrow> base_ok (t\<lparr>tt_point := p\<rparr>)"
  by (simp add: base_ok_def)

lemma local_point: "base_ok t \<Longrightarrow> tt_point t \<noteq> Ended \<Longrightarrow> point_ok (t\<lparr>tt_point := p\<rparr>) p \<Longrightarrow> local_ok (t\<lparr>tt_point := p\<rparr>)"
  by (simp add: local_ok_def base_point)

text \<open>What a poll of a task alone leaves as it is.\<close>

definition same_turn :: "TextTurn \<Rightarrow> TextTurn \<Rightarrow> bool" where
  "same_turn t t' \<longleftrightarrow>
     tt_identity t' = tt_identity t \<and> tt_external_interruption t' = tt_external_interruption t \<and>
     li_transcript (tt_input t') = li_transcript (tt_input t) \<and> live (tt_point t') = live (tt_point t) \<and>
     unreleased (tt_point t') = unreleased (tt_point t) \<and> claimed (tt_point t') = claimed (tt_point t)"

lemma sent_event:
  assumes "base_ok t" "tt_point t \<noteq> Ended" "has_capacity t (length es)" "0 < length es"
  shows "base_ok (t\<lparr>tt_sent := tt_sent t @ es\<rparr>)"
  using assms by (auto simp: base_ok_def has_capacity_def)

lemma sent_text:
  assumes "base_ok t" "tt_point t \<noteq> Ended" "has_capacity t (length es)" "0 < length es"
    and "str_len d \<le> tt_maximum_response_bytes t - str_len (tt_generated_text t)"
  shows "base_ok (t\<lparr>tt_sent := tt_sent t @ es, tt_generated_text := tt_generated_text t @ d, tt_emitted_first_text := True\<rparr>)"
  using assms by (auto simp: base_ok_def has_capacity_def)

lemma live_unreleased: "live p \<Longrightarrow> p \<noteq> Ended \<and> unreleased p"
  by (cases p) simp_all

lemma stop_point:
  assumes "local_ok t" "any_stream t []" "live (tt_point t)" "\<not> claimed (tt_point t)"
    and "t' = t\<lparr>tt_point := p\<rparr>" "p = At_Outcome o1 \<or> p = At_Cleanup o1 \<or> p = At_Retrieval_Stop o1"
    and "gives_up t (oc_terminal o1)"
  shows "local_ok t' \<and> same_turn t t'"
  using assms local_point [of t p] live_unreleased [OF assms(3)] by (auto simp: local_ok_def [of t] same_turn_def)

lemma stops:
  assumes "local_ok t" "any_stream t []" "live (tt_point t)" "\<not> claimed (tt_point t)"
  shows "gives_up t (oc_terminal o1) \<Longrightarrow> local_ok (t\<lparr>tt_point := At_Outcome o1\<rparr>) \<and> same_turn t (t\<lparr>tt_point := At_Outcome o1\<rparr>)"
    and "gives_up t (oc_terminal o1) \<Longrightarrow> local_ok (t\<lparr>tt_point := At_Cleanup o1\<rparr>) \<and> same_turn t (t\<lparr>tt_point := At_Cleanup o1\<rparr>)"
    and "gives_up t (oc_terminal o1) \<Longrightarrow>
      local_ok (t\<lparr>tt_point := At_Retrieval_Stop o1\<rparr>) \<and> same_turn t (t\<lparr>tt_point := At_Retrieval_Stop o1\<rparr>)"
  using stop_point [OF assms refl] by blast+

lemmas polls = quality_point_def memory_point_def after_send_def send_event_def

lemma with_memory_items_keeps:
  "with_memory_items input items = Inr input' \<Longrightarrow>
   li_quality_decision input' = li_quality_decision input \<and> li_transcript input' = li_transcript input"
  by (auto simp: with_memory_items_def with_quality_and_memory_def Let_def split: option.splits sum.splits if_splits)

lemma quality_poll:
  assumes ok: "local_ok t" and p: "tt_point t = At_Quality" and poll: "quality_point t = Some t'"
  shows "local_ok t' \<and> same_turn t t'"
proof -
  have b: "base_ok t" "point_ok t At_Quality" using ok p by (simp_all add: local_ok_def)
  obtain d where d: "li_quality_decision (tt_input t) = Some d" using b(1) by (auto simp: base_ok_def)
  have any: "any_stream t []" using point_any_stream [OF b(2,1)] by simp
  note stop = stops [OF ok any] gives_up_outcomes [OF any]
  consider (interrupted) "tt_interrupted t" | (closed) "\<not> tt_interrupted t" "tt_receiver_closed t"
    | (sent) "\<not> tt_interrupted t" "\<not> tt_receiver_closed t" "has_capacity t 1"
      "t' = t\<lparr>tt_sent := tt_sent t @ [QualityResolved d], tt_point := if tt_memory_provider t then At_Retrieval else At_Request\<rparr>"
    using poll d by (auto simp: polls split: if_splits)
  then show ?thesis
  proof cases
    case interrupted
    then show ?thesis using poll d p by (auto simp: polls stop)
  next
    case closed
    then show ?thesis using poll d p by (auto simp: polls stop)
  next
    case sent
    define t1 where "t1 = t\<lparr>tt_sent := tt_sent t @ [QualityResolved d]\<rparr>"
    have b1: "base_ok t1" unfolding t1_def using sent_event [OF b(1), of "[QualityResolved d]"] sent(3) p by simp
    have "stream_is t1 (\<lambda>h ds. h = [QualityResolved d] \<and> ds = []) []"
      using b(2) by (auto simp: stream_is_def t1_def)
    then have "point_ok t1 (if tt_memory_provider t1 then At_Retrieval else At_Request)"
      using d by (auto simp: t1_def header_full_def elim!: stream_is_mono)
    then show ?thesis
      using local_point [OF b1, of "if tt_memory_provider t1 then At_Retrieval else At_Request"] sent(4) p
      by (cases "tt_memory_provider t") (simp_all add: t1_def same_turn_def)
  qed
qed

lemma memory_poll:
  assumes ok: "local_ok t" and p: "tt_point t = At_Memory trace" and poll: "memory_point trace t = Some t'"
  shows "local_ok t' \<and> same_turn t t'"
proof -
  have b: "base_ok t" "point_ok t (At_Memory trace)" using ok p by (simp_all add: local_ok_def)
  obtain d where d: "li_quality_decision (tt_input t) = Some d" using b(1) by (auto simp: base_ok_def)
  have any: "any_stream t []" using point_any_stream [OF b(2,1)] by simp
  note stop = stops [OF ok any] gives_up_outcomes [OF any]
  consider (interrupted) "tt_interrupted t" | (closed) "\<not> tt_interrupted t" "tt_receiver_closed t"
    | (sent) "\<not> tt_interrupted t" "\<not> tt_receiver_closed t" "has_capacity t 1"
      "t' = t\<lparr>tt_sent := tt_sent t @ [MemoryRetrieved trace], tt_point := At_Request\<rparr>"
    using poll by (auto simp: polls split: if_splits)
  then show ?thesis
  proof cases
    case interrupted
    then show ?thesis using poll p by (auto simp: polls stop)
  next
    case closed
    then show ?thesis using poll p by (auto simp: polls stop)
  next
    case sent
    define t1 where "t1 = t\<lparr>tt_sent := tt_sent t @ [MemoryRetrieved trace]\<rparr>"
    have b1: "base_ok t1" unfolding t1_def using sent_event [OF b(1), of "[MemoryRetrieved trace]"] sent(3) p by simp
    have "stream_is t1 (\<lambda>h ds. h = [QualityResolved d, MemoryRetrieved trace] \<and> ds = []) []"
      using b(2) d by (auto simp: stream_is_def t1_def)
    then have "point_ok t1 At_Request"
      using d b(2) by (auto simp: t1_def header_full_def elim!: stream_is_mono)
    then show ?thesis using local_point [OF b1, of At_Request] sent(4) p by (simp add: t1_def same_turn_def)
  qed
qed

lemma retrieval_poll:
  assumes ok: "local_ok t" and p: "tt_point t = At_Retrieval" and poll: "retrieval_point answer t = Some t'"
  shows "local_ok t' \<and> same_turn t t'"
proof -
  have b: "base_ok t" "point_ok t At_Retrieval" using ok p by (simp_all add: local_ok_def)
  have any: "any_stream t []" using point_any_stream [OF b(2,1)] by simp
  note stop = stops [OF ok any] gives_up_outcomes [OF any]
  show ?thesis
  proof (cases "\<exists>retrieval input. answer = Some (Answer_Retrieved retrieval) \<and> \<not> tt_interrupted t \<and> \<not> tt_receiver_closed t \<and>
      with_memory_items (tt_input t) (rv_items retrieval) = Inr input")
    case True
    then obtain retrieval input where a: "answer = Some (Answer_Retrieved retrieval)" "\<not> tt_interrupted t" "\<not> tt_receiver_closed t"
      and w: "with_memory_items (tt_input t) (rv_items retrieval) = Inr input" by blast
    have r: "with_memory_items (tt_input t) (rv_items retrieval) = Inr input"
      "t' = t\<lparr>tt_input := input, tt_point := At_Memory (rv_trace retrieval)\<rparr>"
      using poll a w by (simp_all add: retrieval_point_def)
    note keeps = with_memory_items_keeps [OF r(1)]
    have "base_ok t'" using b(1) p keeps by (simp add: r(2) base_ok_def)
    moreover have "point_ok t' (At_Memory (rv_trace retrieval))" using b(2) keeps by (simp add: r(2) stream_is_def)
    ultimately show ?thesis using keeps p by (simp add: local_ok_def same_turn_def r(2))
  next
    case False
    then show ?thesis using poll p
      by (auto simp: retrieval_point_def stop split: if_splits option.splits retrieval_answer.splits sum.splits)
  qed
qed

lemma request_poll:
  assumes ok: "local_ok t" and p: "tt_point t = At_Request"
  shows "local_ok (request_point b t) \<and> same_turn t (request_point b t)"
proof -
  have b: "base_ok t" "point_ok t At_Request" using ok p by (simp_all add: local_ok_def)
  have any: "any_stream t []" using point_any_stream [OF b(2,1)] by simp
  note stop = stops [OF ok any] gives_up_outcomes [OF any]
  have "local_ok (t\<lparr>tt_point := At_Stream\<rparr>)" using b p by (intro local_point) (auto elim!: stream_is_mono)
  moreover have "same_turn t (t\<lparr>tt_point := At_Stream\<rparr>)" using p by (simp add: same_turn_def)
  ultimately show ?thesis using p by (simp add: request_point_def stop split: sum.splits)
qed

lemma stream_poll:
  assumes ok: "local_ok t" and p: "tt_point t = At_Stream" and poll: "stream_point item t = Some t'"
  shows "local_ok t' \<and> same_turn t t'"
proof -
  have b: "base_ok t" "open_stream t" using ok p by (simp_all add: local_ok_def)
  have any: "any_stream t []" using open_any [OF b(2)] .
  note stop = stops [OF ok any] gives_up_outcomes [OF any]
  have finished: "local_ok (t\<lparr>tt_point := At_Outcome \<lparr>oc_terminal = TurnCompleted (tt_turn_id t), oc_generated_text = tt_generated_text t\<rparr>\<rparr>)"
    if "trim (tt_generated_text t) \<noteq> []"
    using b p that by (intro local_point) (simp_all add: completes_def)
  have publish: "local_ok (t\<lparr>tt_point := At_Publish delta\<rparr>)"
    if "gd_turn_id delta = tt_turn_id t" "str_len (gd_delta delta) \<le> tt_maximum_response_bytes t - str_len (tt_generated_text t)" for delta
    using b p that by (intro local_point) simp_all
  have same: "same_turn t (t\<lparr>tt_point := At_Outcome o1\<rparr>)" "same_turn t (t\<lparr>tt_point := At_Publish delta\<rparr>)" for o1 delta
    using p by (simp_all add: same_turn_def)
  show ?thesis using poll p
    by (auto simp: stream_point_def Let_def stop same finished publish not_less split: if_splits option.splits stream_item.splits)
qed

lemma publish_poll:
  assumes ok: "local_ok t" and p: "tt_point t = At_Publish delta" and poll: "publish_point elapsed delta t = Some t'"
  shows "local_ok t' \<and> same_turn t t'"
proof -
  have b: "base_ok t" "open_stream t" "gd_turn_id delta = tt_turn_id t"
    "str_len (gd_delta delta) \<le> tt_maximum_response_bytes t - str_len (tt_generated_text t)"
    using ok p by (simp_all add: local_ok_def)
  have any: "any_stream t []" using open_any [OF b(2)] .
  note stop = stops [OF ok any] gives_up_outcomes [OF any]
  let ?es = "TextDelta (tt_turn_id t) (gd_delta delta) #
      (if tt_emitted_first_text t then [] else [Timing (tt_turn_id t) FirstTextDelta elapsed])"
  let ?t1 = "t\<lparr>tt_sent := tt_sent t @ ?es, tt_generated_text := tt_generated_text t @ gd_delta delta, tt_emitted_first_text := True\<rparr>"
  show ?thesis
  proof (cases "tt_interrupted t \<or> tt_receiver_closed t")
    case True
    then show ?thesis using poll p by (auto simp: publish_point_def publish_text_delta_def Let_def stop split: if_splits)
  next
    case False
    then have cap: "has_capacity t (length ?es)" and t': "t' = ?t1\<lparr>tt_point := At_Stream\<rparr>"
      using poll b(3) by (auto simp: publish_point_def publish_text_delta_def Let_def numeral_2_eq_2 split: if_splits)
    have b1: "base_ok ?t1" using sent_text [OF b(1) _ cap _ b(4)] p by simp
    obtain h ds e where h: "tt_sent t = TurnStarted (tt_turn_id t) # h @ text_events (tt_turn_id t) ds e"
      "header_full t h" "tt_generated_text t = concat ds" "tt_emitted_first_text t \<longleftrightarrow> ds \<noteq> []"
      using b(2) by (auto simp: stream_is_def)
    define e' where "e' = (if ds = [] then elapsed else e)"
    have "text_events (tt_turn_id t) ds e @ ?es = text_events (tt_turn_id t) (ds @ [gd_delta delta]) e'"
      using h(4) by (cases ds) (simp_all add: e'_def)
    then have "open_stream ?t1"
      unfolding stream_is_def using h by (intro exI [of _ h] exI [of _ "ds @ [gd_delta delta]"] exI [of _ e']) (simp add: header_full_def)
    then show ?thesis using local_point [OF b1, of At_Stream] p t' by (simp add: same_turn_def)
  qed
qed

lemma completed_poll:
  assumes ok: "local_ok t" and p: "tt_point t = At_Completed terminal txt" and poll: "completed_point terminal txt t = Some t'"
  shows "local_ok t' \<and> same_turn t t'"
proof -
  have b: "base_ok t" "completes t terminal txt" "\<not> tt_external_interruption t" using ok p by (simp_all add: local_ok_def)
  have c: "terminal = TurnCompleted (tt_turn_id t)" "txt = tt_generated_text t" "trim txt \<noteq> []" "open_stream t"
    using b(2) unfolding completes_def by blast+
  show ?thesis
  proof (cases "tt_receiver_closed t")
    case True
    then have t': "t' = t\<lparr>tt_point := At_Release terminal\<rparr>" using poll by (simp add: completed_point_def)
    have "ends_with t terminal" using c b(3) True by (simp add: ends_with_def completed_stream_def)
    then show ?thesis using local_point [OF b(1), of "At_Release terminal"] p t' c(1) by (simp add: same_turn_def)
  next
    case False
    let ?e = "TextCompleted (tt_turn_id t) txt"
    let ?t1 = "t\<lparr>tt_sent := tt_sent t @ [?e]\<rparr>"
    have cap: "has_capacity t 1" and t': "t' = ?t1\<lparr>tt_point := At_Release terminal\<rparr>"
      using poll False by (auto simp: completed_point_def split: if_splits)
    have b1: "base_ok ?t1" using sent_event [OF b(1), of "[?e]"] cap p by simp
    have "stream_is ?t1 (\<lambda>h ds. header_full ?t1 h) [TextCompleted (tt_turn_id ?t1) (tt_generated_text ?t1)]"
      using c by (auto simp: stream_is_def header_full_def)
    then have "ends_with ?t1 terminal" using c b(3) by (simp add: ends_with_def completed_stream_def)
    then show ?thesis using local_point [OF b1, of "At_Release terminal"] p t' c(1) by (simp add: same_turn_def)
  qed
qed

lemma local_poll_ok:
  assumes ok: "local_ok t" and poll: "local_poll aw t = Some t'"
  shows "local_ok t' \<and> same_turn t t'"
proof (cases "tt_point t")
  case (At_Retrieval_Stop o1)
  then have "t' = t\<lparr>tt_point := At_Outcome o1\<rparr>" using poll by (auto simp: local_poll_def split: option.splits)
  then show ?thesis using ok At_Retrieval_Stop local_point [of t "At_Outcome o1"] by (simp add: local_ok_def [of t] same_turn_def)
next
  case (At_Cleanup o1)
  then have poll: "cleanup_language_stream (aw_item aw) o1 t = Some t'" using poll by (simp add: local_poll_def)
  show ?thesis
  proof (cases "aw_item aw = Some Item_End")
    case True
    then have "t' = t\<lparr>tt_point := At_Outcome o1\<rparr>" using poll by (simp add: cleanup_language_stream_def)
    then show ?thesis using ok At_Cleanup local_point [of t "At_Outcome o1"] by (simp add: local_ok_def [of t] same_turn_def)
  next
    case False
    then have "t' = t" using poll by (simp add: cleanup_language_stream_def split: option.splits stream_item.splits)
    then show ?thesis using ok by (simp add: same_turn_def)
  qed
next
  case (At_Terminal e)
  then have t': "t' = t\<lparr>tt_terminal := Some e, tt_point := Ended\<rparr>" using poll by (simp add: local_poll_def)
  have "base_ok t" "ends_with t e" "tt_sender_dropped t" using ok At_Terminal by (simp_all add: local_ok_def)
  then show ?thesis unfolding t' using At_Terminal
    by (simp add: local_ok_def same_turn_def base_ok_def)
next
  case At_Quality
  then show ?thesis using quality_poll [OF ok] poll by (simp add: local_poll_def)
next
  case At_Retrieval
  then show ?thesis using retrieval_poll [OF ok] poll by (simp add: local_poll_def)
next
  case (At_Memory trace)
  then show ?thesis using memory_poll [OF ok] poll by (simp add: local_poll_def)
next
  case At_Request
  then show ?thesis using request_poll [OF ok] poll by (auto simp: local_poll_def)
next
  case At_Stream
  then show ?thesis using stream_poll [OF ok] poll by (simp add: local_poll_def)
next
  case (At_Publish delta)
  then show ?thesis using publish_poll [OF ok] poll by (simp add: local_poll_def)
next
  case (At_Completed terminal x)
  then show ?thesis using completed_poll [OF ok] poll by (simp add: local_poll_def)
qed (use assms(2) in \<open>simp_all add: local_poll_def\<close>)

section \<open>The context around a turn\<close>

text \<open>The context holds the turn: it is active, not being finalized, and pending with this transcript.\<close>

definition holds_turn :: "'m ConversationContext \<Rightarrow> ConversationTurnIdentity \<Rightarrow> rstring \<Rightarrow> bool" where
  "holds_turn c i transcript \<longleftrightarrow>
     (\<exists>a p. lc_active (cc_lifecycle c) = Some a \<and> at_identity a = i \<and> \<not> at_finalizing a \<and>
        q_pending_turn (cc_quality c) = Some p \<and> pt_turn_id p = ti_turn_id i \<and> cm_text (pt_user p) = transcript)"

abbreviation sequence_of :: "'m ConversationContext \<Rightarrow> u64" where
  "sequence_of c \<equiv> lc_sequence (cc_lifecycle c)"

lemma begin_turn_busy: "lc_active (cc_lifecycle c) = Some a \<Longrightarrow> \<exists>e. begin_turn u c src x = (c, Inl e)"
  by (simp add: begin_turn_def reserve_turn_def)

lemma resolve_turn_Some:
  assumes "quality_ok q" "resolve_turn u q i x None = (q', Inr (Some y))"
  shows "q_pending_turn q' = Some \<lparr>pt_turn_id = i, pt_user = \<lparr>cm_role = User, cm_text = x\<rparr>\<rparr> \<and> qd_turn_id (rq_decision y) = i"
proof -
  have c: "q_pending_turn q = None" "trim x \<noteq> []" "str_len x \<le> MAX_CONVERSATION_MESSAGE_BYTES"
    using resolve_turn_cases [OF assms(1), of u i x None] assms(2) by auto
  obtain d r where "resolve_turn u q i x None =
      ((turn_context u q x)\<lparr>q_pending_turn := Some \<lparr>pt_turn_id = i, pt_user = \<lparr>cm_role = User, cm_text = x\<rparr>\<rparr>,
         q_last_decision := Some d\<rparr>, Inr (Some r))" "rq_decision r = d" "qd_turn_id d = i"
    by (rule resolve_turn_resolves [OF assms(1) c, of u i None]) (simp add: turn_decision_def Let_def)
  then show ?thesis using assms(2) by auto
qed

lemma begin_turn_spec:
  assumes ok: "quality_ok (cc_quality c)" and b: "begin_turn u c src x = (c', r)"
  shows "quality_ok (cc_quality c') \<and> sequence_of c \<le> sequence_of c' \<and>
    (\<forall>p. r = Inr p \<longrightarrow> sequence_of c < ti_turn_id (pr_identity p) \<and> ti_turn_id (pr_identity p) = sequence_of c' \<and>
       holds_turn c' (pr_identity p) (pr_transcript p) \<and> qd_turn_id (rq_decision (pr_resolved p)) = ti_turn_id (pr_identity p))"
proof (cases "snd (reserve_turn c src)")
  case (Inl e)
  then have "reserve_turn c src = (c, Inl e)" using reserve_turn_spec [of c src] by auto
  then show ?thesis using ok b by (auto simp: begin_turn_def)
next
  case (Inr i)
  then obtain c1 where c1: "reserve_turn c src = (c1, Inr i)" by (cases "reserve_turn c src") simp
  have spec: "cc_quality c1 = cc_quality c" "sequence_of c1 = ti_turn_id i" "sequence_of c < ti_turn_id i"
    using reserve_turn_spec [of c src] c1 by auto
  have act: "lc_active (cc_lifecycle c1) = Some \<lparr>at_identity = i, at_source = src, at_finalizing = False\<rparr>"
    using c1 by (auto simp: reserve_turn_def Let_def split: option.splits)
  obtain q2 y where q2: "resolve_turn u (cc_quality c1) (ti_turn_id i) x None = (q2, y)" by force
  then have c2: "resolve_section u c1 i x = (c1\<lparr>cc_quality := q2\<rparr>, y)" by (simp add: resolve_section_def)
  have qok: "quality_ok q2" using quality_ok_resolve [of "cc_quality c1" u "ti_turn_id i" x None] ok spec(1) q2 by simp
  have rel: "quality_ok (cc_quality (release_turn (c1\<lparr>cc_quality := q2\<rparr>) i))"
    "sequence_of (release_turn (c1\<lparr>cc_quality := q2\<rparr>) i) = ti_turn_id i"
    using release_turn_spec [of "c1\<lparr>cc_quality := q2\<rparr>" i] qok spec(2) by simp_all
  show ?thesis
  proof (cases "\<exists>z. y = Inr (Some z)")
    case True
    then obtain z where z: "y = Inr (Some z)" by blast
    have p: "q_pending_turn q2 = Some \<lparr>pt_turn_id = ti_turn_id i, pt_user = \<lparr>cm_role = User, cm_text = x\<rparr>\<rparr>"
      "qd_turn_id (rq_decision z) = ti_turn_id i"
      using resolve_turn_Some [of "cc_quality c1" u "ti_turn_id i" x q2 z] ok spec(1) q2 z by simp_all
    have "c' = c1\<lparr>cc_quality := q2\<rparr>" "r = Inr \<lparr>pr_identity = i, pr_transcript = x, pr_resolved = z\<rparr>"
      using b by (simp_all add: begin_turn_def c1 c2 z)
    then show ?thesis using qok spec act p by (simp add: holds_turn_def order.strict_implies_order)
  next
    case False
    then have "c' = release_turn (c1\<lparr>cc_quality := q2\<rparr>) i" "\<exists>e. r = Inl e"
      using b by (cases y; auto simp: begin_turn_def c1 c2 split: option.splits)+
    then show ?thesis using rel spec(3) by auto
  qed
qed

lemma complete_holds:
  assumes ok: "quality_ok (cc_quality c)" and h: "holds_turn c i transcript"
    and answer: "trim out \<noteq> []" "str_len out \<le> MAX_CONVERSATION_MESSAGE_BYTES"
  shows "\<exists>c' e. context_complete_turn c i out = Some (c', Inr ()) \<and> quality_ok (cc_quality c') \<and> sequence_of c' = sequence_of c \<and>
     active_turn c' = None \<and> q_pending_turn (cc_quality c') = None \<and> q_history (cc_quality c') \<noteq> [] \<and>
     last (q_history (cc_quality c')) = e \<and> cm_text (ce_user e) = transcript \<and> cm_text (ce_assistant e) = out"
proof -
  obtain a p where a: "lc_active (cc_lifecycle c) = Some a" "at_identity a = i" "\<not> at_finalizing a"
    and p: "q_pending_turn (cc_quality c) = Some p" "pt_turn_id p = ti_turn_id i" "cm_text (pt_user p) = transcript"
    using h by (auto simp: holds_turn_def)
  let ?c1 = "c\<lparr>cc_lifecycle := (cc_lifecycle c)\<lparr>lc_active := Some (a\<lparr>at_finalizing := True\<rparr>)\<rparr>\<rparr>"
  have b: "begin_outcome c i False = (?c1, Inr False)" using a by (simp add: begin_outcome_def)
  obtain q' e where q': "complete_turn (cc_quality c) (ti_turn_id i) out = Some (q', Inr ())" "q_pending_turn q' = None"
    "ce_user e = pt_user p" "cm_text (ce_assistant e) = out" "suffix (q_history q') (q_history (cc_quality c) @ [e])" "q_history q' \<noteq> []"
    using complete_turn_recent [OF ok p(1,2) answer] by blast
  have "quality_ok q'" using quality_ok_complete [OF ok, of "ti_turn_id i" out] q'(1) by auto
  moreover have "last (q_history q') = e" using q'(5,6) by (auto simp: suffix_def dest!: arg_cong [where f = last])
  ultimately show ?thesis using a b p(3) q'
    by (simp add: context_complete_turn_def complete_section_def finish_outcome_def active_turn_def Let_def)
qed

lemma discard_holds:
  assumes ok: "quality_ok (cc_quality c)" and h: "holds_turn c i transcript"
  shows "\<exists>c'. context_discard_turn c i b = (c', Inr ()) \<and> quality_ok (cc_quality c') \<and> sequence_of c' = sequence_of c \<and>
     active_turn c' = None \<and> q_pending_turn (cc_quality c') = None \<and> q_history (cc_quality c') = q_history (cc_quality c)"
proof -
  obtain a p where a: "lc_active (cc_lifecycle c) = Some a" "at_identity a = i" "\<not> at_finalizing a"
    and p: "q_pending_turn (cc_quality c) = Some p" "pt_turn_id p = ti_turn_id i"
    using h by (auto simp: holds_turn_def)
  have t: "take_pending (cc_quality c) (ti_turn_id i) = ((cc_quality c)\<lparr>q_pending_turn := None\<rparr>, Inr p)"
    using p by (simp add: take_pending_def)
  have "quality_ok (fst (interrupt_turn (cc_quality c) (ti_turn_id i)))" "quality_ok (fst (discard_turn (cc_quality c) (ti_turn_id i)))"
    using quality_ok_interrupt [OF ok] quality_ok_discard [OF ok] by blast+
  then show ?thesis using a t
    by (cases b) (simp_all add: context_discard_turn_def begin_outcome_def discard_section_def finish_outcome_def active_turn_def
        interrupt_turn_def discard_turn_def Let_def)
qed

text \<open>What a call of the context for another turn, or for none, keeps.\<close>

definition pending_owned :: "'m ConversationContext \<Rightarrow> bool" where
  "pending_owned c \<longleftrightarrow>
     (\<forall>p. quality_open (cc_quality c) = Some p \<longrightarrow> (\<exists>i. active_turn c = Some i \<and> ti_turn_id i = p))"

lemma pending_owned_settled:
  assumes "pending_owned c" "active_turn c' = active_turn c \<or> active_turn c = Some i \<and> active_turn c' = None"
    and "quality_open (cc_quality c') =
      (if quality_open (cc_quality c) = Some (ti_turn_id i) then None else quality_open (cc_quality c))"
  shows "pending_owned c'"
  using assms by (auto simp: pending_owned_def split: if_splits)

definition context_kept :: "'m ConversationContext \<Rightarrow> 'm ConversationContext \<Rightarrow> ConversationTurnIdentity set \<Rightarrow> bool" where
  "context_kept c c' changed \<longleftrightarrow>
     quality_ok (cc_quality c') \<and> (pending_owned c \<longrightarrow> pending_owned c') \<and> sequence_of c \<le> sequence_of c' \<and>
     (\<forall>i transcript. holds_turn c i transcript \<and> i \<notin> changed \<longrightarrow> holds_turn c' i transcript)"

lemma context_kept_refl: "quality_ok (cc_quality c) \<Longrightarrow> context_kept c c X"
  by (simp add: context_kept_def)

lemma holds_other_outcome:
  assumes "holds_turn c i transcript" "j \<noteq> i"
  shows "\<exists>e. begin_outcome c j b = (c, Inl e)"
  using assms by (auto simp: holds_turn_def begin_outcome_def)

lemma begin_turn_owned:
  assumes ok: "quality_ok (cc_quality c)" and b: "begin_turn u c src x = (c', r)" and own: "pending_owned c"
  shows "pending_owned c'"
proof (cases "snd (reserve_turn c src)")
  case (Inl e)
  then have "reserve_turn c src = (c, Inl e)" using reserve_turn_spec [of c src] by auto
  then show ?thesis using own b by (auto simp: begin_turn_def)
next
  case (Inr i)
  then obtain c1 where c1: "reserve_turn c src = (c1, Inr i)" by (cases "reserve_turn c src") simp
  have spec: "cc_quality c1 = cc_quality c" "active_turn c1 = Some i" "active_turn c = None" using reserve_turn_spec [of c src] c1 by auto
  then have idle: "quality_open (cc_quality c1) = None" using own by (auto simp: pending_owned_def)
  obtain c2 y where c2: "resolve_section u c1 i x = (c2, y)" by force
  have q: "quality_ok (cc_quality c1)" using ok spec(1) by simp
  note s2 = resolve_section_spec [OF q c2]
  show ?thesis
  proof (cases "\<exists>z. y = Inr (Some z)")
    case True
    then have "c' = c2" using b by (auto simp: begin_turn_def c1 c2)
    then show ?thesis using s2 True spec(2) by (auto simp: pending_owned_def)
  next
    case False
    then have "c' = release_turn c2 i" using b by (cases y) (auto simp: begin_turn_def c1 c2 split: option.splits)
    then show ?thesis using s2 False idle release_turn_spec [of c2 i]
      by (cases y) (auto simp: pending_owned_def split: option.splits)
  qed
qed

lemma begin_turn_kept:
  assumes "quality_ok (cc_quality c)" "begin_turn u c src x = (c', r)"
  shows "context_kept c c' X"
proof -
  have "c' = c" if "holds_turn c i transcript" for i transcript
    using that begin_turn_busy [of c _ u src x] assms(2) by (auto simp: holds_turn_def)
  then show ?thesis using begin_turn_spec [OF assms] begin_turn_owned [OF assms] by (auto simp: context_kept_def)
qed

lemma complete_kept:
  assumes ok: "quality_ok (cc_quality c)" and c: "context_complete_turn c j out = Some (c', r)"
  shows "context_kept c c' {j}"
proof -
  have other: "c' = c" if "holds_turn c i transcript" "i \<notin> {j}" for i transcript
    using holds_other_outcome [OF that(1), of j False] that(2) c by (auto simp: context_complete_turn_def)
  obtain c1 r1 where b: "begin_outcome c j False = (c1, r1)" by force
  note s1 = begin_outcome_spec [OF b]
  have "quality_ok (cc_quality c') \<and> sequence_of c' = sequence_of c \<and> (pending_owned c \<longrightarrow> pending_owned c')"
  proof (cases r1)
    case (Inl e)
    then show ?thesis using c b s1 ok by (simp add: context_complete_turn_def pending_owned_def)
  next
    case (Inr x)
    obtain c2 r2 where s2: "complete_section c1 j out = Some (c2, r2)" "quality_ok (cc_quality c2)" "sequence_of c2 = sequence_of c1"
      "active_turn c2 = active_turn c1" "quality_open (cc_quality c2) =
        (if quality_open (cc_quality c1) = Some (ti_turn_id j) then None else quality_open (cc_quality c1))"
      using complete_section_spec [of c1 j out] ok s1 by auto
    have f: "finish_outcome c2 j r2 = (c', r)" using c b Inr s2(1) by (simp add: context_complete_turn_def)
    show ?thesis using finish_outcome_spec [OF f] s1 s2 pending_owned_settled [of c c' j] by auto
  qed
  then show ?thesis using other by (auto simp: context_kept_def)
qed

lemma discard_kept:
  assumes ok: "quality_ok (cc_quality c)" and c: "context_discard_turn c j b = (c', r)"
  shows "context_kept c c' {j}"
proof -
  have other: "c' = c" if "holds_turn c i transcript" "i \<notin> {j}" for i transcript
    using holds_other_outcome [OF that(1), of j True] that(2) c by (auto simp: context_discard_turn_def)
  obtain c1 r1 where b: "begin_outcome c j True = (c1, r1)" by force
  note s1 = begin_outcome_spec [OF b]
  have "quality_ok (cc_quality c') \<and> sequence_of c' = sequence_of c \<and> (pending_owned c \<longrightarrow> pending_owned c')"
  proof (cases r1)
    case (Inl e)
    then show ?thesis using c b s1 ok by (simp add: context_discard_turn_def pending_owned_def)
  next
    case (Inr x)
    obtain c2 r2 where s2: "discard_section c1 j b x = (c2, r2)" by force
    have f: "finish_outcome c2 j r2 = (c', r)" using c b Inr s2 by (simp add: context_discard_turn_def)
    have q1: "quality_ok (cc_quality c1)" using ok s1 by simp
    show ?thesis using finish_outcome_spec [OF f] s1 discard_section_spec [OF q1 s2] pending_owned_settled [of c c' j] by auto
  qed
  then show ?thesis using other by (auto simp: context_kept_def)
qed

lemma persona_kept:
  assumes ok: "quality_ok (cc_quality c)" and c: "apply_persona c p m = (c', r)"
  shows "context_kept c c' X"
proof -
  obtain q where q: "set_persona (cc_quality c) p m = (q, r)" "c' = c\<lparr>cc_quality := q\<rparr>"
    using c by (auto simp: apply_persona_def split: prod.splits)
  have "q = cc_quality c" if "q_pending_turn (cc_quality c) \<noteq> None" using that q(1) by (simp add: set_persona_def)
  then have "c' = c" if "holds_turn c i transcript" for i transcript using that q(2) by (auto simp: holds_turn_def)
  moreover have "quality_ok q" using quality_ok_set_persona [OF ok, of p m] q(1) by simp
  ultimately show ?thesis using q(2) apply_persona_spec [OF ok c] by (auto simp: context_kept_def pending_owned_def)
qed

lemma seed_kept:
  assumes ok: "quality_ok (cc_quality c)" and c: "seed_completed_history c operation exchanges = (c', r)"
  shows "context_kept c c' X"
proof -
  have "c' = c" if "holds_turn c i transcript" for i transcript
    using that c by (auto simp: holds_turn_def seed_completed_history_def)
  moreover have "quality_ok (cc_quality c') \<and> sequence_of c' = sequence_of c"
    using seed_completed_history_spec [OF ok c] by simp
  ultimately show ?thesis using seed_completed_history_spec [OF ok c] by (auto simp: context_kept_def pending_owned_def)
qed

section \<open>The invariant of the runtime\<close>

definition turn_ok :: "'m ConversationContext \<Rightarrow> ActiveTextTurn option \<Rightarrow> TextTurn \<Rightarrow> bool" where
  "turn_ok c active t \<longleftrightarrow>
     local_ok t \<and> tt_turn_id t \<le> sequence_of c \<and>
     (live (tt_point t) \<longrightarrow> holds_turn c (tt_identity t) (li_transcript (tt_input t))) \<and>
     (unreleased (tt_point t) \<longrightarrow>
       (\<exists>a. active = Some a \<and> ta_identity a = tt_identity t \<and> (ta_finalizing a \<longleftrightarrow> claimed (tt_point t))))"

definition text_ok :: "'m text_runtime \<Rightarrow> bool" where
  "text_ok s \<longleftrightarrow>
     quality_ok (cc_quality (rx_context s)) \<and> pending_owned (rx_context s) \<and>
     (\<forall>i t. rx_turns s i = Some t \<longrightarrow> tt_identity t = i \<and> i \<notin> rx_others s \<and> turn_ok (rx_context s) (rx_active s) t) \<and>
     (\<forall>i\<in>rx_others s. ti_turn_id i \<le> sequence_of (rx_context s)) \<and>
     (\<forall>a. rx_active s = Some a \<longrightarrow> (\<exists>t. rx_turns s (ta_identity a) = Some t \<and> unreleased (tt_point t)))"

lemma text_ok_turn:
  "text_ok s \<Longrightarrow> rx_turns s i = Some t \<Longrightarrow> tt_identity t = i \<and> turn_ok (rx_context s) (rx_active s) t"
  by (simp add: text_ok_def)

lemma text_ok_fresh:
  assumes "text_ok s" "sequence_of (rx_context s) < ti_turn_id i"
  shows "rx_turns s i = None \<and> i \<notin> rx_others s"
proof
  show "rx_turns s i = None"
  proof (cases "rx_turns s i")
    case (Some t)
    then show ?thesis using text_ok_turn [OF assms(1) Some] assms(2) by (auto simp: turn_ok_def)
  qed simp
  show "i \<notin> rx_others s" using assms by (auto simp: text_ok_def)
qed

lemma text_ok_others: "text_ok s \<Longrightarrow> i \<in> rx_others s \<Longrightarrow> rx_turns s i = None"
  by (cases "rx_turns s i") (auto simp: text_ok_def)

lemma turn_ok_kept:
  assumes "turn_ok c a t" "context_kept c c' X" "tt_identity t \<notin> X"
  shows "turn_ok c' a t"
  using assms by (auto simp: turn_ok_def context_kept_def intro: order_trans)

lemma text_ok_context:
  assumes ok: "text_ok s" and k: "context_kept (rx_context s) c X" and x: "\<And>i. i \<in> X \<Longrightarrow> rx_turns s i = None"
  shows "text_ok (s\<lparr>rx_context := c\<rparr>)"
proof -
  have "turn_ok c (rx_active s) t" if "rx_turns s i = Some t" for i t
    using turn_ok_kept [OF _ k, of "rx_active s" t] text_ok_turn [OF ok that] x [of i] that by auto
  moreover have "ti_turn_id i \<le> sequence_of c" if "i \<in> rx_others s" for i
    using ok k that by (force simp: text_ok_def context_kept_def intro: order_trans)
  ultimately show ?thesis using ok k by (simp add: text_ok_def context_kept_def)
qed

lemma text_ok_update:
  assumes ok: "text_ok s" and t: "rx_turns s i = Some t" and t': "tt_identity t' = i" "turn_ok (rx_context s) (rx_active s) t'"
    and r: "unreleased (tt_point t') = unreleased (tt_point t)"
  shows "text_ok (s\<lparr>rx_turns := (rx_turns s)(i \<mapsto> t')\<rparr>)"
  using assms by (auto simp: text_ok_def)

lemma same_turn_ok:
  assumes "turn_ok c a t" "local_ok t'" "same_turn t t'"
  shows "turn_ok c a t'"
  using assms by (simp add: turn_ok_def same_turn_def)

lemma text_ok_same:
  assumes "text_ok s" "rx_turns s i = Some t" "local_ok t'" "same_turn t t'"
  shows "text_ok (s\<lparr>rx_turns := (rx_turns s)(i \<mapsto> t')\<rparr>)"
  using text_ok_update [OF assms(1,2)] text_ok_turn [OF assms(1,2)] same_turn_ok [OF _ assms(3,4)] assms(4)
  by (auto simp: same_turn_def)

text \<open>The consumer of the events.\<close>

lemma stream_flags_irrelevant [simp]:
  "stream_is (t\<lparr>tt_received := n\<rparr>) P tail = stream_is t P tail"
  "stream_is (t\<lparr>tt_terminal_taken := b\<rparr>) P tail = stream_is t P tail"
  "stream_is (t\<lparr>tt_receiver_closed := b\<rparr>) P tail = stream_is t P tail"
  "stream_is (t\<lparr>tt_external_interruption := b, tt_work_cancellation := b\<rparr>) P tail = stream_is t P tail"
  "header_full (t\<lparr>tt_received := n\<rparr>) h = header_full t h" "header_ok (t\<lparr>tt_received := n\<rparr>) h = header_ok t h"
  "header_full (t\<lparr>tt_terminal_taken := b\<rparr>) h = header_full t h" "header_ok (t\<lparr>tt_terminal_taken := b\<rparr>) h = header_ok t h"
  "header_full (t\<lparr>tt_receiver_closed := b\<rparr>) h = header_full t h" "header_ok (t\<lparr>tt_receiver_closed := b\<rparr>) h = header_ok t h"
  "header_full (t\<lparr>tt_external_interruption := b, tt_work_cancellation := b\<rparr>) h = header_full t h"
  "header_ok (t\<lparr>tt_external_interruption := b, tt_work_cancellation := b\<rparr>) h = header_ok t h"
  by (simp_all add: stream_is_def header_full_def header_ok_def)

lemmas stream_ends = completes_def gives_up_def ends_with_def completed_stream_def

lemma point_ok_received [simp]:
  "point_ok (t\<lparr>tt_received := n\<rparr>) p = point_ok t p" "point_ok (t\<lparr>tt_terminal_taken := b\<rparr>) p = point_ok t p"
  by (cases p; simp add: stream_ends)+

lemma point_ok_closed: "point_ok t p \<Longrightarrow> point_ok (t\<lparr>tt_receiver_closed := True\<rparr>) p"
  by (cases p) (auto simp: stream_ends)

lemma point_ok_interrupted:
  assumes "point_ok t p" "unreleased p" "\<not> claimed p"
  shows "point_ok (t\<lparr>tt_external_interruption := True, tt_work_cancellation := True\<rparr>) p"
  using assms by (cases p) (auto simp: stream_ends)

lemma recv_ok:
  assumes ok: "local_ok t" and r: "stream_recv t = Some (t', event)"
  shows "local_ok t' \<and> same_turn t t'"
proof (cases "tt_received t < length (tt_sent t)")
  case True
  then have t': "t' = t\<lparr>tt_received := tt_received t + 1\<rparr>" using r by (simp add: stream_recv_def)
  have "base_ok t'" using ok True unfolding t' by (simp add: local_ok_def base_ok_def diff_le_mono2 le_diff_conv)
  then show ?thesis using ok by (simp add: t' local_ok_def same_turn_def)
next
  case False
  have "t' = t \<or> t' = t\<lparr>tt_terminal_taken := True\<rparr>"
  proof (cases "tt_terminal t")
    case None
    then show ?thesis using r False by (simp add: stream_recv_def split: if_splits)
  next
    case (Some e)
    then show ?thesis using r False by (simp add: stream_recv_def split: if_splits)
  qed
  then show ?thesis
  proof
    assume "t' = t"
    then show ?thesis using ok by (simp add: same_turn_def)
  next
    assume "t' = t\<lparr>tt_terminal_taken := True\<rparr>"
    then show ?thesis using ok by (simp add: local_ok_def base_ok_def same_turn_def)
  qed
qed

lemma close_ok:
  assumes "local_ok t"
  shows "local_ok (t\<lparr>tt_receiver_closed := True\<rparr>) \<and> same_turn t (t\<lparr>tt_receiver_closed := True\<rparr>)"
  using assms point_ok_closed by (simp add: local_ok_def base_ok_def same_turn_def)

lemma interrupt_ok:
  assumes ok: "text_ok s" and int: "interrupt s turn_id = (s', r)"
  shows "text_ok s'"
proof (cases "\<exists>a. rx_active s = Some a \<and> ti_turn_id (ta_identity a) = turn_id \<and> \<not> ta_finalizing a")
  case True
  then obtain a where a: "rx_active s = Some a" "ti_turn_id (ta_identity a) = turn_id" "\<not> ta_finalizing a" by blast
  obtain t where t: "rx_turns s (ta_identity a) = Some t" "unreleased (tt_point t)" using ok a(1) by (auto simp: text_ok_def)
  let ?t = "t\<lparr>tt_external_interruption := True, tt_work_cancellation := True\<rparr>"
  have tok: "tt_identity t = ta_identity a" "turn_ok (rx_context s) (rx_active s) t" using text_ok_turn [OF ok t(1)] by auto
  have nc: "\<not> claimed (tt_point t)" using tok(2) t(2) a by (auto simp: turn_ok_def)
  have "local_ok ?t" using tok(2) point_ok_interrupted [OF _ t(2) nc] by (simp add: turn_ok_def local_ok_def base_ok_def)
  then have "turn_ok (rx_context s) (rx_active s) ?t" using tok(2) by (simp add: turn_ok_def)
  moreover have "s' = s\<lparr>rx_turns := (rx_turns s)(ta_identity a \<mapsto> ?t)\<rparr>" using int a t(1) by (simp add: interrupt_def)
  ultimately show ?thesis using text_ok_update [OF ok t(1), of ?t] tok(1) by simp
next
  case False
  then have "s' = s" using int by (auto simp: interrupt_def split: option.splits if_splits)
  then show ?thesis using ok by simp
qed

text \<open>The polls that touch what the turns share.\<close>

lemma text_ok_poll:
  assumes ok: "text_ok s" and t: "rx_turns s i = Some t" "unreleased (tt_point t)"
    and t': "tt_identity t' = i" "turn_ok c a' t'" and k: "context_kept (rx_context s) c {i}"
    and act: "case a' of None \<Rightarrow> True | Some b \<Rightarrow> ta_identity b = i \<and> unreleased (tt_point t')"
  shows "text_ok (s\<lparr>rx_context := c, rx_active := a', rx_turns := (rx_turns s)(i \<mapsto> t')\<rparr>)"
proof -
  obtain a where a: "rx_active s = Some a" "ta_identity a = i"
    using text_ok_turn [OF ok t(1)] t(2) by (auto simp: turn_ok_def)
  have other: "turn_ok c a' tj" if "rx_turns s j = Some tj" "j \<noteq> i" for j tj
  proof -
    have "tt_identity tj = j" "turn_ok (rx_context s) (rx_active s) tj" using text_ok_turn [OF ok that(1)] by auto
    then have "\<not> unreleased (tt_point tj)" "local_ok tj" "tt_turn_id tj \<le> sequence_of (rx_context s)"
      using a that(2) by (auto simp: turn_ok_def)
    then show ?thesis using k live_unreleased [of "tt_point tj"] by (auto simp: turn_ok_def context_kept_def intro: order_trans)
  qed
  have "ti_turn_id j \<le> sequence_of c" if "j \<in> rx_others s" for j
    using ok k that by (force simp: text_ok_def context_kept_def intro: order_trans)
  then show ?thesis using ok other t(1) t' k act by (auto simp: text_ok_def context_kept_def split: option.splits)
qed

lemma outcome_ok:
  assumes ok: "turn_ok c active t" and p: "tt_point t = At_Outcome o1" and poll: "outcome_point o1 active t = (active', t')"
  shows "tt_identity t' = tt_identity t \<and> turn_ok c active' t' \<and> unreleased (tt_point t') \<and>
    (\<exists>a. active' = Some a \<and> ta_identity a = tt_identity t)"
proof -
  have l: "base_ok t" "completes t (oc_terminal o1) (oc_generated_text o1) \<or> gives_up t (oc_terminal o1)"
    using ok p by (simp_all add: turn_ok_def local_ok_def)
  obtain a where a: "active = Some a" "ta_identity a = tt_identity t" "\<not> ta_finalizing a" using ok p by (auto simp: turn_ok_def)
  have turn: "turn_ok c (Some b) (t\<lparr>tt_point := At_Commit e x\<rparr>)"
    if "completes t e x \<and> \<not> tt_external_interruption t \<or> gives_up t e" "ta_identity b = tt_identity t"
      "ta_finalizing b \<longleftrightarrow> claimed (At_Commit e x)" for b e x
    using local_point [OF l(1), of "At_Commit e x"] that ok p by (simp add: turn_ok_def)
  have any: "any_stream t []" using l(2) open_any [of t] by (auto simp: completes_def gives_up_def)
  have cancel: "gives_up t (TurnCancelled (tt_turn_id t))" using any by (simp add: gives_up_def)
  consider (claim) "completes t (oc_terminal o1) (oc_generated_text o1)" "\<not> tt_external_interruption t"
    | (lost) "completes t (oc_terminal o1) (oc_generated_text o1)" "tt_external_interruption t" | (up) "gives_up t (oc_terminal o1)"
    using l(2) by blast
  then show ?thesis
  proof cases
    case claim
    then have e: "oc_terminal o1 = TurnCompleted (tt_turn_id t)" by (simp add: completes_def)
    have "active' = Some (a\<lparr>ta_finalizing := True\<rparr>)" "t' = t\<lparr>tt_point := At_Commit (oc_terminal o1) (oc_generated_text o1)\<rparr>"
      using poll a claim(2) e by (simp_all add: outcome_point_def claim_completion_def)
    then show ?thesis using turn [of "oc_terminal o1" "oc_generated_text o1" "a\<lparr>ta_finalizing := True\<rparr>"] claim a(2) e by simp
  next
    case lost
    then have e: "oc_terminal o1 = TurnCompleted (tt_turn_id t)" by (simp add: completes_def)
    have "active' = Some a" "t' = t\<lparr>tt_point := At_Commit (TurnCancelled (tt_turn_id t)) (oc_generated_text o1)\<rparr>"
      using poll a lost(2) e by (simp_all add: outcome_point_def claim_completion_def)
    then show ?thesis using turn [of "TurnCancelled (tt_turn_id t)" "oc_generated_text o1" a] cancel a(2,3) by simp
  next
    case up
    let ?e = "if tt_external_interruption t then TurnCancelled (tt_turn_id t) else oc_terminal o1"
    have "active' = Some a" "t' = t\<lparr>tt_point := At_Commit ?e (oc_generated_text o1)\<rparr>"
      using poll a up by (auto simp: outcome_point_def gives_up_def)
    moreover have "gives_up t ?e" "\<not> claimed (At_Commit ?e (oc_generated_text o1))" using cancel up by (auto simp: gives_up_def)
    ultimately show ?thesis using turn [of ?e "oc_generated_text o1" a] a(2,3) by simp
  qed
qed

lemma commit_ok:
  assumes ok: "turn_ok c active t" "quality_ok (cc_quality c)" and p: "tt_point t = At_Commit e x"
    and poll: "commit_point e x c t = (c', t')"
  shows "tt_identity t' = tt_identity t \<and> turn_ok c' active t' \<and> unreleased (tt_point t') \<and> context_kept c c' {tt_identity t}"
proof -
  have l: "base_ok t" "completes t e x \<and> \<not> tt_external_interruption t \<or> gives_up t e"
    and h: "holds_turn c (tt_identity t) (li_transcript (tt_input t))"
    using ok(1) p by (simp_all add: turn_ok_def local_ok_def)
  have turn: "turn_ok c' active (t\<lparr>tt_point := q\<rparr>)"
    if "point_ok t q" "\<not> live q" "unreleased q" "claimed q \<longleftrightarrow> claimed (At_Commit e x)" "q = At_Completed e x \<or> q = At_Release e"
      "sequence_of c' = sequence_of c" for q
    using local_point [OF l(1), of q] that ok(1) p by (auto simp: turn_ok_def)
  from l(2) show ?thesis
  proof (elim disjE conjE)
    assume cp: "completes t e x" "\<not> tt_external_interruption t"
    then have e: "e = TurnCompleted (tt_turn_id t)" "x = tt_generated_text t" "trim x \<noteq> []" unfolding completes_def by blast+
    have "str_len x \<le> MAX_CONVERSATION_MESSAGE_BYTES" using l(1) e(2) by (auto simp: base_ok_def)
    then obtain d where d: "context_complete_turn c (tt_identity t) x = Some (d, Inr ())" "sequence_of d = sequence_of c"
      using complete_holds [OF ok(2) h e(3)] by blast
    have "c' = d" "t' = t\<lparr>tt_point := At_Completed e x\<rparr>" using poll d e(1) by (simp_all add: commit_point_def)
    then show ?thesis using turn [of "At_Completed e x"] cp complete_kept [OF ok(2) d(1)] d(2) e(1) by simp
  next
    assume up: "gives_up t e"
    define b where "b \<longleftrightarrow> e = TurnCancelled (tt_turn_id t)"
    then obtain error where b: "e = (if b then TurnCancelled (tt_turn_id t) else TurnFailed (tt_turn_id t) error)"
      using up by (auto simp: gives_up_def)
    obtain d where d: "context_discard_turn c (tt_identity t) b = (d, Inr ())" "sequence_of d = sequence_of c"
      using discard_holds [OF ok(2) h, of b] by blast
    have nc: "\<not> claimed (At_Commit e x)" "\<not> claimed (At_Release e)" using up by (auto simp: gives_up_def)
    have "c' = d" "t' = t\<lparr>tt_point := At_Release e\<rparr>" using poll d b by (cases b; simp add: commit_point_def)+
    then show ?thesis using turn [of "At_Release e"] up nc discard_kept [OF ok(2) d(1)] d(2) by (simp add: ends_with_def)
  qed
qed

lemma sender_irrelevant [simp]: "ends_with (t\<lparr>tt_sender_dropped := b\<rparr>) e = ends_with t e"
  by (simp add: stream_ends stream_is_def header_full_def header_ok_def)

lemma release_ok:
  assumes ok: "turn_ok c active t" and p: "tt_point t = At_Release e" and poll: "release_point e active t = (active', t')"
  shows "tt_identity t' = tt_identity t \<and> turn_ok c active' t' \<and> active' = None"
proof -
  have l: "base_ok t" "ends_with t e" "tt_turn_id t \<le> sequence_of c" using ok p by (simp_all add: turn_ok_def local_ok_def)
  obtain a where a: "active = Some a" "ta_identity a = tt_identity t" using ok p by (auto simp: turn_ok_def)
  have t': "active' = None" "t' = t\<lparr>tt_sender_dropped := True, tt_point := At_Terminal e\<rparr>"
    using poll a by (simp_all add: release_point_def)
  have "base_ok t'" using l(1) p by (simp add: t' base_ok_def)
  then show ?thesis using l by (simp add: t' turn_ok_def local_ok_def)
qed

lemma runtime_same:
  "s\<lparr>rx_context := rx_context s, rx_active := rx_active s, rx_turns := x\<rparr> = s\<lparr>rx_turns := x\<rparr>"
  "rx_active s = None \<Longrightarrow> s\<lparr>rx_context := c, rx_active := None\<rparr> = s\<lparr>rx_context := c\<rparr>"
  by (cases s; simp)+

lemma poll_ok:
  assumes ok: "text_ok s" and t: "rx_turns s i = Some t" and poll: "turn_poll aw (rx_context s) (rx_active s) t = Some (c, a, t')"
  shows "text_ok (s\<lparr>rx_context := c, rx_active := a, rx_turns := (rx_turns s)(i \<mapsto> t')\<rparr>)"
proof -
  have tok: "tt_identity t = i" "turn_ok (rx_context s) (rx_active s) t" using text_ok_turn [OF ok t] by auto
  have q: "quality_ok (cc_quality (rx_context s))" using ok by (simp add: text_ok_def)
  consider (outcome) o1 where "tt_point t = At_Outcome o1" | (commit) e x where "tt_point t = At_Commit e x"
    | (release) e where "tt_point t = At_Release e" | (alone) "local_poll aw t = Some t'" "c = rx_context s" "a = rx_active s"
    using poll by (cases "tt_point t") (auto simp: turn_poll_def)
  then show ?thesis
  proof cases
    case outcome
    then have "outcome_point o1 (rx_active s) t = (a, t')" "c = rx_context s" using poll by (auto simp: turn_poll_def split: prod.splits)
    then show ?thesis using outcome_ok [OF tok(2) outcome] text_ok_poll [OF ok t _ _ _ context_kept_refl [OF q]] outcome tok(1) by auto
  next
    case commit
    then have cp: "commit_point e x (rx_context s) t = (c, t')" "a = rx_active s" using poll by (auto simp: turn_poll_def split: prod.splits)
    obtain b where "rx_active s = Some b" "ta_identity b = i" using tok commit by (auto simp: turn_ok_def)
    then show ?thesis using commit_ok [OF tok(2) q commit cp(1)] text_ok_poll [OF ok t, of t' c a] commit tok(1) cp(2) by simp
  next
    case release
    then have "release_point e (rx_active s) t = (a, t')" "c = rx_context s" using poll by (auto simp: turn_poll_def split: prod.splits)
    then show ?thesis using release_ok [OF tok(2) release] text_ok_poll [OF ok t _ _ _ context_kept_refl [OF q]] release tok(1) by auto
  next
    case alone
    have "local_ok t" using tok(2) by (simp add: turn_ok_def)
    then have l: "local_ok t'" "same_turn t t'" using local_poll_ok [OF _ alone(1)] by simp_all
    have "text_ok (s\<lparr>rx_turns := (rx_turns s)(i \<mapsto> t')\<rparr>)" by (rule text_ok_same [OF ok t l])
    then show ?thesis using alone(2,3) runtime_same(1) [where s = s] by simp
  qed
qed

lemma with_quality_keeps:
  "with_quality transcript history decision guidance = Inr input \<Longrightarrow>
   li_transcript input = transcript \<and> li_quality_decision input = Some decision"
  by (auto simp: with_quality_def with_quality_and_memory_def Let_def split: option.splits sum.splits if_splits)

lemma new_turn_ok:
  assumes ok: "text_ok (s\<lparr>rx_context := c\<rparr>)" and idle: "rx_active s = None" and new: "rx_turns s i = None" "i \<notin> rx_others s"
    and i: "ti_turn_id i = sequence_of c" "holds_turn c i transcript" and d: "qd_turn_id d = ti_turn_id i"
    and w: "with_quality transcript history d guidance = Inr input"
  shows "text_ok (s\<lparr>rx_context := c, rx_active := Some \<lparr>ta_identity = i, ta_finalizing = False\<rparr>,
    rx_turns := (rx_turns s)(i \<mapsto> new_text_turn i input memory)\<rparr>)"
proof -
  let ?t = "new_text_turn i input memory" and ?a = "\<lparr>ta_identity = i, ta_finalizing = False\<rparr>"
  note w = with_quality_keeps [OF w]
  have "local_ok ?t" using w d by (simp add: local_ok_def base_ok_def stream_is_def EVENT_BUFFER_SIZE_def str_len_def)
  then have "turn_ok c (Some ?a) ?t" using i w by (simp add: turn_ok_def)
  moreover have "turn_ok c (Some ?a) tj" if "rx_turns s j = Some tj" for j tj
    using text_ok_turn [OF ok, of j tj] that idle live_unreleased [of "tt_point tj"] by (auto simp: turn_ok_def)
  ultimately show ?thesis using ok new by (auto simp: text_ok_def)
qed

lemma start_ok:
  assumes ok: "text_ok s" and st: "start_turn u s transcript = (s', r)"
  shows "text_ok s'"
proof -
  have q: "quality_ok (cc_quality (rx_context s))" using ok by (simp add: text_ok_def)
  obtain c x where b: "begin_turn u (rx_context s) Source_Text transcript = (c, x)" by force
  note spec = begin_turn_spec [OF q b]
  have c: "text_ok (s\<lparr>rx_context := c\<rparr>)" using text_ok_context [OF ok begin_turn_kept [OF q b], of "{}"] by simp
  show ?thesis
  proof (cases x)
    case (Inl e)
    then show ?thesis using st b c by (simp add: start_turn_def)
  next
    case (Inr p)
    let ?i = "pr_identity p"
    have sp: "sequence_of (rx_context s) < ti_turn_id ?i" "ti_turn_id ?i = sequence_of c" "holds_turn c ?i (pr_transcript p)"
      "qd_turn_id (rq_decision (pr_resolved p)) = ti_turn_id ?i" "quality_ok (cc_quality c)"
      using spec Inr by auto
    have new: "rx_turns s ?i = None" "?i \<notin> rx_others s" using text_ok_fresh [OF ok sp(1)] by simp_all
    have discard: "text_ok (s\<lparr>rx_context := fst (context_discard_turn c ?i False)\<rparr>)"
      using text_ok_context [OF c, of "fst (context_discard_turn c ?i False)" "{?i}"] discard_kept [OF sp(5), of ?i False] new(1)
      by (cases "context_discard_turn c ?i False") simp
    then have discard_idle: "text_ok (s\<lparr>rx_context := fst (context_discard_turn c ?i False), rx_active := None\<rparr>)" if "rx_active s = None"
      using that by (simp add: runtime_same(2))
    show ?thesis using st b Inr discard discard_idle new_turn_ok [OF c _ new sp(2,3,4)]
      by (auto simp: start_turn_def Let_def split: option.splits sum.splits)
  qed
qed

lemma text_step_ok:
  assumes "text_step u s s'" "text_ok s"
  shows "text_ok s'"
  using assms
proof (induction rule: text_step.induct)
  case (start s transcript s' r)
  then show ?case using start_ok by blast
next
  case (poll s i t aw c a t')
  then show ?case using poll_ok by blast
next
  case (interrupt s turn_id s' r)
  then show ?case using interrupt_ok by blast
next
  case (recv s i t t' event)
  then have "local_ok t" using text_ok_turn [OF recv(4,1)] by (simp add: turn_ok_def)
  then show ?case using text_ok_same [OF recv(4,1)] recv_ok [OF _ recv(3)] by simp
next
  case (close s i t)
  then have "local_ok t" using text_ok_turn [OF close(2,1)] by (simp add: turn_ok_def)
  then show ?case using text_ok_same [OF close(2,1)] close_ok [of t] by simp
next
  case (other_begin s source transcript c p)
  then have q: "quality_ok (cc_quality (rx_context s))" by (simp add: text_ok_def)
  have c: "text_ok (s\<lparr>rx_context := c\<rparr>)" using text_ok_context [OF other_begin(2) begin_turn_kept [OF q other_begin(1)], of "{}"] by simp
  have i: "sequence_of (rx_context s) < ti_turn_id (pr_identity p)" "ti_turn_id (pr_identity p) = sequence_of c"
    using begin_turn_spec [OF q other_begin(1)] by auto
  show ?case using c i text_ok_fresh [OF other_begin(2) i(1)] by (auto simp: text_ok_def)
next
  case (other_begin_error s source transcript c e)
  then have q: "quality_ok (cc_quality (rx_context s))" by (simp add: text_ok_def)
  show ?case using text_ok_context [OF other_begin_error(2) begin_turn_kept [OF q other_begin_error(1)], of "{}"] by simp
next
  case (other_complete i s answer c r)
  then have "quality_ok (cc_quality (rx_context s))" "rx_turns s i = None" using text_ok_others by (simp_all add: text_ok_def)
  then show ?case using text_ok_context [OF other_complete(3) complete_kept [OF _ other_complete(2)]] by simp
next
  case (other_discard i s b c r)
  then have "quality_ok (cc_quality (rx_context s))" "rx_turns s i = None" using text_ok_others by (simp_all add: text_ok_def)
  then show ?case using text_ok_context [OF other_discard(3) discard_kept [OF _ other_discard(2)]] by simp
next
  case (persona s p m c r)
  then have q: "quality_ok (cc_quality (rx_context s))" by (simp add: text_ok_def)
  show ?case using text_ok_context [OF persona(2) persona_kept [OF q persona(1)], of "{}"] by simp
next
  case (seed s operation exchanges c r)
  then have q: "quality_ok (cc_quality (rx_context s))" by (simp add: text_ok_def)
  show ?case using text_ok_context [OF seed(2) seed_kept [OF q seed(1)], of "{}"] by simp
qed

lemma text_reachable_ok: "text_reachable u s \<Longrightarrow> text_ok s"
proof -
  assume "text_reachable u s"
  then obtain memory q where q: "quality_ok q" "q_pending_turn q = None" "text_steps u (text_initial memory q) s"
    by (auto simp: text_reachable_def)
  have init: "text_ok (text_initial memory q)"
    using q(1,2) by (simp add: text_ok_def text_initial_def Context_new_def pending_owned_def quality_open_def)
  have "text_ok s'" if "text_steps u s0 s'" "text_ok s0" for s0 s' :: "'a text_runtime"
    using that by (induction rule: text_steps.induct) (auto intro: text_step_ok)
  then show ?thesis using q(3) init by blast
qed

section \<open>Starting a turn\<close>

text \<open>The guidance of a resolved turn, and with it the whole input, keeps the limits of the language model.\<close>

lemma length_show_nat: "n < 10 ^ Suc k \<Longrightarrow> length (show_nat n) \<le> Suc k"
proof (induction k arbitrary: n)
  case 0
  then show ?case by (subst show_nat.simps) simp
next
  case (Suc k)
  then have "n div 10 < 10 ^ Suc k" by (simp add: div_less_iff_less_mult)
  then show ?case using Suc.IH [of "n div 10"] by (subst show_nat.simps) simp
qed

lemma length_show_word:
  "length (show_word (w :: u8)) \<le> 3" "length (show_word (v :: u16)) \<le> 5"
  using length_show_nat [of "unat w" 2] length_show_nat [of "unat v" 4] unsigned_less [of w, where 'a = nat] unsigned_less [of v, where 'a = nat]
  by (simp_all add: show_word_def)

lemma str_len_str_of: "str_len (str_of s) \<le> 2 * length s"
proof (induction s)
  case (Cons c s)
  have "len_utf8 n \<le> 2" if "n < 256" for n using that by (simp add: len_utf8_def)
  then have "len_utf8 (of_char c) \<le> 2" by simp
  then show ?case using Cons by (simp add: str_of_def)
qed (simp add: str_of_def)

lemma length_mode: "length (ConversationMode_as_str m) \<le> 13"
  by (cases m) simp_all

lemma length_pace: "length (SpeechPace_as_str p) \<le> 8"
  by (cases p) simp_all

lemma length_policy: "length (FollowUpPolicy_as_str f) \<le> 20"
  by (cases f) simp_all

lemma length_system_guidance: "length (system_guidance persona d (relationship_guidance b)) \<le> 2048"
proof -
  have l: "length (relationship_guidance b) \<le> 200" by (simp add: relationship_guidance_def)
  show ?thesis
    using l length_mode [of "qd_mode d"] length_pace [of "rc_pace (qd_controls d)"]
      length_policy [of "rc_follow_up_policy (qd_controls d)"] length_show_word(2) [of "rc_maximum_spoken_seconds (qd_controls d)"]
      length_show_word(1) [of "rc_directness (qd_controls d)"] length_show_word(1) [of "pp_warmth persona"]
      length_show_word(1) [of "pp_humor persona"] length_show_word(1) [of "pp_teasing persona"]
      length_show_word(1) [of "pp_initiative persona"] length_show_word(1) [of "pp_directness persona"]
      length_show_word(1) [of "pp_intimacy persona"] length_show_word(1) [of "pp_verbosity persona"]
      length_show_word(1) [of "pp_follow_up_frequency persona"]
    unfolding system_guidance_def Let_def by (simp)
qed

lemma system_guidance_starts: "take 1 (system_guidance persona d relationship) = ''S''"
  by (simp add: system_guidance_def Let_def)

lemma resolve_guidance:
  assumes "resolve_turn u q i x m = (q', Inr (Some y))"
  shows "length (rq_system_guidance y) \<le> 2048 \<and> take 1 (rq_system_guidance y) = ''S''"
  using assms
  by (auto simp: resolve_turn_def Let_def length_system_guidance system_guidance_starts
      split: sum.splits if_splits option.splits simp del: One_nat_def)

lemma guidance_fits:
  assumes "length g \<le> 2048" "take 1 g = ''S''"
  shows "trim (str_of g) \<noteq> [] \<and> str_len (str_of g) \<le> MAX_RUNTIME_GUIDANCE_BYTES"
proof -
  have "(83 :: nat) \<in> set (str_of g)" using assms(2) by (cases g) (simp_all add: str_of_def)
  moreover have "\<not> is_whitespace 83" by (simp add: is_whitespace_def)
  ultimately show ?thesis using str_len_str_of [of g] assms(1) by (auto simp: trim_empty_iff MAX_RUNTIME_GUIDANCE_BYTES_def)
qed

lemma history_messages_bytes:
  assumes "quality_ok q"
  shows "sum_list (map (str_len \<circ> cm_text) (history_messages q)) = history_size (q_history q)"
proof -
  have "list_all exchange_ok h \<Longrightarrow>
      sum_list (map (str_len \<circ> cm_text) (concat (map (\<lambda>e. [ce_user e, ce_assistant e]) h))) = history_size h" for h
    by (induction h) (simp_all add: exchange_ok_def)
  then show ?thesis using assms by (simp add: history_messages_def quality_ok_def)
qed

lemma resolved_input:
  assumes ok: "quality_ok q" and r: "resolve_turn u q i x None = (q', Inr (Some y))"
  shows "\<exists>input. with_quality x (rq_history_messages y) (rq_decision y) (str_of (rq_system_guidance y)) = Inr input"
proof -
  have c: "q_pending_turn q = None" "trim x \<noteq> []" "str_len x \<le> MAX_CONVERSATION_MESSAGE_BYTES"
    using resolve_turn_cases [OF ok, of u i x None] r by auto
  have h: "rq_history_messages y = history_messages (turn_context u q x)"
    by (rule resolve_turn_resolves [OF ok c, of u i None]) (use r in simp)
  have fits: "history_fits (q_history (turn_context u q x))" using quality_ok_turn_context [OF ok, of u x] by (simp add: quality_ok_def)
  have g: "trim (str_of (rq_system_guidance y)) \<noteq> []" "str_len (str_of (rq_system_guidance y)) \<le> MAX_RUNTIME_GUIDANCE_BYTES"
    using guidance_fits resolve_guidance [OF r] by blast+
  have limits: "MAX_CONVERSATION_MESSAGE_BYTES + MAX_HISTORY_BYTES + MAX_RUNTIME_GUIDANCE_BYTES \<le> MAX_LANGUAGE_MODEL_INPUT_BYTES"
    "MAX_LANGUAGE_MODEL_INPUT_BYTES \<le> usize_max" "MAX_HISTORY_MESSAGE_COUNT = 2 * MAX_HISTORY_EXCHANGES"
    by (simp_all add: quality_consts MAX_RUNTIME_GUIDANCE_BYTES_def MAX_LANGUAGE_MODEL_INPUT_BYTES_def usize_max_def)
  show ?thesis using c(2,3) fits g limits
    by (simp add: with_quality_def with_quality_and_memory_def h validate_input_text_def length_history_messages
        history_messages_bytes [OF quality_ok_turn_context [OF ok]] history_fits_def checked_add_usize_def Let_def del: map_map)
qed
lemma begin_available:
  assumes ok: "quality_ok (cc_quality c)" "pending_owned c" and idle: "active_turn c = None" and room: "sequence_of c \<noteq> - 1"
    and body: "trim x \<noteq> []" "str_len x \<le> MAX_CONVERSATION_MESSAGE_BYTES"
  shows "\<exists>c' p input. begin_turn u c src x = (c', Inr p) \<and> ti_turn_id (pr_identity p) = sequence_of c + 1 \<and> pr_transcript p = x \<and>
     active_turn c' = Some (pr_identity p) \<and> cc_memory c' = cc_memory c \<and>
     with_quality (pr_transcript p) (rq_history_messages (pr_resolved p)) (rq_decision (pr_resolved p))
       (str_of (rq_system_guidance (pr_resolved p))) = Inr input"
proof -
  obtain c1 i where r: "reserve_turn c src = (c1, Inr i)"
    using idle checked_add_one [OF room] by (simp add: reserve_turn_def active_turn_def Let_def)
  have spec: "active_turn c1 = Some i" "cc_quality c1 = cc_quality c" "ti_turn_id i = sequence_of c + 1"
    using reserve_turn_spec [of c src] r by auto
  have mem: "cc_memory c1 = cc_memory c"
    using r by (auto simp: reserve_turn_def Let_def split: option.splits)
  have q: "quality_ok (cc_quality c1)" "q_pending_turn (cc_quality c1) = None"
    using ok idle spec(2) quality_open_None [of "cc_quality c1"]
    by (cases "quality_open (cc_quality c1)", auto simp: pending_owned_def)
  obtain q' y where y: "resolve_turn u (cc_quality c1) (ti_turn_id i) x None = (q', Inr (Some y))"
    by (rule resolve_turn_resolves [OF q body])
  obtain input where "with_quality x (rq_history_messages y) (rq_decision y) (str_of (rq_system_guidance y)) = Inr input"
    using resolved_input [OF q(1) y] by blast
  moreover have "begin_turn u c src x = (c1\<lparr>cc_quality := q'\<rparr>, Inr \<lparr>pr_identity = i, pr_transcript = x, pr_resolved = y\<rparr>)"
    by (simp add: begin_turn_def r resolve_section_def y)
  ultimately show ?thesis using spec mem by (simp add: active_turn_def)
qed

lemma start_available:
  assumes ok: "text_ok s" and idle: "rx_active s = None" "active_turn (rx_context s) = None" and room: "sequence_of (rx_context s) \<noteq> - 1"
    and body: "trim x \<noteq> []" "str_len x \<le> MAX_CONVERSATION_MESSAGE_BYTES"
  shows "\<exists>s' i input. start_turn u s x = (s', Inr i) \<and> ti_turn_id i = sequence_of (rx_context s) + 1 \<and> rx_turns s i = None \<and>
     li_transcript input = x \<and> rx_turns s' = (rx_turns s)(i \<mapsto> new_text_turn i input (cc_memory (rx_context s) \<noteq> None)) \<and>
     active_turn (rx_context s') = Some i \<and> rx_active s' = Some \<lparr>ta_identity = i, ta_finalizing = False\<rparr>"
proof -
  have q: "quality_ok (cc_quality (rx_context s))" "pending_owned (rx_context s)" using ok by (simp_all add: text_ok_def)
  obtain c p input where c: "begin_turn u (rx_context s) Source_Text x = (c, Inr p)"
    "ti_turn_id (pr_identity p) = sequence_of (rx_context s) + 1" "pr_transcript p = x"
    "active_turn c = Some (pr_identity p)" "cc_memory c = cc_memory (rx_context s)"
    and w: "with_quality (pr_transcript p) (rq_history_messages (pr_resolved p)) (rq_decision (pr_resolved p))
       (str_of (rq_system_guidance (pr_resolved p))) = Inr input"
    using begin_available [OF q idle(2) room body, of u Source_Text] by blast
  have "sequence_of (rx_context s) < ti_turn_id (pr_identity p)" using begin_turn_spec [OF q(1) c(1)] by auto
  then have "rx_turns s (pr_identity p) = None" using text_ok_fresh [OF ok] by blast
  then show ?thesis using idle(1) c w with_quality_keeps [OF w] by (simp add: start_turn_def Let_def) (rule exI [of _ input], simp)
qed

section \<open>Properties\<close>

lemma text_initial_reachable: "quality_ok q \<Longrightarrow> q_pending_turn q = None \<Longrightarrow> text_reachable u (text_initial memory q)"
  by (auto simp: text_reachable_def intro: text_steps.none)

lemma text_reachable_step: "text_reachable u s \<Longrightarrow> text_step u s s' \<Longrightarrow> text_reachable u s'"
  unfolding text_reachable_def by (blast intro: text_steps.more)

lemma text_reachable_steps:
  assumes "text_steps u s s'" "text_reachable u s"
  shows "text_reachable u s'"
  using assms by (induction rule: text_steps.induct) (blast intro: text_reachable_step)+

abbreviation demo_runtime :: "unit text_runtime" where
  "demo_runtime \<equiv> text_initial None demo_quality"

lemma demo_runtime:
  "text_reachable u demo_runtime" "rx_active demo_runtime = None" "active_turn (rx_context demo_runtime) = None"
  "sequence_of (rx_context demo_runtime) = 0" "cc_memory (rx_context demo_runtime) = None" "rx_turns demo_runtime = Map.empty"
  by (rule text_initial_reachable [OF demo_quality_ok demo_quality_idle])
    (simp_all add: text_initial_def Context_new_def active_turn_def)

lemma demo_started:
  obtains s i input where "text_reachable ascii_unicode s" "ti_turn_id i = 1" "li_transcript input = [104]"
    "rx_turns (s :: unit text_runtime) i = Some (new_text_turn i input False)" "active_turn (rx_context s) = Some i"
    "rx_active s = Some \<lparr>ta_identity = i, ta_finalizing = False\<rparr>"
proof -
  have room: "sequence_of (rx_context demo_runtime) \<noteq> - 1" by (simp add: demo_runtime)
  obtain s i input where s: "start_turn ascii_unicode demo_runtime [104] = (s, Inr i)" "ti_turn_id i = sequence_of (rx_context demo_runtime) + 1"
    "li_transcript input = [104]"
    "rx_turns s = (rx_turns demo_runtime)(i \<mapsto> new_text_turn i input (cc_memory (rx_context demo_runtime) \<noteq> None))"
    "active_turn (rx_context s) = Some i" "rx_active s = Some \<lparr>ta_identity = i, ta_finalizing = False\<rparr>"
    using start_available [OF text_reachable_ok [OF demo_runtime(1)] demo_runtime(2,3) room demo_texts(1,4)] by blast
  have "text_reachable ascii_unicode s" using text_reachable_step [OF demo_runtime(1) text_step.start [OF s(1)]] .
  then show thesis using that [of s i input] s by (simp add: demo_runtime)
qed

text \<open>
  C13: An idle text runtime starts a turn for every transcript within the limits. When no turn of the
  runtime and no turn of the shared context is active, identifiers are left, and the transcript is
  neither blank nor longer than 16 KiB, \<open>start_turn\<close> succeeds: the resolved history, the decision and
  the guidance always make an input the language model takes. The turn has the next identifier, is
  new, holds the context, and its stream begins with \<open>TurnStarted\<close>.
\<close>

theorem text_turn_starts:
  assumes "text_reachable u s" "rx_active s = None" "active_turn (rx_context s) = None"
    and "lc_sequence (cc_lifecycle (rx_context s)) \<noteq> - 1"
    and "trim transcript \<noteq> []" "str_len transcript \<le> MAX_CONVERSATION_MESSAGE_BYTES"
  shows "\<exists>s' i t. start_turn u s transcript = (s', Inr i) \<and>
     ti_turn_id i = lc_sequence (cc_lifecycle (rx_context s)) + 1 \<and> rx_turns s i = None \<and> rx_turns s' = (rx_turns s)(i \<mapsto> t) \<and>
     tt_point t = At_Quality \<and> tt_sent t = [TurnStarted (ti_turn_id i)] \<and> li_transcript (tt_input t) = transcript \<and>
     tt_memory_provider t = (cc_memory (rx_context s) \<noteq> None) \<and>
     active_turn (rx_context s') = Some i \<and> rx_active s' = Some \<lparr>ta_identity = i, ta_finalizing = False\<rparr>"
proof -
  obtain s' i input where "start_turn u s transcript = (s', Inr i)" "ti_turn_id i = sequence_of (rx_context s) + 1" "rx_turns s i = None"
    "li_transcript input = transcript" "rx_turns s' = (rx_turns s)(i \<mapsto> new_text_turn i input (cc_memory (rx_context s) \<noteq> None))"
    "active_turn (rx_context s') = Some i" "rx_active s' = Some \<lparr>ta_identity = i, ta_finalizing = False\<rparr>"
    using start_available [OF text_reachable_ok [OF assms(1)] assms(2-6)] by blast
  then show ?thesis by (intro exI [of _ s'] exI [of _ i] exI [of _ "new_text_turn i input (cc_memory (rx_context s) \<noteq> None)"]) simp
qed

theorem text_turn_starts_witness:
  "\<exists>s' i t. start_turn ascii_unicode demo_runtime [104] = (s', Inr i) \<and> ti_turn_id i = 1 \<and>
     rx_turns s' i = Some t \<and> tt_sent t = [TurnStarted 1]"
proof -
  have "sequence_of (rx_context demo_runtime) \<noteq> - 1" by (simp add: demo_runtime)
  from text_turn_starts [OF demo_runtime(1-3) this demo_texts(1,4), of ascii_unicode] show ?thesis
    by (auto simp: demo_runtime)
qed

text \<open>What the stream of a turn can be, at any point.\<close>

definition stream_shape :: "TextTurn \<Rightarrow> bool" where
  "stream_shape t \<longleftrightarrow>
     (\<exists>h ds elapsed tail. tt_sent t = TurnStarted (tt_turn_id t) # h @ text_events (tt_turn_id t) ds elapsed @ tail \<and>
        header_ok t h \<and> (ds \<noteq> [] \<longrightarrow> header_full t h) \<and> tt_generated_text t = concat ds \<and>
        (tail = [] \<or> tail = [TextCompleted (tt_turn_id t) (concat ds)] \<and> trim (concat ds) \<noteq> []))"

lemma any_shape: "any_stream t [] \<Longrightarrow> stream_shape t"
  unfolding stream_shape_def stream_is_def by blast

lemma completed_shape:
  assumes "completed_stream t"
  shows "stream_shape t"
proof (cases "open_stream t")
  case True
  then show ?thesis using any_shape open_any by blast
next
  case False
  then have c: "stream_is t (\<lambda>h ds. header_full t h) [TextCompleted (tt_turn_id t) (tt_generated_text t)]" "trim (tt_generated_text t) \<noteq> []"
    using assms by (simp_all add: completed_stream_def)
  then obtain h ds e where h: "tt_sent t = TurnStarted (tt_turn_id t) # h @ text_events (tt_turn_id t) ds e @
      [TextCompleted (tt_turn_id t) (tt_generated_text t)]" "header_full t h" "tt_generated_text t = concat ds"
    unfolding stream_is_def by blast
  then show ?thesis unfolding stream_shape_def using c(2)
    by (intro exI [of _ h] exI [of _ ds] exI [of _ e] exI [of _ "[TextCompleted (tt_turn_id t) (concat ds)]"]) (simp add: header_ok_def)
qed

lemma ends_shape: "ends_with t e \<Longrightarrow> stream_shape t"
  using completed_shape any_shape by (auto simp: ends_with_def gives_up_def)

lemma local_shape:
  assumes "local_ok t"
  shows "stream_shape t"
proof -
  have b: "base_ok t" "point_ok t (tt_point t)" using assms by (simp_all add: local_ok_def)
  have c: "completes t e x \<Longrightarrow> stream_shape t" "gives_up t e \<Longrightarrow> stream_shape t" for e x
    using any_shape open_any by (auto simp: completes_def gives_up_def)
  note any = any_shape [OF point_any_stream [OF b(2,1)]]
  show ?thesis using b(2) c ends_shape any by (cases "tt_point t") auto
qed

lemma shape_not_terminal:
  assumes "stream_shape t"
  shows "list_all (\<lambda>e. \<not> is_terminal e) (tt_sent t)"
proof -
  have "list_all (\<lambda>e. \<not> is_terminal e) (text_events i ds e)" for i ds e
    by (cases ds) (simp_all add: list_all_iff)
  moreover have "header_ok t h \<Longrightarrow> list_all (\<lambda>e. \<not> is_terminal e) h" for h
    by (auto simp: header_ok_def header_full_def split: if_splits)
  ultimately show ?thesis using assms by (auto simp: stream_shape_def)
qed

lemma ends_terminal:
  "ends_with t e \<Longrightarrow> is_terminal e \<and> (e = TurnCompleted k \<longrightarrow> k = tt_turn_id t \<and> \<not> tt_external_interruption t \<and>
     (tt_receiver_closed t \<or> last (tt_sent t) = TextCompleted k (tt_generated_text t)))"
  by (auto simp: ends_with_def gives_up_def completed_stream_def stream_is_def)

text \<open>
  C8: The events of a text turn. Whatever the model, the memory provider, the consumer, an interruption
  and the other users of the context do, the stream of a turn is \<open>TurnStarted\<close>, the quality decision,
  the retrieval trace if there is a memory provider, the deltas with the timing of the first behind
  it, and possibly \<open>TextCompleted\<close> with the concatenation of the deltas. It holds no terminal event and
  never more than 32 unread ones. The terminal event is sent once, after the stream is closed, when
  the task ends and not before. It is \<open>TurnCompleted\<close> only if the turn was not interrupted and its
  text was published, unless the consumer had left.
\<close>

theorem text_turn_stream:
  assumes "text_reachable u s" "rx_turns s i = Some t"
  shows "stream_shape t \<and> list_all (\<lambda>e. \<not> is_terminal e) (tt_sent t) \<and>
     tt_identity t = i \<and> length (tt_sent t) - tt_received t \<le> EVENT_BUFFER_SIZE \<and>
     (tt_point t \<noteq> Ended \<longrightarrow> tt_terminal t = None) \<and>
     (tt_point t = Ended \<longrightarrow> (\<exists>e. tt_terminal t = Some e \<and> is_terminal e \<and> tt_sender_dropped t)) \<and>
     (\<forall>k. tt_terminal t = Some (TurnCompleted k) \<longrightarrow> k = ti_turn_id i \<and> \<not> tt_external_interruption t \<and>
        (tt_receiver_closed t \<or> last (tt_sent t) = TextCompleted k (tt_generated_text t)))"
proof -
  have t: "tt_identity t = i" "local_ok t" using text_ok_turn [OF text_reachable_ok [OF assms(1)] assms(2)] by (auto simp: turn_ok_def)
  have b: "base_ok t" "point_ok t (tt_point t)" using t(2) by (simp_all add: local_ok_def)
  note shape = local_shape [OF t(2)] shape_not_terminal [OF local_shape [OF t(2)]]
  show ?thesis
  proof (cases "tt_point t = Ended")
    case True
    then obtain e where e: "tt_terminal t = Some e" "ends_with t e" "tt_sender_dropped t" using b(2) by auto
    show ?thesis using True e shape t(1) b(1) ends_terminal [OF e(2)] by (auto simp: base_ok_def)
  next
    case False
    then show ?thesis using shape t(1) b(1) by (simp add: base_ok_def)
  qed
qed

theorem text_turn_stream_witness:
  "\<exists>s i t. text_reachable ascii_unicode (s :: unit text_runtime) \<and> rx_turns s i = Some t \<and> stream_shape t \<and> tt_terminal t = None"
proof -
  obtain s i input where s: "text_reachable ascii_unicode (s :: unit text_runtime)" "rx_turns s i = Some (new_text_turn i input False)"
    by (rule demo_started)
  then show ?thesis using text_turn_stream [OF s]
    by (intro exI [of _ s] exI [of _ i] exI [of _ "new_text_turn i input False"]) simp
qed

lemma commit_learns:
  assumes "text_ok s"
    and "rx_turns s i = Some t" "tt_point t = At_Commit e generated"
    and "turn_poll aw (rx_context s) (rx_active s) t = Some (c, active, t')"
  shows "active = rx_active s \<and> active_turn c = None \<and> q_pending_turn (cc_quality c) = None \<and>
     (if e = TurnCompleted (ti_turn_id i)
      then t' = t\<lparr>tt_point := At_Completed e generated\<rparr> \<and> \<not> tt_external_interruption t \<and> generated = tt_generated_text t \<and>
        q_history (cc_quality c) \<noteq> [] \<and>
        cm_text (ce_user (last (q_history (cc_quality c)))) = li_transcript (tt_input t) \<and>
        cm_text (ce_assistant (last (q_history (cc_quality c)))) = generated
      else t' = t\<lparr>tt_point := At_Release e\<rparr> \<and> q_history (cc_quality c) = q_history (cc_quality (rx_context s)))"
proof -
  note ok = assms(1)
  have t: "tt_identity t = i" "turn_ok (rx_context s) (rx_active s) t" using text_ok_turn [OF ok assms(2)] by auto
  have q: "quality_ok (cc_quality (rx_context s))" using ok by (simp add: text_ok_def)
  have h: "holds_turn (rx_context s) i (li_transcript (tt_input t))" and b: "base_ok t"
    and l: "completes t e generated \<and> \<not> tt_external_interruption t \<or> gives_up t e"
    using t assms(3) by (simp_all add: turn_ok_def local_ok_def)
  have poll: "commit_point e generated (rx_context s) t = (c, t')" "active = rx_active s"
    using assms(3,4) by (auto simp: turn_poll_def split: prod.splits)
  from l show ?thesis
  proof (elim disjE conjE)
    assume cp: "completes t e generated" "\<not> tt_external_interruption t"
    then have e: "e = TurnCompleted (ti_turn_id i)" "generated = tt_generated_text t" "trim generated \<noteq> []"
      using t(1) unfolding completes_def by blast+
    have "str_len generated \<le> MAX_CONVERSATION_MESSAGE_BYTES" using b e(2) by (auto simp: base_ok_def)
    then obtain d x where d: "context_complete_turn (rx_context s) i generated = Some (d, Inr ())" "active_turn d = None"
      "q_pending_turn (cc_quality d) = None" "q_history (cc_quality d) \<noteq> []" "last (q_history (cc_quality d)) = x"
      "cm_text (ce_user x) = li_transcript (tt_input t)" "cm_text (ce_assistant x) = generated"
      using complete_holds [OF q h e(3)] by blast
    have "c = d" "t' = t\<lparr>tt_point := At_Completed e generated\<rparr>" using poll(1) d(1) e(1) t(1) by (simp_all add: commit_point_def)
    then show ?thesis using d poll(2) cp(2) e by simp
  next
    assume up: "gives_up t e"
    have "\<exists>b d. commit_point e generated (rx_context s) t = (d, t\<lparr>tt_point := At_Release e\<rparr>) \<and> context_discard_turn (rx_context s) i b = (d, Inr ())"
      using up discard_holds [OF q h, of True] discard_holds [OF q h, of False] t(1)
      by (auto simp: gives_up_def commit_point_def)
    then obtain b d where d: "c = d" "t' = t\<lparr>tt_point := At_Release e\<rparr>" "context_discard_turn (rx_context s) i b = (d, Inr ())"
      using poll(1) by auto
    have "e \<noteq> TurnCompleted (ti_turn_id i)" using up by (auto simp: gives_up_def)
    then show ?thesis using discard_holds [OF q h, of b] d poll(2) by auto
  qed
qed

text \<open>
  C9: The context learns of a text turn exactly once, and what was generated. In every reachable state
  a task that has settled its terminal event still holds the context, so its call cannot fail: a
  completed turn appends the transcript and the whole generated text as the last exchange of the
  history and goes on to publish the text; a cancelled or failed one leaves the history as it was and
  keeps its event. Either way no turn is active or pending in the context afterwards, and a turn whose
  completion was claimed had not been interrupted.
\<close>

theorem text_turn_commits:
  assumes "text_reachable u s"
    and "rx_turns s i = Some t" "tt_point t = At_Commit e generated"
    and "turn_poll aw (rx_context s) (rx_active s) t = Some (c, active, t')"
  shows "active = rx_active s \<and> active_turn c = None \<and> q_pending_turn (cc_quality c) = None \<and>
     (if e = TurnCompleted (ti_turn_id i)
      then t' = t\<lparr>tt_point := At_Completed e generated\<rparr> \<and> \<not> tt_external_interruption t \<and> generated = tt_generated_text t \<and>
        q_history (cc_quality c) \<noteq> [] \<and>
        cm_text (ce_user (last (q_history (cc_quality c)))) = li_transcript (tt_input t) \<and>
        cm_text (ce_assistant (last (q_history (cc_quality c)))) = generated
      else t' = t\<lparr>tt_point := At_Release e\<rparr> \<and> q_history (cc_quality c) = q_history (cc_quality (rx_context s)))"
  by (rule commit_learns [OF text_reachable_ok [OF assms(1)] assms(2-4)])

text \<open>The scheduler polls the task of one turn; the polls a turn needs at most, from each point, once it is interrupted.\<close>

definition poll_turn :: "awaited \<Rightarrow> ConversationTurnIdentity \<Rightarrow> 'm text_runtime \<Rightarrow> 'm text_runtime option" where
  "poll_turn aw i s =
     (case rx_turns s i of
        None \<Rightarrow> None
      | Some t \<Rightarrow>
          (case turn_poll aw (rx_context s) (rx_active s) t of
             None \<Rightarrow> None
           | Some (c, a, t') \<Rightarrow> Some (s\<lparr>rx_context := c, rx_active := a, rx_turns := (rx_turns s)(i \<mapsto> t')\<rparr>)))"

fun poll_times :: "awaited \<Rightarrow> ConversationTurnIdentity \<Rightarrow> nat \<Rightarrow> 'm text_runtime \<Rightarrow> 'm text_runtime option" where
  "poll_times aw i 0 s = Some s"
| "poll_times aw i (Suc n) s = (case poll_turn aw i s of None \<Rightarrow> None | Some s' \<Rightarrow> poll_times aw i n s')"

fun polls_left :: "turn_point \<Rightarrow> nat" where
  "polls_left Ended = 0"
| "polls_left (At_Terminal _) = 1"
| "polls_left (At_Release _) = 2"
| "polls_left (At_Commit _ _) = 3"
| "polls_left (At_Outcome _) = 4"
| "polls_left At_Retrieval = 6"
| "polls_left At_Stream = 6"
| "polls_left (At_Publish _) = 6"
| "polls_left _ = 5"

definition owns_runtime :: "ConversationTurnIdentity \<Rightarrow> ActiveTextTurn option \<Rightarrow> bool" where
  "owns_runtime i active \<longleftrightarrow> (\<forall>a. active = Some a \<longrightarrow> ta_identity a = i)"

definition settled :: "'m ConversationContext \<Rightarrow> TextTurn \<Rightarrow> bool" where
  "settled c t \<longleftrightarrow> live (tt_point t) \<or> active_turn c = None"

lemma request_valid:
  "base_ok t \<Longrightarrow> request_from_input (tt_turn_id t) generation_id (tt_input t) =
     Inr \<lparr>gr_turn_id = tt_turn_id t, gr_generation_id = generation_id, gr_input = tt_input t\<rparr>"
  by (auto simp: request_from_input_def validate_decision_turn_def base_ok_def)

lemma interrupted_commit:
  assumes ok: "turn_ok c active t" "quality_ok (cc_quality c)" and ext: "tt_external_interruption t" and p: "tt_point t = At_Commit e x"
  shows "\<exists>c'. commit_point e x c t = (c', t\<lparr>tt_point := At_Release e\<rparr>) \<and> active_turn c' = None \<and>
    q_history (cc_quality c') = q_history (cc_quality c)"
proof -
  have h: "holds_turn c (tt_identity t) (li_transcript (tt_input t))" and up: "gives_up t e"
    using ok(1) p ext by (simp_all add: turn_ok_def local_ok_def)
  show ?thesis using up discard_holds [OF ok(2) h, of True] discard_holds [OF ok(2) h, of False]
    by (auto simp: gives_up_def commit_point_def)
qed

lemma interrupted_local:
  assumes ok: "local_ok t" and ext: "tt_external_interruption t" and live: "live (tt_point t)"
    and p: "\<And>o1. tt_point t \<noteq> At_Outcome o1" "\<And>e x. tt_point t \<noteq> At_Commit e x"
    and aw: "aw_retrieval aw \<noteq> None" "aw_item aw = Some Item_End"
  shows "\<exists>q. local_poll aw t = Some (t\<lparr>tt_point := q\<rparr>) \<and> live q \<and> polls_left q < polls_left (tt_point t)"
proof -
  obtain d where d: "li_quality_decision (tt_input t) = Some d" using ok by (auto simp: local_ok_def base_ok_def)
  have moves: ?thesis if "local_poll aw t = Some (t\<lparr>tt_point := q\<rparr>)" "live q" "polls_left q < polls_left (tt_point t)" for q
    using that by blast
  show ?thesis
  proof (cases "tt_point t")
    case At_Quality
    then show ?thesis using ext d by (intro moves [of "At_Outcome (cancelled_outcome t)"]) (simp_all add: local_poll_def polls)
  next
    case At_Retrieval
    then show ?thesis using ext by (intro moves [of "At_Retrieval_Stop (cancelled_outcome t)"]) (simp_all add: local_poll_def retrieval_point_def)
  next
    case (At_Retrieval_Stop o1)
    then show ?thesis using aw by (intro moves [of "At_Outcome o1"]) (auto simp: local_poll_def)
  next
    case (At_Memory trace)
    then show ?thesis using ext by (intro moves [of "At_Outcome (cancelled_outcome t)"]) (simp_all add: local_poll_def polls)
  next
    case At_Request
    have "base_ok t" using ok by (simp add: local_ok_def)
    then show ?thesis using At_Request ext
      by (intro moves [of "At_Outcome (cancelled_outcome t)"]) (simp_all add: local_poll_def request_point_def request_valid)
  next
    case At_Stream
    then show ?thesis using ext by (intro moves [of "At_Cleanup (cancelled_outcome t)"]) (simp_all add: local_poll_def stream_point_def)
  next
    case (At_Publish delta)
    then show ?thesis using ext
      by (intro moves [of "At_Cleanup (cancelled_outcome t)"]) (simp_all add: local_poll_def publish_point_def publish_text_delta_def Let_def)
  next
    case (At_Cleanup o1)
    then show ?thesis using aw by (intro moves [of "At_Outcome o1"]) (simp_all add: local_poll_def cleanup_language_stream_def)
  qed (use live p in auto)
qed

lemma interrupted_poll:
  assumes ok: "turn_ok c active t" "quality_ok (cc_quality c)" and ext: "tt_external_interruption t" and run: "tt_point t \<noteq> Ended"
    and aw: "aw_retrieval aw \<noteq> None" "aw_item aw = Some Item_End" and own: "owns_runtime (tt_identity t) active" "settled c t"
  shows "\<exists>c' active' t'. turn_poll aw c active t = Some (c', active', t') \<and> tt_external_interruption t' \<and>
     polls_left (tt_point t') < polls_left (tt_point t) \<and> owns_runtime (tt_identity t) active' \<and> settled c' t' \<and>
     q_history (cc_quality c') = q_history (cc_quality c)"
proof -
  have l: "local_ok t" using ok(1) by (simp add: turn_ok_def)
  consider (outcome) o1 where "tt_point t = At_Outcome o1" | (commit) e x where "tt_point t = At_Commit e x"
    | (release) e where "tt_point t = At_Release e" | (terminal) e where "tt_point t = At_Terminal e"
    | (early) "live (tt_point t)" "\<And>o1. tt_point t \<noteq> At_Outcome o1" "\<And>e x. tt_point t \<noteq> At_Commit e x"
    using l ext run by (cases "tt_point t") (auto simp: local_ok_def)
  then show ?thesis
  proof cases
    case outcome
    obtain active' t' where o: "outcome_point o1 active t = (active', t')" by force
    then obtain e x where t': "t' = t\<lparr>tt_point := At_Commit e x\<rparr>" unfolding outcome_point_def Let_def by (auto split: prod.splits)
    have "owns_runtime (tt_identity t) active'" using outcome_ok [OF ok(1) outcome o] by (auto simp: owns_runtime_def)
    moreover have "turn_poll aw c active t = Some (c, active', t')" using outcome o by (simp add: turn_poll_def)
    ultimately show ?thesis using outcome ext t' by (simp add: settled_def)
  next
    case commit
    then show ?thesis using interrupted_commit [OF ok ext commit] ext own by (auto simp: turn_poll_def settled_def)
  next
    case release
    obtain active' t' where o: "release_point e active t = (active', t')" by force
    then have "active' = None" "t' = t\<lparr>tt_sender_dropped := True, tt_point := At_Terminal e\<rparr>"
      using release_ok [OF ok(1) release o] by (simp_all add: release_point_def)
    moreover have "turn_poll aw c active t = Some (c, active', t')" using release o by (simp add: turn_poll_def)
    ultimately show ?thesis using release ext own by (simp add: settled_def owns_runtime_def)
  next
    case terminal
    then show ?thesis using ext own by (simp add: turn_poll_def local_poll_def settled_def)
  next
    case early
    then obtain q where q: "local_poll aw t = Some (t\<lparr>tt_point := q\<rparr>)" "live q" "polls_left q < polls_left (tt_point t)"
      using interrupted_local [OF l ext early aw] by blast
    have "turn_poll aw c active t = Some (c, active, t\<lparr>tt_point := q\<rparr>)"
      using early q(1) by (cases "tt_point t") (auto simp: turn_poll_def)
    then show ?thesis using q ext own(1) by (simp add: settled_def)
  qed
qed

lemma interrupted_ends:
  assumes "text_ok s" "rx_turns s i = Some t" "tt_external_interruption t" "owns_runtime i (rx_active s)" "settled (rx_context s) t"
    and "aw_retrieval aw \<noteq> None" "aw_item aw = Some Item_End"
  shows "\<exists>n s' t'. n \<le> polls_left (tt_point t) \<and> poll_times aw i n s = Some s' \<and> rx_turns s' i = Some t' \<and> tt_point t' = Ended \<and>
     tt_external_interruption t' \<and> text_ok s' \<and> owns_runtime i (rx_active s') \<and> settled (rx_context s') t' \<and>
     q_history (cc_quality (rx_context s')) = q_history (cc_quality (rx_context s))"
  using assms(1-5)
proof (induction "polls_left (tt_point t)" arbitrary: s t rule: less_induct)
  case less
  show ?case
  proof (cases "tt_point t = Ended")
    case True
    then show ?thesis using less.prems by (intro exI [of _ 0] exI [of _ s] exI [of _ t]) simp
  next
    case False
    have t: "tt_identity t = i" "turn_ok (rx_context s) (rx_active s) t" using text_ok_turn [OF less.prems(1,2)] by auto
    have q: "quality_ok (cc_quality (rx_context s))" using less.prems(1) by (simp add: text_ok_def)
    obtain c a t1 where p: "turn_poll aw (rx_context s) (rx_active s) t = Some (c, a, t1)" "tt_external_interruption t1"
      "polls_left (tt_point t1) < polls_left (tt_point t)" "owns_runtime i a" "settled c t1"
      "q_history (cc_quality c) = q_history (cc_quality (rx_context s))"
      using interrupted_poll [OF t(2) q less.prems(3) False assms(6,7)] less.prems(4,5) t(1) by auto
    let ?s = "s\<lparr>rx_context := c, rx_active := a, rx_turns := (rx_turns s)(i \<mapsto> t1)\<rparr>"
    have s1: "text_ok ?s" by (rule poll_ok [OF less.prems(1,2) p(1)])
    have step: "poll_turn aw i s = Some ?s" using less.prems(2) p(1) by (simp add: poll_turn_def)
    obtain n s' t' where n: "n \<le> polls_left (tt_point t1)" "poll_times aw i n ?s = Some s'" "rx_turns s' i = Some t'" "tt_point t' = Ended"
      "tt_external_interruption t'" "text_ok s'" "owns_runtime i (rx_active s')" "settled (rx_context s') t'"
      "q_history (cc_quality (rx_context s')) = q_history (cc_quality c)"
      using less.hyps [OF p(3) s1] p(2,4,5) by auto
    show ?thesis using n p(3,6) step by (intro exI [of _ "Suc n"] exI [of _ s'] exI [of _ t']) simp
  qed
qed

text \<open>
  C11: An interrupted text turn ends. From every reachable state in which a turn is interrupted before
  the context knows its outcome, at most six polls of its task end it, if the memory provider answers
  and the model closes its stream: the consumer need not read anything. Its terminal event is
  \<open>TurnCancelled\<close> or \<open>TurnFailed\<close> for this turn, the history is what it was, and neither the runtime
  nor the context has an active turn left.
\<close>

theorem text_interrupted_turn_ends:
  assumes "text_reachable u s" "rx_turns s i = Some t" "tt_external_interruption t" "live (tt_point t)"
    and "aw_retrieval aw \<noteq> None" "aw_item aw = Some Item_End"
  shows "\<exists>n s' t' e. n \<le> 6 \<and> poll_times aw i n s = Some s' \<and> rx_turns s' i = Some t' \<and> tt_point t' = Ended \<and>
     tt_terminal t' = Some e \<and> (e = TurnCancelled (ti_turn_id i) \<or> (\<exists>error. e = TurnFailed (ti_turn_id i) error)) \<and>
     rx_active s' = None \<and> active_turn (rx_context s') = None \<and>
     q_history (cc_quality (rx_context s')) = q_history (cc_quality (rx_context s))"
proof -
  have ok: "text_ok s" using text_reachable_ok [OF assms(1)] .
  have own: "owns_runtime i (rx_active s)"
    using text_ok_turn [OF ok assms(2)] live_unreleased [OF assms(4)] by (auto simp: turn_ok_def owns_runtime_def)
  have "settled (rx_context s) t" using assms(4) by (simp add: settled_def)
  then obtain n s' t' where n: "n \<le> polls_left (tt_point t)" "poll_times aw i n s = Some s'" "rx_turns s' i = Some t'" "tt_point t' = Ended"
    "tt_external_interruption t'" "text_ok s'" "owns_runtime i (rx_active s')" "settled (rx_context s') t'"
    "q_history (cc_quality (rx_context s')) = q_history (cc_quality (rx_context s))"
    using interrupted_ends [OF ok assms(2,3) own _ assms(5,6)] by blast
  have t': "tt_identity t' = i" "local_ok t'" using text_ok_turn [OF n(6,3)] by (auto simp: turn_ok_def)
  then obtain e where e: "tt_terminal t' = Some e" "gives_up t' e" using n(4,5) by (auto simp: local_ok_def ends_with_def)
  have "rx_active s' = None" using n(3,4,6,7) by (cases "rx_active s'") (auto simp: text_ok_def owns_runtime_def)
  moreover have "active_turn (rx_context s') = None" using n(4,8) by (simp add: settled_def)
  moreover have "n \<le> 6" using n(1) by (cases "tt_point t") simp_all
  ultimately show ?thesis using n e t'(1) by (auto simp: gives_up_def)
qed

lemma demo_interrupted:
  obtains s i t where "text_reachable ascii_unicode s" "rx_turns (s :: unit text_runtime) i = Some t" "tt_external_interruption t"
    "live (tt_point t)"
proof -
  obtain s i input where s: "text_reachable ascii_unicode (s :: unit text_runtime)" "rx_turns s i = Some (new_text_turn i input False)"
    "rx_active s = Some \<lparr>ta_identity = i, ta_finalizing = False\<rparr>"
    by (rule demo_started)
  obtain s' r where int: "interrupt s (ti_turn_id i) = (s', r)" by force
  have "text_reachable ascii_unicode s'" by (rule text_reachable_step [OF s(1) text_step.interrupt [OF int]])
  moreover have "rx_turns s' i = Some ((new_text_turn i input False)\<lparr>tt_external_interruption := True, tt_work_cancellation := True\<rparr>)"
    using int s(2,3) by (auto simp: interrupt_def)
  ultimately show thesis by (rule that) simp_all
qed

theorem text_interrupted_turn_ends_witness:
  "\<exists>s i n s' t'. text_reachable ascii_unicode (s :: unit text_runtime) \<and>
     poll_times \<lparr>aw_retrieval = Some (Answer_Join_Error False), aw_item = Some Item_End, aw_panics = False, aw_elapsed_ms = 0\<rparr> i n s = Some s' \<and>
     rx_turns s' i = Some t' \<and> tt_point t' = Ended \<and> rx_active s' = None"
proof -
  let ?aw = "\<lparr>aw_retrieval = Some (Answer_Join_Error False), aw_item = Some Item_End, aw_panics = False, aw_elapsed_ms = 0\<rparr>"
  obtain s i t where s: "text_reachable ascii_unicode (s :: unit text_runtime)" "rx_turns s i = Some t" "tt_external_interruption t"
    "live (tt_point t)"
    by (rule demo_interrupted)
  have "aw_retrieval ?aw \<noteq> None" "aw_item ?aw = Some Item_End" by simp_all
  from text_interrupted_turn_ends [OF s this] s(1) show ?thesis by blast
qed

text \<open>A turn that is interrupted stays so.\<close>

lemma poll_keeps_interruption:
  assumes ok: "turn_ok c active t" and poll: "turn_poll aw c active t = Some (c', active', t')"
  shows "tt_external_interruption t' = tt_external_interruption t"
proof -
  consider (outcome) o1 where "tt_point t = At_Outcome o1" | (commit) e x where "tt_point t = At_Commit e x"
    | (release) e where "tt_point t = At_Release e" | (alone) "local_poll aw t = Some t'"
    using poll by (cases "tt_point t") (auto simp: turn_poll_def)
  then show ?thesis
  proof cases
    case outcome
    then show ?thesis using poll by (auto simp: turn_poll_def outcome_point_def Let_def split: prod.splits)
  next
    case commit
    then obtain d where "commit_point e x c t = (d, t')" using poll by (auto simp: turn_poll_def split: prod.splits)
    then show ?thesis by (auto simp: commit_point_def split: option.splits sum.splits prod.splits)
  next
    case release
    then show ?thesis using poll by (auto simp: turn_poll_def release_point_def)
  next
    case alone
    have "local_ok t" using ok by (simp add: turn_ok_def)
    then show ?thesis using local_poll_ok [OF _ alone] by (simp add: same_turn_def)
  qed
qed

lemma start_keeps_turns:
  assumes ok: "text_ok s" and st: "start_turn u s transcript = (s', r)" and t: "rx_turns s i = Some t"
  shows "rx_turns s' i = Some t"
proof -
  have q: "quality_ok (cc_quality (rx_context s))" using ok by (simp add: text_ok_def)
  obtain c x where b: "begin_turn u (rx_context s) Source_Text transcript = (c, x)" by force
  have "i \<noteq> pr_identity p" if "x = Inr p" for p
    using begin_turn_spec [OF q b] that text_ok_fresh [OF ok, of "pr_identity p"] t by auto
  then show ?thesis using st b t by (auto simp: start_turn_def Let_def split: sum.splits option.splits)
qed

definition interrupted_turn :: "ConversationTurnIdentity \<Rightarrow> 'm text_runtime \<Rightarrow> bool" where
  "interrupted_turn i s \<longleftrightarrow> (\<exists>t. rx_turns s i = Some t \<and> tt_external_interruption t)"

lemma step_keeps_interruption:
  assumes "text_step u s s'" "text_ok s" "interrupted_turn i s"
  shows "interrupted_turn i s'"
  using assms
proof (induction rule: text_step.induct)
  case (start s transcript s' r)
  then show ?case using start_keeps_turns [OF start(2,1)] unfolding interrupted_turn_def by blast
next
  case (poll s j t aw c a t')
  then show ?case using poll_keeps_interruption [of "rx_context s" "rx_active s" t aw c a t'] text_ok_turn [OF poll(3,1)]
    by (auto simp: interrupted_turn_def)
next
  case (interrupt s turn_id s' r)
  then show ?case by (auto simp: interrupted_turn_def interrupt_def split: option.splits if_splits)
next
  case (recv s j t t' event)
  have "local_ok t" using text_ok_turn [OF recv(4,1)] by (simp add: turn_ok_def)
  then have "tt_external_interruption t' = tt_external_interruption t" using recv_ok [OF _ recv(3)] by (simp add: same_turn_def)
  then show ?case using recv by (auto simp: interrupted_turn_def)
qed (auto simp: interrupted_turn_def)

lemma text_steps_ok: "text_steps u s s' \<Longrightarrow> text_ok s \<Longrightarrow> text_ok s'"
  by (induction rule: text_steps.induct) (auto intro: text_step_ok)

lemma steps_keep_interruption:
  assumes "text_steps u s s'" "text_ok s" "interrupted_turn i s"
  shows "interrupted_turn i s'"
  using assms by (induction rule: text_steps.induct) (blast intro: text_steps_ok step_keeps_interruption)+

lemma any_not_completed:
  assumes "any_stream t []"
  shows "TextCompleted k x \<notin> set (tt_sent t)"
proof -
  have "TextCompleted k x \<notin> set (text_events i ds e)" for i ds e by (cases ds) auto
  moreover have "header_ok t h \<Longrightarrow> TextCompleted k x \<notin> set h" for h by (auto simp: header_ok_def header_full_def split: if_splits)
  ultimately show ?thesis using assms by (auto simp: stream_is_def)
qed

lemma interrupted_stream:
  assumes "local_ok t" "tt_external_interruption t"
  shows "any_stream t []"
proof -
  have b: "base_ok t" "point_ok t (tt_point t)" using assms(1) by (simp_all add: local_ok_def)
  have c: "completes t e x \<Longrightarrow> any_stream t []" "gives_up t e \<Longrightarrow> any_stream t []" "ends_with t e \<Longrightarrow> any_stream t []" for e x
    using open_any assms(2) by (auto simp: completes_def gives_up_def ends_with_def)
  note any = point_any_stream [OF b(2,1)]
  show ?thesis
    using b(2) c any assms(2) by (cases "tt_point t") auto
qed

text \<open>
  C10: An interruption that comes before the completion is claimed is final. \<open>interrupt\<close> then succeeds,
  and in every later state, whatever happens, the turn is interrupted, has not published
  \<open>TextCompleted\<close>, and its terminal event, if it has one, is \<open>TurnCancelled\<close> or \<open>TurnFailed\<close>.
\<close>

theorem text_interruption_is_final:
  assumes "text_reachable u s" "rx_active s = Some active" "\<not> ta_finalizing active"
    and "interrupt s (ti_turn_id (ta_identity active)) = (s1, r)" "text_steps u s1 s'"
  shows "r = Inr () \<and> (\<exists>t. rx_turns s' (ta_identity active) = Some t \<and> tt_external_interruption t \<and>
     (\<forall>k x. TextCompleted k x \<notin> set (tt_sent t)) \<and>
     (tt_terminal t = None \<or> tt_terminal t = Some (TurnCancelled (ti_turn_id (ta_identity active))) \<or>
      (\<exists>error. tt_terminal t = Some (TurnFailed (ti_turn_id (ta_identity active)) error))))"
proof -
  let ?i = "ta_identity active"
  have ok: "text_ok s" using text_reachable_ok [OF assms(1)] .
  obtain t where t: "rx_turns s ?i = Some t" using ok assms(2) by (auto simp: text_ok_def)
  have int: "r = Inr ()" "interrupted_turn ?i s1" using assms(2-4) t by (auto simp: interrupt_def interrupted_turn_def)
  have ok': "text_ok s'" using text_steps_ok [OF assms(5) interrupt_ok [OF ok assms(4)]] .
  obtain t' where t': "rx_turns s' ?i = Some t'" "tt_external_interruption t'"
    using steps_keep_interruption [OF assms(5) interrupt_ok [OF ok assms(4)] int(2)] by (auto simp: interrupted_turn_def)
  have l: "local_ok t'" "tt_identity t' = ?i" using text_ok_turn [OF ok' t'(1)] by (auto simp: turn_ok_def)
  have "gives_up t' e" if "tt_terminal t' = Some e" for e
    using l(1) t'(2) that by (cases "tt_point t' = Ended") (auto simp: local_ok_def base_ok_def ends_with_def)
  then show ?thesis using int(1) t' l(2) any_not_completed [OF interrupted_stream [OF l(1) t'(2)]]
    by (cases "tt_terminal t'") (auto simp: gives_up_def)
qed

theorem text_interruption_is_final_witness:
  "\<exists>s active s1 t. text_reachable ascii_unicode (s :: unit text_runtime) \<and> interrupt s (ti_turn_id (ta_identity (active :: ActiveTextTurn))) = (s1, Inr ()) \<and>
     rx_turns s1 (ta_identity active) = Some t \<and> tt_external_interruption t"
proof -
  obtain s i where s: "text_reachable ascii_unicode (s :: unit text_runtime)" "rx_active s = Some \<lparr>ta_identity = i, ta_finalizing = False\<rparr>"
    by (rule demo_started)
  obtain s1 r where int: "interrupt s (ti_turn_id (ta_identity \<lparr>ta_identity = i, ta_finalizing = False\<rparr>)) = (s1, r)" by force
  have "\<not> ta_finalizing \<lparr>ta_identity = i, ta_finalizing = False\<rparr>" by simp
  from text_interruption_is_final [OF s this int text_steps.none] obtain t where "r = Inr ()" "rx_turns s1 i = Some t" "tt_external_interruption t"
    by auto
  then show ?thesis using s(1) int
    by (intro exI [of _ s] exI [of _ "\<lparr>ta_identity = i, ta_finalizing = False\<rparr>"] exI [of _ s1] exI [of _ t]) simp
qed

section \<open>A turn that is answered\<close>

lemma text_steps_trans: "text_steps u s s' \<Longrightarrow> text_steps u s' s'' \<Longrightarrow> text_steps u s s''"
  by (rotate_tac, induction rule: text_steps.induct) (auto intro: text_steps.more)

text \<open>The state after a task moved alone.\<close>

abbreviation with_turn :: "'m text_runtime \<Rightarrow> ConversationTurnIdentity \<Rightarrow> TextTurn \<Rightarrow> 'm text_runtime" where
  "with_turn s i t \<equiv> s\<lparr>rx_turns := (rx_turns s)(i \<mapsto> t)\<rparr>"

lemma alone_step:
  assumes "rx_turns s i = Some t" "turn_poll aw (rx_context s) (rx_active s) t = Some (rx_context s, rx_active s, t')"
  shows "text_step u s (with_turn s i t')"
  using text_step.poll [OF assms, of u] runtime_same(1) [where s = s] by simp

lemma with_turn_same: "rx_turns s i = Some t \<Longrightarrow> with_turn s i t = s"
  by (cases s) (simp add: fun_upd_idem)

lemma drain:
  assumes "rx_turns s i = Some t" "\<not> tt_receiver_closed t" "tt_received t \<le> length (tt_sent t)"
  shows "text_steps u s (with_turn s i (t\<lparr>tt_received := length (tt_sent t)\<rparr>))"
  using assms
proof (induction "length (tt_sent t) - tt_received t" arbitrary: s t)
  case 0
  then have t: "t\<lparr>tt_received := length (tt_sent t)\<rparr> = t" by (cases t) simp
  show ?case unfolding t with_turn_same [OF 0(2)] by (rule text_steps.none)
next
  case (Suc n)
  let ?t = "t\<lparr>tt_received := tt_received t + 1\<rparr>"
  have "tt_received t < length (tt_sent t)" using Suc(2) by linarith
  then have "stream_recv t = Some (?t, Some (tt_sent t ! tt_received t))" by (simp add: stream_recv_def)
  then have "text_steps u s (with_turn s i ?t)" using text_steps.more [OF text_steps.none] text_step.recv [OF Suc(3,4)] by blast
  moreover have "text_steps u (with_turn s i ?t) (with_turn (with_turn s i ?t) i (?t\<lparr>tt_received := length (tt_sent ?t)\<rparr>))"
    using Suc(2,4) by (intro Suc(1)) simp_all
  ultimately have "text_steps u s (with_turn (with_turn s i ?t) i (?t\<lparr>tt_received := length (tt_sent ?t)\<rparr>))" by (rule text_steps_trans)
  then show ?case by simp
qed

definition streaming :: "TextTurn \<Rightarrow> bool" where
  "streaming t \<longleftrightarrow> tt_point t = At_Stream \<and> \<not> tt_interrupted t \<and> \<not> tt_receiver_closed t"

definition delta_of :: "TextTurn \<Rightarrow> rstring \<Rightarrow> GenerationTextDelta" where
  "delta_of t x = \<lparr>gd_turn_id = tt_turn_id t, gd_generation_id = ti_generation_id (tt_identity t), gd_delta = x\<rparr>"

lemma delta_moves:
  assumes ok: "text_ok s" and t: "rx_turns s i = Some t" "streaming t"
    and room: "str_len x \<le> tt_maximum_response_bytes t - str_len (tt_generated_text t)"
  shows "\<exists>t'. text_steps u s (with_turn s i t') \<and> streaming t' \<and> tt_generated_text t' = tt_generated_text t @ x \<and>
    tt_maximum_response_bytes t' = tt_maximum_response_bytes t"
proof -
  have st: "tt_point t = At_Stream" "\<not> tt_external_interruption t" "\<not> tt_work_cancellation t" "\<not> tt_receiver_closed t"
    using t(2) by (simp_all add: streaming_def)
  have b: "tt_received t \<le> length (tt_sent t)" using text_ok_turn [OF ok t(1)] by (simp add: turn_ok_def local_ok_def base_ok_def)
  let ?aw = "\<lparr>aw_retrieval = None, aw_item = Some (Item_Delta (delta_of t x)), aw_panics = False, aw_elapsed_ms = 0\<rparr>"
  let ?t1 = "t\<lparr>tt_received := length (tt_sent t)\<rparr>"
  let ?t2 = "?t1\<lparr>tt_point := At_Publish (delta_of t x)\<rparr>"
  have s1: "text_steps u s (with_turn s i ?t1)" by (rule drain [OF t(1) st(4) b])
  have "turn_poll ?aw (rx_context s) (rx_active s) ?t1 = Some (rx_context s, rx_active s, ?t2)"
    using st room by (simp add: turn_poll_def local_poll_def stream_point_def delta_of_def not_less)
  then have s2: "text_step u (with_turn s i ?t1) (with_turn s i ?t2)" using alone_step [of "with_turn s i ?t1" i ?t1 ?aw ?t2 u] by simp
  let ?es = "TextDelta (tt_turn_id t) x # (if tt_emitted_first_text t then [] else [Timing (tt_turn_id t) FirstTextDelta 0])"
  let ?t3 = "?t2\<lparr>tt_sent := tt_sent t @ ?es, tt_generated_text := tt_generated_text t @ x, tt_emitted_first_text := True, tt_point := At_Stream\<rparr>"
  have "turn_poll ?aw (rx_context s) (rx_active s) ?t2 = Some (rx_context s, rx_active s, ?t3)"
    using st by (simp add: turn_poll_def local_poll_def publish_point_def publish_text_delta_def has_capacity_def EVENT_BUFFER_SIZE_def delta_of_def)
  then have s3: "text_step u (with_turn s i ?t2) (with_turn s i ?t3)" using alone_step [of "with_turn s i ?t2" i ?t2 ?aw ?t3 u] by simp
  have "text_steps u s (with_turn s i ?t3)" using text_steps.more [OF text_steps.more [OF s1 s2] s3] .
  then show ?thesis using st by (intro exI [of _ ?t3]) (simp add: streaming_def)
qed

lemma deltas_move:
  assumes "text_ok s" "rx_turns s i = Some t" "streaming t"
    and "str_len (concat xs) \<le> tt_maximum_response_bytes t - str_len (tt_generated_text t)"
  shows "\<exists>t'. text_steps u s (with_turn s i t') \<and> streaming t' \<and> tt_generated_text t' = tt_generated_text t @ concat xs"
  using assms
proof (induction xs arbitrary: s t)
  case Nil
  have "text_steps u s (with_turn s i t)" unfolding with_turn_same [OF Nil(2)] by (rule text_steps.none)
  moreover have "tt_generated_text t = tt_generated_text t @ concat []" by simp
  ultimately show ?case using Nil(3) by blast
next
  case (Cons x xs)
  have "str_len x \<le> tt_maximum_response_bytes t - str_len (tt_generated_text t)" using Cons(5) by simp
  then obtain t1 where t1: "text_steps u s (with_turn s i t1)" "streaming t1" "tt_generated_text t1 = tt_generated_text t @ x"
    "tt_maximum_response_bytes t1 = tt_maximum_response_bytes t"
    using delta_moves [OF Cons(2-4), of x u] by blast
  have room: "str_len (concat xs) \<le> tt_maximum_response_bytes t1 - str_len (tt_generated_text t1)" using Cons(5) t1(3,4) by simp
  have "rx_turns (with_turn s i t1) i = Some t1" by simp
  then obtain t2 where t2: "text_steps u (with_turn s i t1) (with_turn (with_turn s i t1) i t2)" "streaming t2"
    "tt_generated_text t2 = tt_generated_text t1 @ concat xs"
    using Cons(1) [OF text_steps_ok [OF t1(1) Cons(2)] _ t1(2) room] by blast
  have "text_steps u s (with_turn (with_turn s i t1) i t2)" by (rule text_steps_trans [OF t1(1) t2(1)])
  then have "text_steps u s (with_turn s i t2)" by simp
  moreover have "tt_generated_text t2 = tt_generated_text t @ concat (x # xs)" using t2(3) t1(3) by simp
  ultimately show ?case using t2(2) by blast
qed

lemma stream_reaches_commit:
  assumes ok: "text_ok s" and t: "rx_turns s i = Some t" "streaming t" and body: "trim (tt_generated_text t) \<noteq> []"
  shows "\<exists>s' t'. text_steps u s s' \<and> rx_turns s' i = Some t' \<and> \<not> tt_receiver_closed t' \<and>
    tt_point t' = At_Commit (TurnCompleted (ti_turn_id i)) (tt_generated_text t) \<and> tt_generated_text t' = tt_generated_text t"
proof -
  have st: "tt_point t = At_Stream" "\<not> tt_external_interruption t" "\<not> tt_work_cancellation t" "\<not> tt_receiver_closed t"
    using t(2) by (simp_all add: streaming_def)
  have tok: "tt_identity t = i" "turn_ok (rx_context s) (rx_active s) t" using text_ok_turn [OF ok t(1)] by auto
  then obtain a where a: "rx_active s = Some a" "ta_identity a = i" "\<not> ta_finalizing a" using st(1) by (auto simp: turn_ok_def)
  let ?aw = "\<lparr>aw_retrieval = None, aw_item = Some Item_End, aw_panics = False, aw_elapsed_ms = 0\<rparr>"
  let ?e = "TurnCompleted (ti_turn_id i)"
  let ?t1 = "t\<lparr>tt_point := At_Outcome \<lparr>oc_terminal = ?e, oc_generated_text = tt_generated_text t\<rparr>\<rparr>"
  let ?t2 = "t\<lparr>tt_point := At_Commit ?e (tt_generated_text t)\<rparr>"
  have "turn_poll ?aw (rx_context s) (rx_active s) t = Some (rx_context s, rx_active s, ?t1)"
    using st body tok(1) by (simp add: turn_poll_def local_poll_def stream_point_def)
  then have s1: "text_step u s (with_turn s i ?t1)" by (rule alone_step [OF t(1)])
  have p: "turn_poll ?aw (rx_context (with_turn s i ?t1)) (rx_active (with_turn s i ?t1)) ?t1 =
      Some (rx_context s, Some (a\<lparr>ta_finalizing := True\<rparr>), ?t2)"
    using a st(2) tok(1) by (simp add: turn_poll_def outcome_point_def claim_completion_def)
  have "rx_turns (with_turn s i ?t1) i = Some ?t1" by simp
  from text_step.poll [OF this p] have s2: "text_step u (with_turn s i ?t1) (with_turn ((with_turn s i ?t1)\<lparr>rx_context := rx_context s,
      rx_active := Some (a\<lparr>ta_finalizing := True\<rparr>)\<rparr>) i ?t2)" by simp
  show ?thesis using text_steps.more [OF text_steps.more [OF text_steps.none s1] s2] st(4) by (intro exI conjI) (assumption | simp)+
qed

lemma completed_reaches_end:
  assumes t: "rx_turns s i = Some t" "tt_point t = At_Completed e x" "\<not> tt_receiver_closed t" "tt_received t \<le> length (tt_sent t)"
    and i: "tt_identity t = i" and a: "rx_active s = Some a" "ta_identity a = i"
  shows "\<exists>s' t'. text_steps u s s' \<and> rx_turns s' i = Some t' \<and> tt_point t' = Ended \<and> tt_terminal t' = Some e \<and>
    last (tt_sent t') = TextCompleted (ti_turn_id i) x \<and> rx_active s' = None \<and> rx_context s' = rx_context s"
proof -
  let ?aw = "\<lparr>aw_retrieval = None, aw_item = None, aw_panics = False, aw_elapsed_ms = 0\<rparr>"
  let ?t1 = "t\<lparr>tt_received := length (tt_sent t)\<rparr>"
  let ?t2 = "?t1\<lparr>tt_sent := tt_sent t @ [TextCompleted (ti_turn_id i) x], tt_point := At_Release e\<rparr>"
  let ?t3 = "?t2\<lparr>tt_sender_dropped := True, tt_point := At_Terminal e\<rparr>"
  let ?t4 = "?t3\<lparr>tt_terminal := Some e, tt_point := Ended\<rparr>"
  define s3 where "s3 = s\<lparr>rx_context := rx_context s, rx_active := None, rx_turns := (rx_turns s)(i \<mapsto> ?t3)\<rparr>"
  have s1: "text_steps u s (with_turn s i ?t1)" by (rule drain [OF t(1,3,4)])
  have "turn_poll ?aw (rx_context s) (rx_active s) ?t1 = Some (rx_context s, rx_active s, ?t2)"
    using t(2,3) i by (simp add: turn_poll_def local_poll_def completed_point_def has_capacity_def EVENT_BUFFER_SIZE_def)
  then have s2: "text_step u (with_turn s i ?t1) (with_turn s i ?t2)" using alone_step [of "with_turn s i ?t1" i ?t1 ?aw ?t2 u] by simp
  have p3: "turn_poll ?aw (rx_context s) (rx_active s) ?t2 = Some (rx_context s, None, ?t3)"
    using a i by (simp add: turn_poll_def release_point_def)
  have s3: "text_step u (with_turn s i ?t2) s3"
    using text_step.poll [of "with_turn s i ?t2" i ?t2 ?aw "rx_context s" None ?t3 u] p3 by (simp add: s3_def)
  have "turn_poll ?aw (rx_context s3) (rx_active s3) ?t3 = Some (rx_context s3, rx_active s3, ?t4)"
    by (simp add: turn_poll_def local_poll_def)
  then have s4: "text_step u s3 (with_turn s3 i ?t4)" using alone_step [of s3 i ?t3 ?aw ?t4 u] by (simp add: s3_def)
  have "text_steps u s (with_turn s3 i ?t4)"
    by (rule text_steps.more [OF text_steps.more [OF text_steps.more [OF s1 s2] s3] s4])
  moreover have "rx_active (with_turn s3 i ?t4) = None" "rx_context (with_turn s3 i ?t4) = rx_context s" by (simp_all add: s3_def)
  ultimately show ?thesis by (intro exI [of _ "with_turn s3 i ?t4"] exI [of _ ?t4]) simp
qed


lemma demo_streaming:
  obtains s i t where "text_reachable ascii_unicode s" "rx_turns (s :: unit text_runtime) i = Some t" "streaming t"
    "tt_generated_text t = []" "tt_maximum_response_bytes t = 16383" "ti_turn_id i = 1"
proof -
  obtain s i input where s: "text_reachable ascii_unicode (s :: unit text_runtime)" "ti_turn_id i = 1" "li_transcript input = [104]"
    "rx_turns s i = Some (new_text_turn i input False)"
    by (rule demo_started)
  let ?t = "new_text_turn i input False"
  have b: "base_ok ?t" using text_ok_turn [OF text_reachable_ok [OF s(1)] s(4)] by (simp add: turn_ok_def local_ok_def)
  obtain d where d: "li_quality_decision input = Some d" using b by (auto simp: base_ok_def)
  let ?aw = "\<lparr>aw_retrieval = None, aw_item = None, aw_panics = False, aw_elapsed_ms = 0\<rparr>"
  let ?t1 = "?t\<lparr>tt_sent := [TurnStarted (ti_turn_id i), QualityResolved d], tt_point := At_Request\<rparr>"
  let ?t2 = "?t1\<lparr>tt_point := At_Stream\<rparr>"
  have "turn_poll ?aw (rx_context s) (rx_active s) ?t = Some (rx_context s, rx_active s, ?t1)"
    using d by (simp add: turn_poll_def local_poll_def polls has_capacity_def EVENT_BUFFER_SIZE_def)
  then have s1: "text_step ascii_unicode s (with_turn s i ?t1)" by (rule alone_step [OF s(4)])
  have "request_from_input (ti_turn_id i) g input = Inr \<lparr>gr_turn_id = ti_turn_id i, gr_generation_id = g, gr_input = input\<rparr>" for g
    using request_valid [OF b, of g] by simp
  then have "turn_poll ?aw (rx_context s) (rx_active s) ?t1 = Some (rx_context s, rx_active s, ?t2)"
    by (simp add: turn_poll_def local_poll_def request_point_def)
  then have s2: "text_step ascii_unicode (with_turn s i ?t1) (with_turn s i ?t2)"
    using alone_step [of "with_turn s i ?t1" i ?t1 ?aw ?t2 ascii_unicode] by simp
  have "text_reachable ascii_unicode (with_turn s i ?t2)" by (rule text_reachable_step [OF text_reachable_step [OF s(1) s1] s2])
  then show thesis
    by (rule that [of _ i ?t2]) (simp_all add: s streaming_def MAX_CONVERSATION_MESSAGE_BYTES_def len_utf8_def)
qed


theorem text_turn_commits_witness:
  "\<exists>s i t aw c a t'. text_reachable ascii_unicode (s :: unit text_runtime) \<and> rx_turns s i = Some t \<and>
     turn_poll aw (rx_context s) (rx_active s) t = Some (c, a, t') \<and> active_turn c = None \<and>
     cm_text (ce_assistant (last (q_history (cc_quality c)))) = [104]"
proof -
  obtain s i t where s: "text_reachable ascii_unicode (s :: unit text_runtime)" "rx_turns s i = Some t" "streaming t"
    "tt_generated_text t = []" "tt_maximum_response_bytes t = 16383" "ti_turn_id i = 1"
    by (rule demo_streaming)
  have ok: "text_ok s" using text_reachable_ok [OF s(1)] .
  have "str_len (concat [[104]]) \<le> tt_maximum_response_bytes t - str_len (tt_generated_text t)" using s(4,5) by (simp add: len_utf8_def)
  then obtain t1 where t1: "text_steps ascii_unicode s (with_turn s i t1)" "streaming t1" "tt_generated_text t1 = [104]"
    using deltas_move [OF ok s(2,3)] s(4) by fastforce
  have "rx_turns (with_turn s i t1) i = Some t1" by simp
  then obtain s2 t2 where t2: "text_steps ascii_unicode (with_turn s i t1) s2" "rx_turns s2 i = Some t2"
    "tt_point t2 = At_Commit (TurnCompleted (ti_turn_id i)) [104]"
    using stream_reaches_commit [OF text_steps_ok [OF t1(1) ok] _ t1(2), of i ascii_unicode] t1(3) demo_texts(1) by auto
  have r: "text_reachable ascii_unicode s2" using text_reachable_steps [OF text_steps_trans [OF t1(1) t2(1)] s(1)] .
  let ?aw = "\<lparr>aw_retrieval = None, aw_item = None, aw_panics = False, aw_elapsed_ms = 0\<rparr>"
  obtain c b t3 where p: "turn_poll ?aw (rx_context s2) (rx_active s2) t2 = Some (c, b, t3)"
    using t2(3) by (cases "commit_point (TurnCompleted (ti_turn_id i)) [104] (rx_context s2) t2") (simp add: turn_poll_def)
  have "active_turn c = None" "cm_text (ce_assistant (last (q_history (cc_quality c)))) = [104]"
    using text_turn_commits [OF r t2(2,3) p] by simp_all
  then show ?thesis using r t2(2) p by blast
qed

end
