(* ===== verification/Spec2Isabelle.thy ===== *)
theory Spec2Isabelle
  imports Conversation_Context Turn_Finalizer Text_Chunking Recording_Adoption Recording_Reconciliation Memory_Retrieval Text_Turn
begin

text \<open>
  A verification development for the conversation runtime: the library behind a local voice and text
  assistant. Source paths are relative to \<^verbatim>\<open>src/\<close>.

  \<^bold>\<open>The program.\<close> \<^verbatim>\<open>crates/protocol\<close> holds the values that cross component borders, \<^verbatim>\<open>crates/runtime\<close> the
  conversation itself, \<^verbatim>\<open>crates/model-adapters\<close> the interfaces to recognizers, language models, speech
  and diarization with their implementations, \<^verbatim>\<open>crates/memory\<close> the memory store. A gateway process, a
  desktop application and two sidecars stand around them. One conversation is a sequence of turns on
  a shared context: a turn is begun with a transcript, resolved by the quality controller into a
  decision, a bounded history and guidance for the model, answered by a language model, and completed
  or discarded. In a voice session the transcript comes from recognizer hypotheses through the turn
  finalizer, the answer is cut into phrases for speech, and the audio is recorded, encrypted chunk by
  chunk, with capture timing. A finalized recording can later be read, recovered, adopted and
  diarized.

  \<^bold>\<open>Theories.\<close>
  \<^item> \<open>Runtime_Prelude\<close>: fixed-width arithmetic of the standard library (checked and saturating), text as
    lists of code points with UTF-8 lengths, error values (\<^verbatim>\<open>crates/protocol/src/error.rs\<close>), the
    sequencing of fallible calls, and the lemma collections.
  \<^item> \<open>Quality_Protocol\<close>, \<open>Conversation_Quality\<close>: \<^verbatim>\<open>quality.rs\<close> of the protocol and
    \<^verbatim>\<open>runtime/src/conversation_quality.rs\<close>. The controller is the record \<open>QualityController\<close>; each method
    returns the new controller and its result, \<open>None\<close> where the code would panic. Shown: turns are
    bracketed and never panic, the history keeps its bounds and the longest suffix that fits, what a
    decision says on every branch. \<open>turn_ledger\<close> is the contract of anything that opens and settles
    turns, interpreted by the controller.
  \<^item> \<open>Voice_Privacy\<close>: \<^verbatim>\<open>privacy.rs\<close>, \<^verbatim>\<open>voice_privacy.rs\<close>. Shown: exactly which voice policies are accepted.
  \<^item> \<open>Conversation_Context\<close>: \<^verbatim>\<open>conversation_context.rs\<close>, \<^verbatim>\<open>generation.rs\<close>. Every lock section is one
    definition; \<open>task_step\<close> and the relation \<open>context_step\<close> interleave any number of calls and aborts.
    Shown by rule induction: no interleaving panics, breaks a bound or lets a stale call settle
    another turn; the context is available again after every outcome; permits of the generation guard.
  \<^item> \<open>Turn_Finalizer\<close>: \<^verbatim>\<open>turn_finalizer.rs\<close>. Refines an abstract finalizer that looks at the whole event
    history.
  \<^item> \<open>Text_Chunking\<close>: \<^verbatim>\<open>phrase_chunker.rs\<close>, \<^verbatim>\<open>utterance_assembler.rs\<close>. Both interpret the locale
    \<open>segmenter\<close>; shown: termination, nothing of the text is lost, every piece keeps its bound.
  \<^item> \<open>Byte_Codec\<close>, \<open>Capture_Timing\<close>: byte order, \<^verbatim>\<open>audio_frame.rs\<close>, \<^verbatim>\<open>capture_timing.rs\<close>. The locales \<open>field\<close>
    and \<open>canonical\<close> carry the proofs that the three timing records decode exactly what they encode.
  \<^item> \<open>Recording_Safety\<close>: \<^verbatim>\<open>recording_safety.rs\<close>. The guard refines a specification on the observation
    history; limits hold; reports of the health monitor are logarithmic.
  \<^item> \<open>Recording_Format\<close>, \<open>Recording_Timeline\<close>, \<open>Session_Recorder\<close>, \<open>Recording_Reader\<close>,
    \<open>Recording_Adoption\<close>: \<^verbatim>\<open>session_recording.rs\<close>, in the order of the file: chunk records, keys and
    capabilities; timing validation and media timeline; the recorder with its disk; the reader, the
    authenticated walk and the preflight; adoption. Shown: records are canonical, a cut file reads
    back as its whole chunks, an adopted file states what the recorder stated, an incomplete one is
    refused, capabilities verify exactly when issued.
  \<^item> \<open>Diarization\<close>, \<open>Recording_Reconciliation\<close>: \<^verbatim>\<open>diarization.rs\<close>, \<^verbatim>\<open>client_diarization.rs\<close>,
    \<^verbatim>\<open>recording_reconciliation.rs\<close>. Shown: labels are anonymous, results are valid on the wire, and a
    diarizer sees exactly the recorded frames in windows that never span a gap.
  \<^item> \<open>Memory_Retrieval\<close>: \<^verbatim>\<open>memory.rs\<close> of the protocol, \<^verbatim>\<open>crates/memory/src/retrieval.rs\<close> and the retrieval
    transaction of \<^verbatim>\<open>sqlite.rs\<close>, the input of \<^verbatim>\<open>language_model.rs\<close>. Shown: what is selected and what is
    left out, and that the model accepts it.
  \<^item> \<open>Text_Turn\<close>: \<^verbatim>\<open>text_turn.rs\<close> with the events of \<^verbatim>\<open>event.rs\<close>, on top of the context and the memory. Every
    await point is one definition; \<open>text_step\<close> interleaves any number of turns with their consumers,
    interruptions and the other users of the context. Shown: the shape of every event stream, one
    terminal event, that a claimed completion always commits, that an interruption is final and
    ends the turn in six polls, that an answered turn completes and an idle runtime starts one.

  \<^bold>\<open>Conventions.\<close> Integers of up to 64 bits are words where their width matters; \<open>usize\<close> and \<open>u128\<close> are
  natural numbers with the bounds written out. A panic is \<open>None\<close>, an error \<open>Inl\<close>. Loops are structural
  or have a termination proof; there is no fuel. A lock section or a poll is one step; what a task
  holds across an await is part of its state. The clock, the disk, the operating system's random
  source and the free space are the fields of the record \<open>World\<close>, and the cryptographic primitives
  those of the record \<open>Ring\<close>: theorems state what they need of them (\<open>clock_ok\<close>, \<open>working\<close>, \<open>aead_ok\<close>,
  \<open>cipher_works\<close>, \<open>seal_grows\<close>, the length of an authentication code), and the witnesses use
  \<open>demo_world\<close> and \<open>plain_ring\<close>. The tables of Unicode are the argument \<open>u\<close>.

  \<^bold>\<open>Not modelled.\<close> The duplex voice session (\<^verbatim>\<open>voice_session.rs\<close>, \<^verbatim>\<open>streaming_turn.rs\<close>, \<^verbatim>\<open>speech_worker.rs\<close>,
  \<^verbatim>\<open>lib.rs\<close>) is a set of select loops over channels and wall-clock timers that are composed of the parts
  above. Text processing, transcript cleanup and the client wire protocol are about JSON, which the
  serde crates read and write. The store operations of the memory crate are SQL statements. The
  adapters are HTTP, WebSocket, child processes and operating-system audio; a language model, a memory
  provider and a diarizer appear as what they deliver. The gateway, the desktop application, the
  TypeScript client and the sidecars are processes and user interfaces around the library. In the
  modelled parts: database failures, dropped futures of \<open>start_turn\<close>, and accessors and formatting that
  are record selectors here.
\<close>

end
